(* ===== verification/Prelude.thy ===== *)
theory Prelude
  imports Main "HOL-Library.Word" "HOL-Library.Char_ord" "HOL-Library.List_Lexorder"
    "HOL-Library.Monad_Syntax"
begin

text \<open>
  The shared vocabulary of the development.

  Rust strings are byte sequences (UTF-8) and are modelled as \<^typ>\<open>string\<close>, a list of byte-sized
  characters; \<open>Ord\<close> on \<open>String\<close> is the lexicographic byte order, which is what
  \<open>HOL-Library.List_Lexorder\<close> with \<open>HOL-Library.Char_ord\<close> gives. The string functions of the
  standard library the program calls (\<open>starts_with\<close>, \<open>strip_prefix\<close>, \<open>split\<close>,
  \<open>split_once\<close>, \<open>rsplit\<close>, \<open>trim\<close>, decimal \<open>Display\<close>) are defined here once.

  A \<open>BTreeMap\<close> is an association list kept strictly sorted by key, so that iteration order is part of
  the model. The locale \<open>ordered_map\<close> states what its clients rely on and proves the client lemmas;
  it is interpreted on the concrete functions below.

  A \<open>None\<close> result of a definition whose source function returns a plain value means that the
  source panics or does not return; the totality theorems say when that cannot happen.
\<close>

section \<open>Fact collections\<close>

named_theorems class_simps \<open>unfolding rules for the behavior classifiers\<close>
named_theorems gate_simps \<open>unfolding rules for the actuation gates\<close>
named_theorems ledger_simps \<open>unfolding rules for the ledger updates\<close>

section \<open>Machine types\<close>

type_synonym u16 = "16 word"
type_synonym u32 = "32 word"
type_synonym u64 = "64 word"

text \<open>\<open>SystemTime\<close> and \<open>Instant\<close>: nanoseconds, before or after the epoch.\<close>

type_synonym time = int

section \<open>Strings\<close>

definition starts_with :: "string \<Rightarrow> string \<Rightarrow> bool" where
  "starts_with s p \<longleftrightarrow> take (length p) s = p"

definition strip_prefix :: "string \<Rightarrow> string \<Rightarrow> string option" where
  "strip_prefix s p = (if starts_with s p then Some (drop (length p) s) else None)"

definition strip_suffix :: "string \<Rightarrow> string \<Rightarrow> string option" where
  "strip_suffix s p = map_option rev (strip_prefix (rev s) (rev p))"

fun split_on :: "char \<Rightarrow> string \<Rightarrow> string list" where
  "split_on c [] = [[]]"
| "split_on c (x # xs) =
     (if x = c then [] # split_on c xs
      else (case split_on c xs of [] \<Rightarrow> [[x]] | seg # segs \<Rightarrow> (x # seg) # segs))"

fun split_once :: "char \<Rightarrow> string \<Rightarrow> (string \<times> string) option" where
  "split_once c [] = None"
| "split_once c (x # xs) =
     (if x = c then Some ([], xs)
      else map_option (\<lambda>(a, b). (x # a, b)) (split_once c xs))"

definition rsplit_once :: "char \<Rightarrow> string \<Rightarrow> (string \<times> string) option" where
  "rsplit_once c s = map_option (\<lambda>(a, b). (rev b, rev a)) (split_once c (rev s))"

text \<open>\<open>path.rsplit('/').next()\<close>: the last segment, always present.\<close>

definition basename :: "string \<Rightarrow> string" where
  "basename path = last (split_on (CHR ''/'') path)"

text \<open>\<open>xs.join(sep)\<close>.\<close>

fun join :: "string \<Rightarrow> string list \<Rightarrow> string" where
  "join sep [] = []"
| "join sep [x] = x"
| "join sep (x # xs) = x @ sep @ join sep xs"

text \<open>
  \<open>str::trim\<close> removes the characters with the Unicode property White\_Space. \<open>ws_len s\<close> is the
  number of bytes of the white-space character that \<open>s\<close> starts with, 0 when there is none;
  \<open>ws_len_rev\<close> reads the same table on a reversed string.
\<close>

definition ws_ascii :: "char \<Rightarrow> bool" where
  "ws_ascii c \<longleftrightarrow> c \<in> {CHR '' '', CHR 0x09, CHR 0x0A, CHR 0x0B, CHR 0x0C, CHR 0x0D}"

definition ws_two :: "char \<Rightarrow> char \<Rightarrow> bool" where
  "ws_two a b \<longleftrightarrow> a = CHR 0xC2 \<and> (b = CHR 0x85 \<or> b = CHR 0xA0)"

definition ws_three :: "char \<Rightarrow> char \<Rightarrow> char \<Rightarrow> bool" where
  "ws_three a b c \<longleftrightarrow>
     (a = CHR 0xE1 \<and> b = CHR 0x9A \<and> c = CHR 0x80) \<or>
     (a = CHR 0xE2 \<and> b = CHR 0x80 \<and>
        (CHR 0x80 \<le> c \<and> c \<le> CHR 0x8A \<or> c = CHR 0xA8 \<or> c = CHR 0xA9 \<or> c = CHR 0xAF)) \<or>
     (a = CHR 0xE2 \<and> b = CHR 0x81 \<and> c = CHR 0x9F) \<or>
     (a = CHR 0xE3 \<and> b = CHR 0x80 \<and> c = CHR 0x80)"

fun ws_len :: "string \<Rightarrow> nat" where
  "ws_len (a # b # c # s) =
     (if ws_ascii a then 1 else if ws_two a b then 2 else if ws_three a b c then 3 else 0)"
| "ws_len [a, b] = (if ws_ascii a then 1 else if ws_two a b then 2 else 0)"
| "ws_len [a] = (if ws_ascii a then 1 else 0)"
| "ws_len [] = 0"

fun ws_len_rev :: "string \<Rightarrow> nat" where
  "ws_len_rev (c # b # a # s) =
     (if ws_ascii c then 1 else if ws_two b c then 2 else if ws_three a b c then 3 else 0)"
| "ws_len_rev [c, b] = (if ws_ascii c then 1 else if ws_two b c then 2 else 0)"
| "ws_len_rev [c] = (if ws_ascii c then 1 else 0)"
| "ws_len_rev [] = 0"

lemma ws_len_shrinks: "0 < ws_len s \<Longrightarrow> length s - ws_len s < length s"
  by (cases s) auto

lemma ws_len_rev_shrinks: "0 < ws_len_rev s \<Longrightarrow> length s - ws_len_rev s < length s"
  by (cases s) auto

function trim_start :: "string \<Rightarrow> string" where
  "trim_start s = (if 0 < ws_len s then trim_start (drop (ws_len s) s) else s)"
  by pat_completeness auto
termination
  by (relation "measure length") (simp_all add: ws_len_shrinks)

function trim_end_rev :: "string \<Rightarrow> string" where
  "trim_end_rev s = (if 0 < ws_len_rev s then trim_end_rev (drop (ws_len_rev s) s) else s)"
  by pat_completeness auto
termination
  by (relation "measure length") (simp_all add: ws_len_rev_shrinks)

declare trim_start.simps [simp del] trim_end_rev.simps [simp del]

definition trim :: "string \<Rightarrow> string" where
  "trim s = rev (trim_end_rev (rev (trim_start s)))"

lemma trim_plain: "ws_len s = 0 \<Longrightarrow> ws_len_rev (rev s) = 0 \<Longrightarrow> trim s = s"
  by (simp add: trim_def trim_start.simps [of s] trim_end_rev.simps [of "rev s"])

text \<open>Decimal \<open>Display\<close> of an unsigned integer.\<close>

definition digit :: "nat \<Rightarrow> char" where
  "digit d = char_of (48 + d)"

fun show_nat :: "nat \<Rightarrow> string" where
  "show_nat n = (if n < 10 then [digit n] else show_nat (n div 10) @ [digit (n mod 10)])"

declare show_nat.simps [simp del]

subsection \<open>Splitting and joining\<close>

lemma split_on_nonempty [simp]: "split_on c s \<noteq> []"
  by (induction s) (auto split: list.splits)

lemma split_on_plain [simp]: "c \<notin> set s \<Longrightarrow> split_on c s = [s]"
  by (induction s) auto

lemma split_on_append: "split_on c (a @ c # b) = split_on c a @ split_on c b"
proof (induction a)
  case Nil
  then show ?case by simp
next
  case (Cons x a)
  then show ?case by (cases "split_on c a") auto
qed

lemma join_Cons: "xs \<noteq> [] \<Longrightarrow> join sep (x # xs) = x @ sep @ join sep xs"
  by (cases xs) simp_all

lemma join_append: "xs \<noteq> [] \<Longrightarrow> ys \<noteq> [] \<Longrightarrow> join sep (xs @ ys) = join sep xs @ sep @ join sep ys"
proof (induction xs)
  case Nil
  then show ?case by simp
next
  case (Cons x xs)
  then show ?case by (cases "xs = []") (simp_all add: join_Cons)
qed

lemma join_split_on: "join [c] (split_on c s) = s"
proof (induction s)
  case Nil
  then show ?case by simp
next
  case (Cons x s)
  obtain seg segs where seg: "split_on c s = seg # segs"
    by (cases "split_on c s") auto
  with Cons show ?case
    by (cases "segs = []") (auto simp: join_Cons)
qed

lemma split_once_append:
  "c \<notin> set a \<Longrightarrow> split_once c (a @ c # b) = Some (a, b)"
  by (induction a) auto

lemma split_once_Some:
  "split_once c s = Some (a, b) \<Longrightarrow> s = a @ c # b \<and> c \<notin> set a"
  by (induction s arbitrary: a) (auto split: if_splits)

lemma split_once_None: "split_once c s = None \<longleftrightarrow> c \<notin> set s"
  by (induction s) auto

lemma hd_split_on: "hd (split_on c s) = takeWhile (\<lambda>x. x \<noteq> c) s"
proof (induction s)
  case Nil
  then show ?case by simp
next
  case (Cons x s)
  then show ?case by (cases "split_on c s") auto
qed

lemma basename_append:
  "CHR ''/'' \<notin> set b \<Longrightarrow> basename (a @ CHR ''/'' # b) = b"
  by (simp add: basename_def split_on_append)

lemma basename_plain: "CHR ''/'' \<notin> set b \<Longrightarrow> basename b = b"
  by (simp add: basename_def)

lemma starts_with_append [simp]: "starts_with (p @ s) p"
  by (simp add: starts_with_def)

lemma starts_with_iff: "starts_with s p \<longleftrightarrow> (\<exists>r. s = p @ r)"
  by (metis append_take_drop_id starts_with_append starts_with_def)

lemma strip_prefix_iff: "strip_prefix s p = Some r \<longleftrightarrow> s = p @ r"
  by (auto simp: strip_prefix_def starts_with_iff)

section \<open>BTreeMap\<close>

type_synonym ('k, 'v) btree = "('k \<times> 'v) list"

definition bt_get :: "('k, 'v) btree \<Rightarrow> 'k \<Rightarrow> 'v option" where
  "bt_get m k = map_of m k"

fun bt_put :: "'k::linorder \<Rightarrow> 'v \<Rightarrow> ('k, 'v) btree \<Rightarrow> ('k, 'v) btree" where
  "bt_put k v [] = [(k, v)]"
| "bt_put k v (e # m) =
     (if fst e < k then e # bt_put k v m
      else if fst e = k then (k, v) # m
      else (k, v) # e # m)"

definition bt_ok :: "('k::linorder, 'v) btree \<Rightarrow> bool" where
  "bt_ok m \<longleftrightarrow> sorted_wrt (<) (map fst m)"

lemma bt_put_keys: "set (map fst (bt_put k v m)) = insert k (set (map fst m))"
  by (induction m) auto

lemma bt_ok_Nil [simp]: "bt_ok []"
  by (simp add: bt_ok_def)

lemma bt_ok_put [simp]: "bt_ok m \<Longrightarrow> bt_ok (bt_put k v m)"
proof (induction m)
  case Nil
  then show ?case by (simp add: bt_ok_def)
next
  case (Cons e m)
  then have tail: "bt_ok (bt_put k v m)" and keys: "\<forall>x\<in>set (map fst m). fst e < x"
    by (auto simp: bt_ok_def)
  show ?case
    using Cons.prems tail keys bt_put_keys [of k v m]
    by (auto simp: bt_ok_def)
qed

lemma bt_get_put: "bt_ok m \<Longrightarrow> bt_get (bt_put k v m) k' = (if k' = k then Some v else bt_get m k')"
proof (induction m)
  case Nil
  then show ?case by (simp add: bt_get_def)
next
  case (Cons e m)
  then have IH: "map_of (bt_put k v m) k' = (if k' = k then Some v else map_of m k')"
    and keys: "\<forall>x\<in>set (map fst m). fst e < x"
    by (auto simp: bt_get_def bt_ok_def)
  show ?case
    using IH keys by (cases e) (auto simp: bt_get_def)
qed

lemma bt_entries: "bt_ok m \<Longrightarrow> (k, v) \<in> set m \<longleftrightarrow> bt_get m k = Some v"
  unfolding bt_ok_def bt_get_def
  by (simp add: strict_sorted_iff map_of_eq_Some_iff)

text \<open>
  What the program relies on of a \<open>BTreeMap\<close>: a lookup after an insert, and iteration in strict key
  order over exactly the stored pairs.
\<close>

locale ordered_map =
  fixes empty :: "'m"
    and get :: "'m \<Rightarrow> 'k::linorder \<Rightarrow> 'v option"
    and put :: "'k \<Rightarrow> 'v \<Rightarrow> 'm \<Rightarrow> 'm"
    and entries :: "'m \<Rightarrow> ('k \<times> 'v) list"
    and ok :: "'m \<Rightarrow> bool"
  assumes ok_empty: "ok empty"
    and ok_put: "ok m \<Longrightarrow> ok (put k v m)"
    and get_empty: "get empty k = None"
    and get_put: "ok m \<Longrightarrow> get (put k v m) k' = (if k' = k then Some v else get m k')"
    and entries_get: "ok m \<Longrightarrow> (k, v) \<in> set (entries m) \<longleftrightarrow> get m k = Some v"
    and entries_sorted: "ok m \<Longrightarrow> sorted_wrt (<) (map fst (entries m))"
begin

lemma distinct_entries: "ok m \<Longrightarrow> distinct (map fst (entries m))"
  using entries_sorted strict_sorted_iff by blast

lemma put_get_same: "ok m \<Longrightarrow> get (put k v m) k = Some v"
  by (simp add: get_put)

lemma put_get_other: "ok m \<Longrightarrow> k' \<noteq> k \<Longrightarrow> get (put k v m) k' = get m k'"
  by (simp add: get_put)

lemma filter_entries_get:
  "ok m \<Longrightarrow> (k, v) \<in> set (filter P (entries m)) \<longleftrightarrow> get m k = Some v \<and> P (k, v)"
  by (auto simp: entries_get)

text \<open>A loop that writes one key per element: an invariant of single writes holds at the end.\<close>

lemma fold_put_invariant:
  assumes "ok m" and "I m"
    and "\<And>x m. x \<in> set xs \<Longrightarrow> ok m \<Longrightarrow> I m \<Longrightarrow> I (put (key x) (val x (get m (key x))) m)"
  shows "ok (fold (\<lambda>x m. put (key x) (val x (get m (key x))) m) xs m) \<and>
    I (fold (\<lambda>x m. put (key x) (val x (get m (key x))) m) xs m)"
  using assms by (induction xs arbitrary: m) (auto simp: ok_put)

end

interpretation bt: ordered_map "[]" bt_get bt_put "\<lambda>m. m" bt_ok
  by unfold_locales (simp_all add: bt_get_put bt_entries, simp_all add: bt_ok_def bt_get_def)

text \<open>\<open>collect::<BTreeMap<_, _>>()\<close>: later pairs win.\<close>

definition bt_of_list :: "('k::linorder \<times> 'v) list \<Rightarrow> ('k, 'v) btree" where
  "bt_of_list xs = fold (\<lambda>(k, v). bt_put k v) xs []"

lemma fold_put_get:
  "bt_ok m \<Longrightarrow> bt_ok (fold (\<lambda>(k, v). bt_put k v) xs m) \<and>
     bt_get (fold (\<lambda>(k, v). bt_put k v) xs m) k =
       (case map_of (rev xs) k of Some v \<Rightarrow> Some v | None \<Rightarrow> bt_get m k)"
proof (induction xs arbitrary: m)
  case Nil
  then show ?case by simp
next
  case (Cons e xs)
  then show ?case
    using Cons.IH [of "bt_put (fst e) (snd e) m"]
    by (cases e) (auto simp: bt_get_put map_add_def split: option.split)
qed

lemma bt_of_list_ok [simp]: "bt_ok (bt_of_list xs)"
  using fold_put_get [of "[]" xs] by (simp add: bt_of_list_def)

lemma bt_of_list_get: "bt_get (bt_of_list xs) k = map_of (rev xs) k"
  using fold_put_get [of "[]" xs k] by (simp add: bt_of_list_def bt_get_def split: option.splits)

text \<open>\<open>BTreeMap::retain\<close> on the keys, and \<open>remove\<close> as its complement at one key.\<close>

definition bt_keep :: "('k \<Rightarrow> bool) \<Rightarrow> ('k, 'v) btree \<Rightarrow> ('k, 'v) btree" where
  "bt_keep P m = filter (\<lambda>(k, _). P k) m"

lemma bt_keep_ok [simp]: "bt_ok m \<Longrightarrow> bt_ok (bt_keep P m)"
  unfolding bt_keep_def bt_ok_def by (induction m) auto

lemma bt_keep_get: "bt_get (bt_keep P m) k = (if P k then bt_get m k else None)"
  unfolding bt_keep_def bt_get_def by (induction m) auto

text \<open>Two maps with the same lookups are equal.\<close>

lemma bt_ext:
  assumes "bt_ok m" "bt_ok m'" "\<And>k. bt_get m k = bt_get m' k"
  shows "m = m'"
proof -
  have same: "set m = set m'" using assms bt_entries by (metis subsetI subset_antisym surj_pair)
  moreover have "inj_on fst (set m \<union> set m')"
    using assms(1) unfolding same bt_ok_def strict_sorted_iff by (simp add: distinct_map same [symmetric])
  ultimately show ?thesis
    using assms(1,2) unfolding bt_ok_def strict_sorted_iff
    by (intro map_sorted_distinct_set_unique [of fst]) (auto simp: distinct_map)
qed

text \<open>\<open>collect::<BTreeSet<_>>()\<close>, and \<open>sort(); dedup()\<close> on a vector.\<close>

definition bs_of_list :: "'k::linorder list \<Rightarrow> 'k list" where
  "bs_of_list xs = remdups_adj (sort xs)"

lemma sorted_remdups_adj_strict: "sorted xs \<Longrightarrow> sorted_wrt (<) (remdups_adj (xs :: 'k::linorder list))"
  by (induction xs rule: remdups_adj.induct) (auto simp: less_le)

lemma bs_of_list_set [simp]: "set (bs_of_list xs) = set xs"
  by (simp add: bs_of_list_def)

lemma bs_of_list_sorted [simp]: "sorted_wrt (<) (bs_of_list xs)"
  by (simp add: bs_of_list_def sorted_remdups_adj_strict)

lemma bs_of_list_distinct [simp]: "distinct (bs_of_list xs)"
  using bs_of_list_sorted strict_sorted_iff by blast

section \<open>Options\<close>

text \<open>\<open>those\<close> collects a list of results; the helpers below characterise it.\<close>

lemma those_map_Some:
  "(\<And>x. x \<in> set xs \<Longrightarrow> \<exists>y. f x = Some y) \<Longrightarrow> \<exists>ys. those (map f xs) = Some ys"
  by (induction xs) (auto split: option.splits)

lemma those_map_eq_Some:
  "those (map f xs) = Some ys \<longleftrightarrow> list_all2 (\<lambda>x y. f x = Some y) xs ys"
proof (induction xs arbitrary: ys)
  case Nil
  then show ?case by auto
next
  case (Cons x xs)
  then show ?case
    by (cases ys) (auto split: option.splits)
qed

lemma those_map_set:
  "those (map f xs) = Some ys \<Longrightarrow> y \<in> set ys \<longleftrightarrow> (\<exists>x\<in>set xs. f x = Some y)"
  unfolding those_map_eq_Some
  by (induction rule: list_all2_induct) auto

lemma set_map_filter: "y \<in> set (List.map_filter f xs) \<longleftrightarrow> (\<exists>x\<in>set xs. f x = Some y)"
  by (force simp: map_filter_def)

lemma find_SomeD: "find P xs = Some x \<Longrightarrow> x \<in> set xs \<and> P x"
  by (induction xs) (auto split: if_splits)

end
