(* ===== verification/Attack.thy ===== *)
theory Attack
  imports Prelude
begin

text \<open>
  The ATT\&CK vocabulary (\<open>engine/src/engine/graph/attack.rs\<close>): the adversary goals, the
  technique constants the engine tags edges and objectives with, and the catalogue of dangerous
  RBAC capabilities with its lookup \<open>capability_technique\<close>.
\<close>

datatype attack_tactic =
    InitialAccess
  | Execution
  | Persistence
  | PrivilegeEscalation
  | CredentialAccess
  | Discovery
  | LateralMovement
  | Collection
  | Exfiltration
  | Impact

fun tactic_id :: "attack_tactic \<Rightarrow> string" where
  "tactic_id InitialAccess = ''TA0001''"
| "tactic_id Execution = ''TA0002''"
| "tactic_id Persistence = ''TA0003''"
| "tactic_id PrivilegeEscalation = ''TA0004''"
| "tactic_id CredentialAccess = ''TA0006''"
| "tactic_id Discovery = ''TA0007''"
| "tactic_id LateralMovement = ''TA0008''"
| "tactic_id Collection = ''TA0009''"
| "tactic_id Exfiltration = ''TA0010''"
| "tactic_id Impact = ''TA0040''"

fun tactic_name :: "attack_tactic \<Rightarrow> string" where
  "tactic_name InitialAccess = ''Initial Access''"
| "tactic_name Execution = ''Execution''"
| "tactic_name Persistence = ''Persistence''"
| "tactic_name PrivilegeEscalation = ''Privilege Escalation''"
| "tactic_name CredentialAccess = ''Credential Access''"
| "tactic_name Discovery = ''Discovery''"
| "tactic_name LateralMovement = ''Lateral Movement''"
| "tactic_name Collection = ''Collection''"
| "tactic_name Exfiltration = ''Exfiltration''"
| "tactic_name Impact = ''Impact''"

record attack_ref =
  a_tactic :: attack_tactic
  technique_id :: string
  technique_name :: string

definition EXPLOIT_PUBLIC_FACING :: attack_ref where
  "EXPLOIT_PUBLIC_FACING = \<lparr>a_tactic = InitialAccess, technique_id = ''T1190'',
     technique_name = ''Exploit Public-Facing Application''\<rparr>"

definition CREDENTIAL_ACCESS :: attack_ref where
  "CREDENTIAL_ACCESS = \<lparr>a_tactic = CredentialAccess, technique_id = ''T1552'',
     technique_name = ''Unsecured Credentials''\<rparr>"

definition ESCAPE_TO_HOST :: attack_ref where
  "ESCAPE_TO_HOST = \<lparr>a_tactic = PrivilegeEscalation, technique_id = ''T1611'',
     technique_name = ''Escape to Host''\<rparr>"

definition EXFILTRATION :: attack_ref where
  "EXFILTRATION = \<lparr>a_tactic = Exfiltration, technique_id = ''T1041'',
     technique_name = ''Exfiltration Over C2 Channel''\<rparr>"

definition DATA_FROM_REPOSITORY :: attack_ref where
  "DATA_FROM_REPOSITORY = \<lparr>a_tactic = Collection, technique_id = ''T1213'',
     technique_name = ''Data from Information Repositories''\<rparr>"

definition DEPLOY_CONTAINER :: attack_ref where
  "DEPLOY_CONTAINER = \<lparr>a_tactic = Execution, technique_id = ''T1610'',
     technique_name = ''Deploy Container''\<rparr>"

definition CONTAINER_ADMIN_COMMAND :: attack_ref where
  "CONTAINER_ADMIN_COMMAND = \<lparr>a_tactic = Execution, technique_id = ''T1609'',
     technique_name = ''Container Administration Command''\<rparr>"

definition RBAC_ESCALATION :: attack_ref where
  "RBAC_ESCALATION = \<lparr>a_tactic = PrivilegeEscalation, technique_id = ''T1098.006'',
     technique_name = ''Account Manipulation: Additional Container Cluster Roles''\<rparr>"

definition DATA_DESTRUCTION :: attack_ref where
  "DATA_DESTRUCTION = \<lparr>a_tactic = Impact, technique_id = ''T1485'',
     technique_name = ''Data Destruction''\<rparr>"

definition PERSISTENCE_SCHEDULED :: attack_ref where
  "PERSISTENCE_SCHEDULED = \<lparr>a_tactic = Persistence, technique_id = ''T1053.007'',
     technique_name = ''Scheduled Task/Job: Container Orchestration Job''\<rparr>"

record dangerous_capability =
  dc_group :: string
  dc_resource :: string
  dc_verb :: string
  dc_attack :: attack_ref

definition CAPABILITY_CATALOG :: "dangerous_capability list" where
  "CAPABILITY_CATALOG =
    [\<lparr>dc_group = '''', dc_resource = ''pods'', dc_verb = ''create'',
       dc_attack = DEPLOY_CONTAINER\<rparr>,
     \<lparr>dc_group = '''', dc_resource = ''pods/exec'', dc_verb = ''create'',
       dc_attack = CONTAINER_ADMIN_COMMAND\<rparr>,
     \<lparr>dc_group = '''', dc_resource = ''pods/attach'', dc_verb = ''create'',
       dc_attack = CONTAINER_ADMIN_COMMAND\<rparr>,
     \<lparr>dc_group = ''rbac.authorization.k8s.io'', dc_resource = ''rolebindings'',
       dc_verb = ''create'', dc_attack = RBAC_ESCALATION\<rparr>,
     \<lparr>dc_group = ''rbac.authorization.k8s.io'', dc_resource = ''clusterrolebindings'',
       dc_verb = ''create'', dc_attack = RBAC_ESCALATION\<rparr>,
     \<lparr>dc_group = ''rbac.authorization.k8s.io'', dc_resource = ''*'',
       dc_verb = ''bind'', dc_attack = RBAC_ESCALATION\<rparr>,
     \<lparr>dc_group = ''rbac.authorization.k8s.io'', dc_resource = ''*'',
       dc_verb = ''escalate'', dc_attack = RBAC_ESCALATION\<rparr>,
     \<lparr>dc_group = '''', dc_resource = ''persistentvolumeclaims'', dc_verb = ''delete'',
       dc_attack = DATA_DESTRUCTION\<rparr>,
     \<lparr>dc_group = ''batch'', dc_resource = ''cronjobs'', dc_verb = ''create'',
       dc_attack = PERSISTENCE_SCHEDULED\<rparr>]"

definition capability_technique :: "string \<Rightarrow> string \<Rightarrow> attack_ref option" where
  "capability_technique verb resource =
     map_option dc_attack
       (find (\<lambda>c. dc_verb c = verb \<and> dc_resource c = resource) CAPABILITY_CATALOG)"

lemmas attack_const_defs =
  EXPLOIT_PUBLIC_FACING_def CREDENTIAL_ACCESS_def ESCAPE_TO_HOST_def EXFILTRATION_def
  DATA_FROM_REPOSITORY_def DEPLOY_CONTAINER_def CONTAINER_ADMIN_COMMAND_def RBAC_ESCALATION_def
  DATA_DESTRUCTION_def PERSISTENCE_SCHEDULED_def

lemma tactic_id_inj: "tactic_id a = tactic_id b \<Longrightarrow> a = b"
  by (cases a; cases b) simp_all

text \<open>
  The catalogue never tags a capability with an entry or data-access goal: a chain that ends in a
  capability is an execution, escalation, impact or persistence outcome.
\<close>

lemma capability_technique_goals:
  assumes "capability_technique v r = Some a"
  shows "a_tactic a \<in> {Execution, PrivilegeEscalation, Impact, Persistence}"
proof -
  from assms obtain c where "c \<in> set CAPABILITY_CATALOG" "a = dc_attack c"
    by (auto simp: capability_technique_def dest: find_SomeD)
  then show ?thesis
    by (auto simp: CAPABILITY_CATALOG_def attack_const_defs)
qed

end
