(* ===== verification/Behavior.thy ===== *)
theory Behavior
  imports Prelude
begin

text \<open>
  The behavioral-evidence contract (\<open>behavior/src/lib.rs\<close>): what a workload did, the label, the
  summary line and the cache fingerprint of a behavior, how an observation is attributed to a
  workload, and the agent's liveness beacon. The serde encoding is a third-party derive and is not
  part of the model.
\<close>

datatype secret_read_source = Mounted | Api | HostPath

datatype behavior =
    Alert (alert_rule: string)
  | NetworkConnection (conn_peer: string) (conn_internet: bool)
  | SecretRead (sr_secret: string) (sr_source: secret_read_source)
  | LibraryLoaded (lib_name: string)
  | FileRead (fr_path: string)
  | PrivilegeChange (from_uid: u32) (to_uid: u32)
  | ProcessExec (exec_path: string) (exe_anon_inode: bool)
  | FileWrite (fw_path: string)
  | ImageLinkage (static_linkage: bool)
  | PtraceAttach
  | ModuleLoad

definition is_mounted :: "secret_read_source \<Rightarrow> bool" where
  "is_mounted s \<longleftrightarrow> s = Mounted"

definition dirname :: "string \<Rightarrow> string" where
  "dirname path =
     (case rsplit_once (CHR ''/'') path of
        Some (a, _) \<Rightarrow> (if a = [] then ''/'' else a)
      | None \<Rightarrow> ''/'')"

fun is_alert :: "behavior \<Rightarrow> bool" where
  "is_alert (Alert _) = True"
| "is_alert _ = False"

fun variant_label :: "behavior \<Rightarrow> string" where
  "variant_label (Alert _) = ''alert''"
| "variant_label (NetworkConnection _ _) = ''connection''"
| "variant_label (SecretRead _ _) = ''secret-read''"
| "variant_label (LibraryLoaded _) = ''library-load''"
| "variant_label (FileRead _) = ''file-read''"
| "variant_label (PrivilegeChange _ _) = ''priv-change''"
| "variant_label (ProcessExec _ _) = ''exec''"
| "variant_label (FileWrite _) = ''file-write''"
| "variant_label (ImageLinkage _) = ''image-linkage''"
| "variant_label PtraceAttach = ''ptrace-attach''"
| "variant_label ModuleLoad = ''module-load''"

fun summary :: "behavior \<Rightarrow> string" where
  "summary (Alert rule) = ''alert: '' @ rule"
| "summary (NetworkConnection peer internet) =
     ''connects to '' @ peer @ (if internet then '' (INTERNET egress)'' else '''')"
| "summary (SecretRead secret source) =
     (case source of
        Mounted \<Rightarrow> ''reads secret '' @ secret
      | Api \<Rightarrow> ''reads secret '' @ secret @ '' (via Kubernetes API)''
      | HostPath \<Rightarrow> ''reads secret '' @ secret @ '' (on-host filesystem)'')"
| "summary (LibraryLoaded name) = ''loaded library '' @ name"
| "summary (FileRead path) = ''opened file '' @ path"
| "summary (PrivilegeChange fu tu) =
     ''privilege change uid '' @ show_nat (unat fu) @ '' -> '' @ show_nat (unat tu)"
| "summary (ProcessExec path anon) =
     (if anon
      then ''executed '' @ path @ '' (anonymous-inode: memfd/unlinked backing, no on-disk file)''
      else ''executed '' @ path)"
| "summary (FileWrite path) = ''wrote file '' @ path"
| "summary (ImageLinkage lnk) =
     (if lnk then ''entrypoint is a statically linked binary''
      else ''entrypoint is a dynamically linked binary'')"
| "summary PtraceAttach = ''ptrace attach (process injection primitive)''"
| "summary ModuleLoad = ''loaded a kernel module''"

fun fingerprint_key :: "behavior \<Rightarrow> string" where
  "fingerprint_key (Alert rule) = ''alert:'' @ rule"
| "fingerprint_key (NetworkConnection _ True) = ''egress:internet''"
| "fingerprint_key (NetworkConnection _ False) = ''egress:cluster''"
| "fingerprint_key (SecretRead secret Mounted) = ''read:'' @ secret"
| "fingerprint_key (SecretRead secret Api) = ''read-api:'' @ secret"
| "fingerprint_key (SecretRead secret HostPath) = ''read-host:'' @ secret"
| "fingerprint_key (LibraryLoaded name) = ''lib:'' @ name"
| "fingerprint_key (FileRead path) = ''file:'' @ path"
| "fingerprint_key (PrivilegeChange _ tu) = ''priv:'' @ show_nat (unat tu)"
| "fingerprint_key (ProcessExec path anon) =
     ''exec:'' @ basename path @ (if anon then '':anon-inode'' else '''')"
| "fingerprint_key (FileWrite path) = ''write:'' @ dirname path"
| "fingerprint_key (ImageLinkage lnk) = ''linkage:'' @ (if lnk then ''true'' else ''false'')"
| "fingerprint_key PtraceAttach = ''ptrace-attach''"
| "fingerprint_key ModuleLoad = ''module-load''"

datatype attribution =
    ByPodUid (pod_uid: string)
  | ByNamespacedName (attr_namespace: string) (attr_pod: string)

fun resolves_in :: "attribution \<Rightarrow> (string \<Rightarrow> bool) \<Rightarrow> bool" where
  "resolves_in (ByNamespacedName _ _) _ = True"
| "resolves_in (ByPodUid uid) pod_uid_known = pod_uid_known uid"

record runtime_observation =
  ro_attribution :: attribution
  ro_source :: "string option"
  ro_observed_at_ms :: "u64 option"
  ro_node :: "string option"
  ro_behavior :: behavior

record agent_report =
  ar_node :: string
  probes_loaded :: u32
  probes_total :: u32
  signals_emitted :: u64
  ar_observed_at_ms :: "u64 option"

definition is_blind :: "agent_report \<Rightarrow> bool" where
  "is_blind r \<longleftrightarrow> probes_loaded r = 0"

definition is_partial :: "agent_report \<Rightarrow> bool" where
  "is_partial r \<longleftrightarrow>
     0 < probes_loaded r \<and> 0 < probes_total r \<and> probes_loaded r < probes_total r"

record runtime_report =
  observations :: "runtime_observation list"
  liveness :: "agent_report option"

section \<open>Fingerprints\<close>

text \<open>The part of a fingerprint before its first colon names the kind of the behavior.\<close>

fun key_kind :: "behavior \<Rightarrow> string" where
  "key_kind (Alert _) = ''alert''"
| "key_kind (NetworkConnection _ _) = ''egress''"
| "key_kind (SecretRead _ Mounted) = ''read''"
| "key_kind (SecretRead _ Api) = ''read-api''"
| "key_kind (SecretRead _ HostPath) = ''read-host''"
| "key_kind (LibraryLoaded _) = ''lib''"
| "key_kind (FileRead _) = ''file''"
| "key_kind (PrivilegeChange _ _) = ''priv''"
| "key_kind (ProcessExec _ _) = ''exec''"
| "key_kind (FileWrite _) = ''write''"
| "key_kind (ImageLinkage _) = ''linkage''"
| "key_kind PtraceAttach = ''ptrace-attach''"
| "key_kind ModuleLoad = ''module-load''"

lemma fingerprint_kind:
  "takeWhile (\<lambda>c. c \<noteq> CHR '':'') (fingerprint_key b) = key_kind b"
  by (cases b rule: fingerprint_key.cases) simp_all

lemma key_kind_label: "key_kind a = key_kind b \<Longrightarrow> variant_label a = variant_label b"
  by (cases a rule: key_kind.cases; cases b rule: key_kind.cases) simp_all

lemma key_kind_source:
  "key_kind (SecretRead s x) = key_kind (SecretRead t y) \<Longrightarrow> x = y"
  by (cases x; cases y) simp_all

text \<open>
  Two behaviors with the same cache fingerprint are of the same kind: a fingerprint never
  confuses, say, an alert with a file write, and a mounted read of a secret never shares its key
  with an API or on-host read of one.
\<close>

theorem fingerprint_key_separates_kinds:
  assumes "fingerprint_key a = fingerprint_key b"
  shows "variant_label a = variant_label b \<and>
    (\<forall>s x t y. a = SecretRead s x \<longrightarrow> b = SecretRead t y \<longrightarrow> x = y \<and> s = t)"
proof -
  from assms have kind: "key_kind a = key_kind b"
    using fingerprint_kind by metis
  then have "variant_label a = variant_label b"
    by (rule key_kind_label)
  moreover have "x = y \<and> s = t" if "a = SecretRead s x" "b = SecretRead t y" for s x t y
  proof -
    from that kind have "x = y" using key_kind_source by blast
    with assms that show ?thesis by (cases y) simp_all
  qed
  ultimately show ?thesis by blast
qed

theorem fingerprint_key_separates_kinds_witness:
  "fingerprint_key (NetworkConnection ''10.0.0.1:80'' True) =
     fingerprint_key (NetworkConnection ''10.9.9.9:443'' True) \<and>
   variant_label (NetworkConnection ''10.0.0.1:80'' True) =
     variant_label (NetworkConnection ''10.9.9.9:443'' True)"
  using fingerprint_key_separates_kinds [of "NetworkConnection ''10.0.0.1:80'' True"
      "NetworkConnection ''10.9.9.9:443'' True"]
  by simp

end
