(* ===== verification/Graph.thy ===== *)
theory Graph
  imports Attack Behavior
begin

text \<open>
  The cluster security graph (\<open>engine/src/engine/graph/mod.rs\<close>): node and edge vocabulary, node keys
  and their parsers, and the graph store with its key index.

  The store is a \<open>petgraph::StableGraph\<close>, a third-party container. It is a parameter of the model: the
  record \<open>petgraph\<close> lists the container operations the program calls, and every definition that
  touches the store takes such a record as its first argument. The locale \<open>stable_graph\<close> states
  what the crate documents of them; node and edge indices are natural numbers. An adjacency-list
  container, \<open>adj_graph\<close>, satisfies the laws and lets examples be evaluated.

  CVSS and EPSS scores are floating-point numbers that the modelled code only carries; they are kept
  as their bit patterns.
\<close>

section \<open>Vocabulary\<close>

record provenance =
  p_source :: string
  observed_at :: time

datatype severity = Low | Medium | High | Critical

fun severity_rank :: "severity \<Rightarrow> nat" where
  "severity_rank Low = 0"
| "severity_rank Medium = 1"
| "severity_rank High = 2"
| "severity_rank Critical = 3"

instantiation severity :: linorder
begin

definition less_eq_severity :: "severity \<Rightarrow> severity \<Rightarrow> bool" where
  "less_eq_severity a b \<longleftrightarrow> severity_rank a \<le> severity_rank b"

definition less_severity :: "severity \<Rightarrow> severity \<Rightarrow> bool" where
  "less_severity a b \<longleftrightarrow> severity_rank a < severity_rank b"

instance
proof
  fix a b c :: severity
  show "(a < b) = (a \<le> b \<and> \<not> b \<le> a)"
    by (auto simp: less_eq_severity_def less_severity_def)
  show "a \<le> a" by (simp add: less_eq_severity_def)
  show "a \<le> b \<Longrightarrow> b \<le> c \<Longrightarrow> a \<le> c" by (simp add: less_eq_severity_def)
  show "a \<le> b \<Longrightarrow> b \<le> a \<Longrightarrow> a = b"
    by (cases a; cases b) (simp_all add: less_eq_severity_def)
  show "a \<le> b \<or> b \<le> a" by (auto simp: less_eq_severity_def)
qed

end

fun severity_label :: "severity \<Rightarrow> string" where
  "severity_label Low = ''low''"
| "severity_label Medium = ''medium''"
| "severity_label High = ''high''"
| "severity_label Critical = ''critical''"

datatype reachability = ReachUnknown | LoadedAtRuntime | NotObserved | PresentStaticBinary

fun reachability_label :: "reachability \<Rightarrow> string" where
  "reachability_label ReachUnknown = ''unknown''"
| "reachability_label LoadedAtRuntime = ''loaded-at-runtime''"
| "reachability_label NotObserved = ''not-observed''"
| "reachability_label PresentStaticBinary = ''present-static-binary''"

record vulnerability =
  v_id :: string
  v_severity :: severity
  exploited_in_wild :: bool
  epss :: "u32 option"
  v_sources :: "provenance list"
  v_reachability :: reachability
  pkg_name :: "string option"
  installed_version :: "string option"
  fixed_version :: "string option"
  v_title :: "string option"
  primary_link :: "string option"
  v_score :: "u64 option"

record scan_finding =
  f_id :: string
  f_severity :: severity
  f_category :: "string option"
  f_title :: "string option"
  f_target :: "string option"
  f_sources :: "provenance list"

record runtime_signal =
  rs_behavior :: behavior
  rs_provenance :: provenance

datatype exposure = Internal | ClusterExposed | Internet

datatype trust = TrustUnknown | Untrusted | Signed provenance

record workload =
  w_namespace :: string
  w_name :: string
  w_kind :: string
  w_labels :: "(string, string) btree"
  meshed :: bool
  w_exposure :: exposure
  w_runtime :: "runtime_signal list"
  persistent :: bool
  misconfigs :: "scan_finding list"
  rbac_findings :: "scan_finding list"

record identity =
  i_namespace :: string
  i_name :: string

record secret_ref =
  s_namespace :: string
  s_name :: string

record endpoint =
  e_address :: string

record image =
  im_digest :: string
  im_reference :: "string option"
  im_trust :: trust
  vulnerabilities :: "vulnerability list"
  exposed_secrets :: "scan_finding list"
  static_binary :: "bool option"

record host =
  h_name :: string

datatype scope = Cluster | Namespace string

fun scope_label :: "scope \<Rightarrow> string" where
  "scope_label Cluster = ''cluster''"
| "scope_label (Namespace ns) = ''ns:'' @ ns"

record capability =
  c_verb :: string
  c_resource :: string
  c_scope :: scope

datatype node =
    is_Workload: Workload workload
  | is_Identity: Identity identity
  | is_Secret: Secret secret_ref
  | is_Endpoint: Endpoint endpoint
  | is_Image: Image image
  | is_Host: Host host
  | is_Capability: Capability capability

datatype protocol = Tcp | Udp

datatype relation =
    Reaches "u16 option" protocol
  | CanDo string string
  | CanRead
  | EscapesTo string
  | CanEgress string
  | RunsAs
  | RunsImage
  | ScheduledOn

record edge =
  e_relation :: relation
  e_provenance :: provenance

section \<open>Node keys\<close>

type_synonym node_key = string

definition workload_key :: "string \<Rightarrow> string \<Rightarrow> string \<Rightarrow> node_key" where
  "workload_key ns kind name = ''workload/'' @ ns @ ''/'' @ kind @ ''/'' @ name"

definition image_key :: "string \<Rightarrow> node_key" where
  "image_key digest = ''image/'' @ digest"

fun key :: "node \<Rightarrow> node_key" where
  "key (Workload w) = workload_key (w_namespace w) (w_kind w) (w_name w)"
| "key (Identity i) = ''identity/'' @ i_namespace i @ ''/'' @ i_name i"
| "key (Secret s) = ''secret/'' @ s_namespace s @ ''/'' @ s_name s"
| "key (Endpoint e) = ''endpoint/'' @ e_address e"
| "key (Image im) = image_key (im_digest im)"
| "key (Host h) = ''host/'' @ h_name h"
| "key (Capability c) =
     ''capability/'' @ scope_label (c_scope c) @ ''/'' @ c_verb c @ ''/'' @ c_resource c"

definition kind_of :: "node_key \<Rightarrow> string" where
  "kind_of k = hd (split_on (CHR ''/'') k)"

definition key_namespace :: "node_key \<Rightarrow> string option" where
  "key_namespace k =
     (let parts = split_on (CHR ''/'') k
      in if hd parts \<in> {''workload'', ''secret'', ''identity'', ''capability''}
         then (case tl parts of [] \<Rightarrow> None | p # _ \<Rightarrow> Some p)
         else None)"

definition key_name :: "node_key \<Rightarrow> string option" where
  "key_name k =
     (let parts = split_on (CHR ''/'') k; count = length parts
      in if hd parts = ''workload'' \<and> count = 4 then Some (parts ! 3)
         else if hd parts \<in> {''secret'', ''identity''} \<and> count = 3 then Some (parts ! 2)
         else None)"

definition short_of :: "node_key \<Rightarrow> string" where
  "short_of k = (case split_once (CHR ''/'') k of Some (_, rest) \<Rightarrow> rest | None \<Rightarrow> k)"

text \<open>
  \<open>canonical_image\<close> parses with the third-party OCI reference parser, a parameter here: the parsed
  registry, repository, digest and tag.
\<close>

record oci_reference =
  oci_registry :: string
  oci_repository :: string
  oci_digest :: "string option"
  oci_tag :: "string option"

definition canonical_image :: "(string \<Rightarrow> oci_reference option) \<Rightarrow> string \<Rightarrow> string" where
  "canonical_image parse reference =
     (case parse reference of
        Some r \<Rightarrow>
          (let base = oci_registry r @ ''/'' @ oci_repository r
           in case (oci_digest r, oci_tag r) of
                (Some digest, _) \<Rightarrow> base @ ''@'' @ digest
              | (None, Some tag) \<Rightarrow> base @ '':'' @ tag
              | (None, None) \<Rightarrow> base @ '':latest'')
      | None \<Rightarrow> reference)"

section \<open>Relations\<close>

fun is_structural :: "relation \<Rightarrow> bool" where
  "is_structural RunsAs = True"
| "is_structural RunsImage = True"
| "is_structural ScheduledOn = True"
| "is_structural _ = False"

fun protocol_debug :: "protocol \<Rightarrow> string" where
  "protocol_debug Tcp = ''Tcp''"
| "protocol_debug Udp = ''Udp''"

fun relation_label :: "relation \<Rightarrow> string" where
  "relation_label (Reaches (Some p) proto) =
     ''reaches/'' @ protocol_debug proto @ ''/'' @ show_nat (unat p)"
| "relation_label (Reaches None proto) = ''reaches/'' @ protocol_debug proto"
| "relation_label (CanDo verb resource) = ''can-do/'' @ verb @ ''/'' @ resource"
| "relation_label CanRead = ''can-read''"
| "relation_label (EscapesTo via) = ''escapes-to/'' @ via"
| "relation_label (CanEgress via) = ''can-egress/'' @ via"
| "relation_label RunsAs = ''runs-as''"
| "relation_label RunsImage = ''runs-image''"
| "relation_label ScheduledOn = ''scheduled-on''"

fun relation_technique :: "relation \<Rightarrow> attack_ref option" where
  "relation_technique CanRead = Some CREDENTIAL_ACCESS"
| "relation_technique (CanDo verb resource) =
     (if verb \<in> {''get'', ''list'', ''watch''} \<and> resource = ''secrets''
      then Some CREDENTIAL_ACCESS
      else capability_technique verb resource)"
| "relation_technique (EscapesTo _) = Some ESCAPE_TO_HOST"
| "relation_technique (CanEgress _) = Some EXFILTRATION"
| "relation_technique _ = None"

section \<open>The container interface\<close>

record edge_ref =
  er_id :: nat
  er_source :: nat
  er_target :: nat
  er_weight :: edge

record 'g petgraph =
  pg_new :: 'g
  pg_add_node :: "'g \<Rightarrow> node \<Rightarrow> 'g \<times> nat"
  pg_set_weight :: "'g \<Rightarrow> nat \<Rightarrow> node \<Rightarrow> 'g"
  pg_add_edge :: "'g \<Rightarrow> nat \<Rightarrow> nat \<Rightarrow> edge \<Rightarrow> 'g"
  pg_node_indices :: "'g \<Rightarrow> nat list"
  pg_node_weight :: "'g \<Rightarrow> nat \<Rightarrow> node option"
  pg_node_weights :: "'g \<Rightarrow> node list"
  pg_edge_weight :: "'g \<Rightarrow> nat \<Rightarrow> edge option"
  pg_edges :: "'g \<Rightarrow> nat \<Rightarrow> edge_ref list"
  pg_edges_incoming :: "'g \<Rightarrow> nat \<Rightarrow> edge_ref list"
  pg_edge_references :: "'g \<Rightarrow> edge_ref list"

locale stable_graph =
  fixes P :: "'g petgraph"
  assumes indices_distinct: "distinct (pg_node_indices P g)"
    and indices_dom: "set (pg_node_indices P g) = dom (pg_node_weight P g)"
    and weights_in_order:
      "pg_node_weights P g = map (\<lambda>i. the (pg_node_weight P g i)) (pg_node_indices P g)"
    and edges_out:
      "set (pg_edges P g u) = {r \<in> set (pg_edge_references P g). er_source r = u}"
    and edges_distinct: "distinct (pg_edges P g u)"
    and edges_in:
      "set (pg_edges_incoming P g u) = {r \<in> set (pg_edge_references P g). er_target r = u}"
    and edge_ids_distinct: "distinct (map er_id (pg_edge_references P g))"
    and edge_weight_refs:
      "pg_edge_weight P g e = Some w \<longleftrightarrow>
         (\<exists>r\<in>set (pg_edge_references P g). er_id r = e \<and> er_weight r = w)"
    and edge_ends:
      "r \<in> set (pg_edge_references P g) \<Longrightarrow>
         er_source r \<in> dom (pg_node_weight P g) \<and> er_target r \<in> dom (pg_node_weight P g)"
    and new_empty: "pg_node_weight P (pg_new P) i = None"
    and add_node_fresh: "pg_add_node P g n = (g', i) \<Longrightarrow> pg_node_weight P g i = None"
    and add_node_weight:
      "pg_add_node P g n = (g', i) \<Longrightarrow> pg_node_weight P g' = (pg_node_weight P g)(i \<mapsto> n)"
    and add_node_edges:
      "pg_add_node P g n = (g', i) \<Longrightarrow> set (pg_edge_references P g') = set (pg_edge_references P g)"
    and set_weight:
      "i \<in> dom (pg_node_weight P g) \<Longrightarrow>
         pg_node_weight P (pg_set_weight P g i n) = (pg_node_weight P g)(i \<mapsto> n)"
    and set_weight_edges:
      "i \<in> dom (pg_node_weight P g) \<Longrightarrow>
         set (pg_edge_references P (pg_set_weight P g i n)) = set (pg_edge_references P g)"
    and add_edge_nodes:
      "i \<in> dom (pg_node_weight P g) \<Longrightarrow> j \<in> dom (pg_node_weight P g) \<Longrightarrow>
         pg_node_weight P (pg_add_edge P g i j w) = pg_node_weight P g"
    and add_edge_refs:
      "i \<in> dom (pg_node_weight P g) \<Longrightarrow> j \<in> dom (pg_node_weight P g) \<Longrightarrow>
         \<exists>e. set (pg_edge_references P (pg_add_edge P g i j w)) =
           insert \<lparr>er_id = e, er_source = i, er_target = j, er_weight = w\<rparr>
             (set (pg_edge_references P g))"

section \<open>SecurityGraph\<close>

record 'g security_graph =
  sg_graph :: 'g
  sg_index :: "(node_key, nat) btree"
  sg_incomplete :: bool

definition sg_new :: "'g petgraph \<Rightarrow> 'g security_graph" where
  "sg_new P = \<lparr>sg_graph = pg_new P, sg_index = [], sg_incomplete = False\<rparr>"

definition mark_reachability_incomplete :: "'g security_graph \<Rightarrow> 'g security_graph" where
  "mark_reachability_incomplete sg = sg\<lparr>sg_incomplete := True\<rparr>"

definition reachability_incomplete :: "'g security_graph \<Rightarrow> bool" where
  "reachability_incomplete sg = sg_incomplete sg"

definition upsert_node ::
  "'g petgraph \<Rightarrow> node \<Rightarrow> 'g security_graph \<Rightarrow> ('g security_graph \<times> nat) option" where
  "upsert_node P n sg =
     (case bt_get (sg_index sg) (key n) of
        Some idx \<Rightarrow>
          (case pg_node_weight P (sg_graph sg) idx of
             None \<Rightarrow> None
           | Some _ \<Rightarrow> Some (sg\<lparr>sg_graph := pg_set_weight P (sg_graph sg) idx n\<rparr>, idx))
      | None \<Rightarrow>
          (case pg_add_node P (sg_graph sg) n of
             (g', idx) \<Rightarrow>
               Some (sg\<lparr>sg_graph := g', sg_index := bt_put (key n) idx (sg_index sg)\<rparr>, idx)))"

definition ensure_node ::
  "'g petgraph \<Rightarrow> node \<Rightarrow> 'g security_graph \<Rightarrow> 'g security_graph \<times> nat" where
  "ensure_node P n sg =
     (case bt_get (sg_index sg) (key n) of
        Some idx \<Rightarrow> (sg, idx)
      | None \<Rightarrow>
          (case pg_add_node P (sg_graph sg) n of
             (g', idx) \<Rightarrow>
               (sg\<lparr>sg_graph := g', sg_index := bt_put (key n) idx (sg_index sg)\<rparr>, idx)))"

definition update_node ::
  "'g petgraph \<Rightarrow> node_key \<Rightarrow> (node \<Rightarrow> node) \<Rightarrow> 'g security_graph \<Rightarrow> 'g security_graph option" where
  "update_node P k update sg =
     (case bt_get (sg_index sg) k of
        None \<Rightarrow> Some sg
      | Some idx \<Rightarrow>
          (case pg_node_weight P (sg_graph sg) idx of
             None \<Rightarrow> None
           | Some n \<Rightarrow> Some (sg\<lparr>sg_graph := pg_set_weight P (sg_graph sg) idx (update n)\<rparr>)))"

definition index_of :: "'g security_graph \<Rightarrow> node_key \<Rightarrow> nat option" where
  "index_of sg k = bt_get (sg_index sg) k"

definition add_edge ::
  "'g petgraph \<Rightarrow> nat \<Rightarrow> nat \<Rightarrow> edge \<Rightarrow> 'g security_graph \<Rightarrow> 'g security_graph option" where
  "add_edge P s t e sg =
     (if pg_node_weight P (sg_graph sg) s = None \<or> pg_node_weight P (sg_graph sg) t = None then None
      else Some (sg\<lparr>sg_graph := pg_add_edge P (sg_graph sg) s t e\<rparr>))"

definition node_at :: "'g petgraph \<Rightarrow> 'g security_graph \<Rightarrow> nat \<Rightarrow> node option" where
  "node_at P sg idx = pg_node_weight P (sg_graph sg) idx"

definition key_of :: "'g petgraph \<Rightarrow> 'g security_graph \<Rightarrow> nat \<Rightarrow> node_key option" where
  "key_of P sg idx = map_option key (pg_node_weight P (sg_graph sg) idx)"

definition foothold_cve :: "vulnerability \<Rightarrow> bool" where
  "foothold_cve v \<longleftrightarrow> exploited_in_wild v \<or> v_severity v = Critical"

definition entry_images :: "'g petgraph \<Rightarrow> 'g security_graph \<Rightarrow> nat \<Rightarrow> image list" where
  "entry_images P sg entry =
     List.map_filter
       (\<lambda>r. if e_relation (er_weight r) = RunsImage
            then (case pg_node_weight P (sg_graph sg) (er_target r) of
                    Some (Image im) \<Rightarrow> Some im | _ \<Rightarrow> None)
            else None)
       (pg_edges P (sg_graph sg) entry)"

definition entry_evidence ::
  "'g petgraph \<Rightarrow> 'g security_graph \<Rightarrow> node_key \<Rightarrow> vulnerability list \<times> behavior list" where
  "entry_evidence P sg entry_key =
     (case index_of sg entry_key of
        None \<Rightarrow> ([], [])
      | Some entry \<Rightarrow>
          (concat (map (\<lambda>im. filter foothold_cve (vulnerabilities im)) (entry_images P sg entry)),
           (case pg_node_weight P (sg_graph sg) entry of
              Some (Workload w) \<Rightarrow> map rs_behavior (w_runtime w)
            | _ \<Rightarrow> [])))"

definition entry_findings ::
  "'g petgraph \<Rightarrow> 'g security_graph \<Rightarrow> node_key \<Rightarrow>
     scan_finding list \<times> scan_finding list \<times> scan_finding list" where
  "entry_findings P sg entry_key =
     (case index_of sg entry_key of
        None \<Rightarrow> ([], [], [])
      | Some entry \<Rightarrow>
          (case pg_node_weight P (sg_graph sg) entry of
             Some (Workload w) \<Rightarrow>
               (concat (map exposed_secrets (entry_images P sg entry)),
                misconfigs w, rbac_findings w)
           | _ \<Rightarrow> ([], [], [])))"

section \<open>The graphs the program can build\<close>

text \<open>
  \<open>graph_ok\<close>: the key index is sorted and is exactly the inverse of reading a node's key off the
  store. \<open>built\<close>: the graphs reachable through the public operations, with in-place updates that
  keep the key of the node (the enrichment adapters only write facts).
\<close>

definition graph_ok :: "'g petgraph \<Rightarrow> 'g security_graph \<Rightarrow> bool" where
  "graph_ok P sg \<longleftrightarrow>
     bt_ok (sg_index sg) \<and>
     (\<forall>k i. index_of sg k = Some i \<longleftrightarrow> key_of P sg i = Some k)"

inductive built :: "'g petgraph \<Rightarrow> 'g security_graph \<Rightarrow> bool" for P where
  built_new: "built P (sg_new P)"
| built_upsert: "built P sg \<Longrightarrow> upsert_node P n sg = Some (sg', i) \<Longrightarrow> built P sg'"
| built_ensure: "built P sg \<Longrightarrow> ensure_node P n sg = (sg', i) \<Longrightarrow> built P sg'"
| built_update:
    "built P sg \<Longrightarrow> (\<And>n. key (f n) = key n) \<Longrightarrow> update_node P k f sg = Some sg' \<Longrightarrow> built P sg'"
| built_edge: "built P sg \<Longrightarrow> add_edge P s t e sg = Some sg' \<Longrightarrow> built P sg'"
| built_mark: "built P sg \<Longrightarrow> built P (mark_reachability_incomplete sg)"

lemmas graph_op_defs = index_of_def key_of_def sg_new_def upsert_node_def ensure_node_def
  update_node_def add_edge_def mark_reachability_incomplete_def

lemma graph_ok_index:
  "graph_ok P sg \<Longrightarrow> index_of sg k = Some i \<longleftrightarrow> key_of P sg i = Some k"
  by (simp add: graph_ok_def)

lemma graph_ok_present:
  assumes "graph_ok P sg" and "index_of sg k = Some i"
  obtains n where "pg_node_weight P (sg_graph sg) i = Some n" and "key n = k"
  using assms by (auto simp: graph_ok_def key_of_def)

context stable_graph
begin

lemma edges_out_iff:
  "r \<in> set (pg_edges P g u) \<longleftrightarrow> r \<in> set (pg_edge_references P g) \<and> er_source r = u"
  by (simp add: edges_out)

lemma edge_id_unique:
  "r \<in> set (pg_edge_references P g) \<Longrightarrow> r' \<in> set (pg_edge_references P g) \<Longrightarrow>
     er_id r = er_id r' \<Longrightarrow> r = r'"
  using edge_ids_distinct by (metis inj_on_eq_iff distinct_map)

lemma edge_weight_of_ref:
  "r \<in> set (pg_edge_references P g) \<Longrightarrow> pg_edge_weight P g (er_id r) = Some (er_weight r)"
  using edge_weight_refs by blast

lemma graph_ok_insert:
  assumes ok: "graph_ok P sg" and absent: "index_of sg (key n) = None"
    and add: "pg_add_node P (sg_graph sg) n = (g', i)"
  shows "graph_ok P (sg\<lparr>sg_graph := g', sg_index := bt_put (key n) i (sg_index sg)\<rparr>)"
proof -
  have bt: "bt_ok (sg_index sg)"
    and iff: "bt_get (sg_index sg) k = Some j \<longleftrightarrow>
      map_option key (pg_node_weight P (sg_graph sg) j) = Some k" for k j
    using ok by (auto simp: graph_ok_def index_of_def key_of_def)
  have fresh: "pg_node_weight P (sg_graph sg) i = None"
    using add by (rule add_node_fresh)
  have absent': "bt_get (sg_index sg) (key n) = None"
    using absent by (simp add: index_of_def)
  have "(if k = key n then Some i else bt_get (sg_index sg) k) = Some j \<longleftrightarrow>
      map_option key (((pg_node_weight P (sg_graph sg))(i \<mapsto> n)) j) = Some k" for k j
    using iff [of k j] iff [of k i] iff [of "key n" j] fresh absent' by auto
  then show ?thesis
    using bt by (simp add: graph_ok_def index_of_def key_of_def bt_get_put add_node_weight [OF add])
qed

lemma graph_ok_set_weight:
  assumes ok: "graph_ok P sg" and old: "pg_node_weight P (sg_graph sg) i = Some m"
    and same: "key n = key m"
  shows "graph_ok P (sg\<lparr>sg_graph := pg_set_weight P (sg_graph sg) i n\<rparr>)"
proof -
  have "i \<in> dom (pg_node_weight P (sg_graph sg))" using old by blast
  then show ?thesis
    using ok old same by (auto simp: graph_ok_def index_of_def key_of_def set_weight)
qed

lemma graph_ok_upsert:
  "graph_ok P sg \<Longrightarrow> \<exists>sg' i. upsert_node P n sg = Some (sg', i) \<and> graph_ok P sg'"
proof (cases "index_of sg (key n)")
  case None
  moreover assume "graph_ok P sg"
  ultimately show ?thesis
    using graph_ok_insert
    by (cases "pg_add_node P (sg_graph sg) n") (simp add: upsert_node_def index_of_def)
next
  case (Some i)
  assume ok: "graph_ok P sg"
  with Some obtain m where "pg_node_weight P (sg_graph sg) i = Some m" "key m = key n"
    by (auto elim: graph_ok_present)
  with ok Some show ?thesis
    using graph_ok_set_weight by (simp add: upsert_node_def index_of_def)
qed

lemma graph_ok_ensure: "graph_ok P sg \<Longrightarrow> graph_ok P (fst (ensure_node P n sg))"
  using graph_ok_insert [of sg n]
  by (cases "index_of sg (key n)"; cases "pg_add_node P (sg_graph sg) n")
     (simp_all add: ensure_node_def index_of_def)

lemma graph_ok_update:
  assumes ok: "graph_ok P sg" and keeps: "\<And>n. key (f n) = key n"
  shows "\<exists>sg'. update_node P k f sg = Some sg' \<and> graph_ok P sg'"
proof (cases "index_of sg k")
  case None
  with ok show ?thesis by (simp add: update_node_def index_of_def)
next
  case (Some i)
  with ok obtain m where "pg_node_weight P (sg_graph sg) i = Some m"
    by (auto elim: graph_ok_present)
  with ok Some keeps show ?thesis
    using graph_ok_set_weight by (simp add: update_node_def index_of_def)
qed

lemma graph_ok_add_edge:
  "graph_ok P sg \<Longrightarrow> add_edge P s t e sg = Some sg' \<Longrightarrow> graph_ok P sg'"
  by (auto simp: graph_ok_def index_of_def key_of_def add_edge_def domI add_edge_nodes
      split: if_splits)

lemma built_graph_ok: "built P sg \<Longrightarrow> graph_ok P sg"
proof (induction rule: built.induct)
  case built_new
  then show ?case
    by (simp add: graph_ok_def graph_op_defs new_empty bt_get_def)
next
  case (built_upsert sg n sg' i)
  then show ?case using graph_ok_upsert [of sg n] by auto
next
  case (built_ensure sg n sg' i)
  then show ?case using graph_ok_ensure [of sg n] by simp
next
  case (built_update sg f k sg')
  then show ?case using graph_ok_update [of sg f k] by auto
next
  case (built_edge sg s t e sg')
  then show ?case using graph_ok_add_edge by blast
next
  case (built_mark sg)
  then show ?case
    by (simp add: graph_ok_def index_of_def key_of_def mark_reachability_incomplete_def)
qed

end

section \<open>Node keys identify objects\<close>

text \<open>
  \<open>node_ident\<close> is the identity a key stands for; \<open>slash_free\<close> says that the components before
  the last one contain no \<open>/\<close>, which Kubernetes guarantees of namespaces, kinds and verbs.
\<close>

fun node_ident :: "node \<Rightarrow> string \<times> string list" where
  "node_ident (Workload w) = (''workload'', [w_namespace w, w_kind w, w_name w])"
| "node_ident (Identity i) = (''identity'', [i_namespace i, i_name i])"
| "node_ident (Secret s) = (''secret'', [s_namespace s, s_name s])"
| "node_ident (Endpoint e) = (''endpoint'', [e_address e])"
| "node_ident (Image im) = (''image'', [im_digest im])"
| "node_ident (Host h) = (''host'', [h_name h])"
| "node_ident (Capability c) = (''capability'', [scope_label (c_scope c), c_verb c, c_resource c])"

definition slash_free :: "node \<Rightarrow> bool" where
  "slash_free n \<longleftrightarrow> (\<forall>part\<in>set (butlast (snd (node_ident n))). CHR ''/'' \<notin> set part)"

lemma key_join: "key n = join ''/'' (fst (node_ident n) # snd (node_ident n))"
  by (cases n) (simp_all add: workload_key_def image_key_def)

lemma key_kind_of: "kind_of (key n) = fst (node_ident n)"
  by (cases n) (simp_all add: kind_of_def hd_split_on workload_key_def image_key_def)

lemma append_slash_inj:
  "CHR ''/'' \<notin> set a \<Longrightarrow> CHR ''/'' \<notin> set a' \<Longrightarrow>
     a @ CHR ''/'' # b = a' @ CHR ''/'' # b' \<Longrightarrow> a = a' \<and> b = b'"
  using split_once_append by (metis option.inject prod.inject)

lemma join_slash_inj:
  assumes "\<forall>p\<in>set (butlast xs). CHR ''/'' \<notin> set p" and "\<forall>p\<in>set (butlast ys). CHR ''/'' \<notin> set p"
    and "length xs = length ys" and "join ''/'' xs = join ''/'' ys"
  shows "xs = ys"
  using assms(3,1,2,4)
proof (induction xs ys rule: list_induct2)
  case Nil
  then show ?case by simp
next
  case (Cons x xs y ys)
  show ?case
  proof (cases "xs = []")
    case True
    with Cons show ?thesis by auto
  next
    case False
    with Cons.hyps have "ys \<noteq> []" by auto
    with False Cons have "x = y \<and> join ''/'' xs = join ''/'' ys"
      by (intro append_slash_inj) (auto simp: join_Cons)
    with Cons False \<open>ys \<noteq> []\<close> show ?thesis by auto
  qed
qed

lemma node_ident_arity:
  "fst (node_ident m) = fst (node_ident n) \<Longrightarrow>
     length (snd (node_ident m)) = length (snd (node_ident n))"
  by (cases m; cases n) simp_all

lemma node_ident_kind_plain: "CHR ''/'' \<notin> set (fst (node_ident n)) \<and> snd (node_ident n) \<noteq> []"
  by (cases n) simp_all

text \<open>
  Node keys identify objects: when namespaces, kinds and verbs contain no slash, two nodes with
  equal keys are the same kind of object with the same namespace, kind and name. The index can
  therefore never merge two different cluster objects into one node.
\<close>

theorem key_identifies_node:
  assumes "slash_free m" and "slash_free n" and "key m = key n"
  shows "node_ident m = node_ident n"
proof -
  from assms(3) have kind: "fst (node_ident m) = fst (node_ident n)"
    by (metis key_kind_of)
  have "fst (node_ident m) # snd (node_ident m) = fst (node_ident n) # snd (node_ident n)"
    using assms kind node_ident_arity [OF kind] node_ident_kind_plain [of m]
      node_ident_kind_plain [of n]
    by (intro join_slash_inj) (auto simp: slash_free_def key_join)
  then show ?thesis by (simp add: prod_eq_iff)
qed

theorem key_identifies_node_witness:
  "slash_free (Secret \<lparr>s_namespace = ''app'', s_name = ''db''\<rparr>) \<and>
   node_ident (Secret \<lparr>s_namespace = ''app'', s_name = ''db''\<rparr>) = (''secret'', [''app'', ''db''])"
proof -
  have "slash_free (Secret \<lparr>s_namespace = ''app'', s_name = ''db''\<rparr>)"
    by (simp add: slash_free_def)
  then show ?thesis
    using key_identifies_node [of "Secret \<lparr>s_namespace = ''app'', s_name = ''db''\<rparr>"
        "Secret \<lparr>s_namespace = ''app'', s_name = ''db''\<rparr>"]
    by simp
qed

text \<open>
  The key parsers invert the key of a workload: for slash-free components the kind, the
  namespace, the name and the short form read back exactly what the key was built from.
\<close>

theorem workload_key_roundtrip:
  assumes "CHR ''/'' \<notin> set ns" and "CHR ''/'' \<notin> set kind" and "CHR ''/'' \<notin> set name"
  shows "kind_of (workload_key ns kind name) = ''workload'' \<and>
    key_namespace (workload_key ns kind name) = Some ns \<and>
    key_name (workload_key ns kind name) = Some name \<and>
    short_of (workload_key ns kind name) = ns @ ''/'' @ kind @ ''/'' @ name"
proof -
  have "split_on (CHR ''/'') (workload_key ns kind name) = [''workload'', ns, kind, name]"
    using assms split_on_append [of "CHR ''/''" ns "kind @ CHR ''/'' # name"]
      split_on_append [of "CHR ''/''" kind name]
    by (simp add: workload_key_def)
  moreover have "short_of (workload_key ns kind name) = ns @ ''/'' @ kind @ ''/'' @ name"
    by (simp add: short_of_def workload_key_def)
  ultimately show ?thesis
    by (simp add: kind_of_def key_namespace_def key_name_def Let_def)
qed

theorem workload_key_roundtrip_witness:
  "key_namespace (workload_key ''app'' ''Pod'' ''web'') = Some ''app'' \<and>
   key_name (workload_key ''app'' ''Pod'' ''web'') = Some ''web''"
  using workload_key_roundtrip [of "''app''" "''Pod''" "''web''"] by simp

end
