(* ===== verification/Classify.thy ===== *)
theory Classify
  imports Behavior
begin

text \<open>
  The engine-side behavior classifiers: notable execs (\<open>observe/exec_class.rs\<close>), alarming file
  writes and the shared alarming-now predicate (\<open>observe/alarm_class.rs\<close>), and foothold and
  cross-tenant peers (\<open>observe/peer_class.rs\<close>). The ASN attribution of internet peers reads an
  offline dataset and is not modelled.
\<close>

section \<open>exec\_class\<close>

definition INTERACTIVE_SHELLS :: "string list" where
  "INTERACTIVE_SHELLS = [''sh'', ''bash'', ''zsh'', ''ash'', ''dash'']"

definition PACKAGE_MANAGERS :: "string list" where
  "PACKAGE_MANAGERS =
     [''apt'', ''apt-get'', ''apk'', ''yum'', ''dnf'', ''pip'', ''pip3'', ''gem'', ''npm'']"

fun is_interactive_shell :: "behavior \<Rightarrow> bool" where
  "is_interactive_shell (ProcessExec path _) = (basename path \<in> set INTERACTIVE_SHELLS)"
| "is_interactive_shell _ = False"

fun is_package_manager :: "behavior \<Rightarrow> bool" where
  "is_package_manager (ProcessExec path _) = (basename path \<in> set PACKAGE_MANAGERS)"
| "is_package_manager _ = False"

definition notable_exec :: "behavior \<Rightarrow> string option" where
  "notable_exec b =
     (if is_interactive_shell b then Some ''interactive shell in container''
      else if is_package_manager b then Some ''package manager in container''
      else None)"

definition annotated_summary :: "behavior \<Rightarrow> string" where
  "annotated_summary b =
     (case notable_exec b of
        Some label \<Rightarrow> summary b @ '' ('' @ label @ '')''
      | None \<Rightarrow> summary b)"

section \<open>alarm\_class\<close>

definition SENSITIVE_DIRS :: "string list" where
  "SENSITIVE_DIRS =
     [''/etc'', ''/bin'', ''/sbin'', ''/usr/bin'', ''/usr/sbin'', ''/usr/local/bin'',
      ''/usr/local/sbin'', ''/lib'', ''/lib32'', ''/lib64'', ''/libx32'', ''/usr/lib'',
      ''/usr/lib32'', ''/usr/lib64'', ''/usr/libx32'', ''/usr/local/lib'', ''/usr/local/lib64'']"

definition under :: "string \<Rightarrow> string \<Rightarrow> bool" where
  "under path dir \<longleftrightarrow>
     path = dir \<or>
     (case strip_prefix path dir of Some rest \<Rightarrow> starts_with rest ''/'' | None \<Rightarrow> False)"

definition is_cron_path :: "string \<Rightarrow> bool" where
  "is_cron_path path \<longleftrightarrow> starts_with path ''/etc/cron'' \<or> under path ''/var/spool/cron''"

definition is_service_account_path :: "string \<Rightarrow> bool" where
  "is_service_account_path path \<longleftrightarrow>
     under path ''/var/run/secrets/kubernetes.io'' \<or> under path ''/run/secrets/kubernetes.io''"

definition is_ssh_key_path :: "string \<Rightarrow> bool" where
  "is_ssh_key_path path \<longleftrightarrow>
     basename path = ''authorized_keys'' \<or>
     list_ex (\<lambda>seg. seg = ''.ssh'') (split_on (CHR ''/'') path)"

fun alarming_write :: "behavior \<Rightarrow> string option" where
  "alarming_write (FileWrite path) =
     (if is_cron_path path then Some ''drift write to a cron path (persistence)''
      else if is_service_account_path path
      then Some ''drift write to a service-account token path (credential tamper)''
      else if is_ssh_key_path path then Some ''drift write to an SSH key path (persistence)''
      else if list_ex (under path) SENSITIVE_DIRS
      then Some ''drift write to a sensitive system path (drop-and-execute / config tamper)''
      else None)"
| "alarming_write _ = None"

definition is_alarming_now :: "behavior \<Rightarrow> bool" where
  "is_alarming_now b \<longleftrightarrow>
     is_alert b \<or> notable_exec b \<noteq> None \<or> alarming_write b \<noteq> None"

section \<open>peer\_class\<close>

definition CLOUD_METADATA_IPS :: "string list" where
  "CLOUD_METADATA_IPS = [''169.254.169.254'', ''fd00:ec2::254'']"

definition API_SERVER_LABEL :: string where
  "API_SERVER_LABEL = ''default/kubernetes''"

definition nonempty :: "string \<Rightarrow> string option" where
  "nonempty s = (if s = [] then None else Some s)"

definition raw_peer_host :: "string \<Rightarrow> string option" where
  "raw_peer_host peer =
     (case strip_prefix peer ''['' of
        Some rest \<Rightarrow>
          (case split_once (CHR '']'') rest of
             Some (addr, _) \<Rightarrow> nonempty addr
           | None \<Rightarrow> None)
      | None \<Rightarrow>
          (if CHR ''/'' \<in> set peer then None
           else (case rsplit_once (CHR '':'') peer of
                   Some (ip, _) \<Rightarrow> nonempty ip
                 | None \<Rightarrow> None)))"

definition is_cloud_metadata :: "string \<Rightarrow> bool" where
  "is_cloud_metadata peer \<longleftrightarrow>
     (case raw_peer_host peer of Some ip \<Rightarrow> ip \<in> set CLOUD_METADATA_IPS | None \<Rightarrow> False)"

definition is_api_server :: "string \<Rightarrow> bool" where
  "is_api_server peer \<longleftrightarrow> hd (split_on (CHR '':'') peer) = API_SERVER_LABEL"

fun foothold_peer :: "behavior \<Rightarrow> string option" where
  "foothold_peer (NetworkConnection peer _) =
     (if is_cloud_metadata peer then Some ''cloud instance-metadata (IMDS) endpoint''
      else if is_api_server peer then Some ''Kubernetes API server''
      else None)"
| "foothold_peer _ = None"

definition resolved_peer_namespace :: "string \<Rightarrow> string option" where
  "resolved_peer_namespace peer =
     (case split_once (CHR ''/'') (hd (split_on (CHR '':'') peer)) of
        Some (ns, _) \<Rightarrow> nonempty ns
      | None \<Rightarrow> None)"

definition is_cross_tenant :: "string \<Rightarrow> string \<Rightarrow> bool" where
  "is_cross_tenant source_ns peer \<longleftrightarrow>
     (case resolved_peer_namespace peer of Some ns \<Rightarrow> ns \<noteq> source_ns | None \<Rightarrow> False)"

section \<open>Lemmas\<close>

lemma under_iff: "under path dir \<longleftrightarrow> path = dir \<or> (\<exists>rest. path = dir @ CHR ''/'' # rest)"
proof -
  have "(case strip_prefix path dir of Some rest \<Rightarrow> starts_with rest ''/'' | None \<Rightarrow> False) \<longleftrightarrow>
        (\<exists>r. strip_prefix path dir = Some r \<and> starts_with r ''/'')"
    by (auto split: option.splits)
  then show ?thesis
    by (auto simp: under_def strip_prefix_iff starts_with_iff)
qed

text \<open>
  The string-level test is the segment-level one: \<open>path\<close> is at or below \<open>dir\<close> exactly when
  the segments of \<open>dir\<close> are the first segments of \<open>path\<close>.
\<close>

lemma under_segments:
  "under path dir \<longleftrightarrow>
     (\<exists>rest. split_on (CHR ''/'') path = split_on (CHR ''/'') dir @ rest)"
proof
  assume "under path dir"
  then show "\<exists>rest. split_on (CHR ''/'') path = split_on (CHR ''/'') dir @ rest"
    by (auto simp: under_iff split_on_append)
next
  assume "\<exists>rest. split_on (CHR ''/'') path = split_on (CHR ''/'') dir @ rest"
  then obtain rest where r: "split_on (CHR ''/'') path = split_on (CHR ''/'') dir @ rest" ..
  have path: "path = join ''/'' (split_on (CHR ''/'') dir @ rest)"
    using join_split_on [of "CHR ''/''" path] r by simp
  show "under path dir"
  proof (cases "rest = []")
    case True
    with path show ?thesis by (simp add: under_iff join_split_on)
  next
    case False
    with path show ?thesis by (simp add: under_iff join_append join_split_on)
  qed
qed

lemma alarming_write_iff:
  "alarming_write (FileWrite path) \<noteq> None \<longleftrightarrow>
     is_cron_path path \<or> is_service_account_path path \<or> is_ssh_key_path path \<or>
     (\<exists>d\<in>set SENSITIVE_DIRS. under path d)"
  by (auto simp: list_ex_iff)

lemma is_alarming_now_cases:
  "is_alarming_now b \<longleftrightarrow>
     (\<exists>rule. b = Alert rule) \<or>
     (\<exists>path anon. b = ProcessExec path anon \<and>
        basename path \<in> set INTERACTIVE_SHELLS \<union> set PACKAGE_MANAGERS) \<or>
     (\<exists>path. b = FileWrite path \<and> alarming_write b \<noteq> None)"
  by (cases b) (auto simp: is_alarming_now_def notable_exec_def)

lemma nonempty_Some [simp]: "nonempty s = Some t \<longleftrightarrow> s = t \<and> t \<noteq> []"
  by (auto simp: nonempty_def)

lemma resolved_peer_namespace_Some:
  "resolved_peer_namespace peer = Some ns \<longleftrightarrow>
     ns \<noteq> [] \<and> (\<exists>name. takeWhile (\<lambda>c. c \<noteq> CHR '':'') peer = ns @ CHR ''/'' # name \<and>
       CHR ''/'' \<notin> set ns)"
  by (auto simp: resolved_peer_namespace_def hd_split_on split_once_append
      dest: split_once_Some split: option.splits)

text \<open>
  The sensitive-directory test of file writes is segment-aligned: a write is alarming exactly
  when it lands on a cron path, a service-account token path or an SSH key path, or when the path
  segments of one of the sensitive directories are the leading segments of the written path. A
  sibling directory such as \<open>/etcd\<close> never matches \<open>/etc\<close>.
\<close>

theorem alarming_write_is_segment_aligned:
  "alarming_write (FileWrite path) \<noteq> None \<longleftrightarrow>
     is_cron_path path \<or> is_service_account_path path \<or> is_ssh_key_path path \<or>
     (\<exists>d\<in>set SENSITIVE_DIRS. \<exists>rest.
        split_on (CHR ''/'') path = split_on (CHR ''/'') d @ rest)"
  by (simp only: alarming_write_iff under_segments)

text \<open>
  A connection is cross-tenant exactly when the part of the peer before its first colon is a
  resolved label \<open>namespace/name\<close> with a non-empty namespace other than the source namespace; a
  bare \<open>IP:port\<close> peer, or one in the source's own namespace, never is.
\<close>

theorem is_cross_tenant_iff:
  "is_cross_tenant src peer \<longleftrightarrow>
     (\<exists>ns name. takeWhile (\<lambda>c. c \<noteq> CHR '':'') peer = ns @ CHR ''/'' # name \<and>
        CHR ''/'' \<notin> set ns \<and> ns \<noteq> [] \<and> ns \<noteq> src)"
proof -
  have "is_cross_tenant src peer \<longleftrightarrow>
      (\<exists>ns. resolved_peer_namespace peer = Some ns \<and> ns \<noteq> src)"
    by (auto simp: is_cross_tenant_def split: option.splits)
  then show ?thesis
    unfolding resolved_peer_namespace_Some by blast
qed

end
