(* ===== verification/Walk.thy ===== *)
theory Walk
  imports Graph Classify
begin

text \<open>
  The deterministic movement walk (\<open>engine/src/engine/reason/proof/chain.rs\<close>): movement edges, the
  compromise gate, the breadth-first \<open>movement_tree\<close> with an optional excluded edge, and the
  reconstruction of a path from it. The two loops are \<open>partial_function\<close>s: \<open>None\<close> means that
  the loop does not end or that the code panics. The lemmas show that on a container satisfying
  \<open>stable_graph\<close> the tree holds exactly the nodes the compromise-gated relation \<open>moves\<close>
  reaches, and that the reconstructed path is a shortest gated path.
\<close>

section \<open>Definitions\<close>

definition is_movement :: "relation \<Rightarrow> bool" where
  "is_movement r \<longleftrightarrow> r \<noteq> RunsImage \<and> r \<noteq> ScheduledOn"

definition compromisable :: "'g petgraph \<Rightarrow> 'g security_graph \<Rightarrow> nat \<Rightarrow> bool" where
  "compromisable P sg u \<longleftrightarrow>
     list_ex (\<lambda>r. e_relation (er_weight r) = RunsImage \<and>
        (case pg_node_weight P (sg_graph sg) (er_target r) of
           Some (Image im) \<Rightarrow>
             list_ex (\<lambda>v. exploited_in_wild v \<or> v_severity v = Critical) (vulnerabilities im)
         | _ \<Rightarrow> False))
       (pg_edges P (sg_graph sg) u)"

definition entry_exposed :: "'g petgraph \<Rightarrow> 'g security_graph \<Rightarrow> nat \<Rightarrow> bool" where
  "entry_exposed P sg entry \<longleftrightarrow>
     (case pg_node_weight P (sg_graph sg) entry of
        Some (Workload w) \<Rightarrow> w_exposure w = Internet
      | _ \<Rightarrow> False)"

definition entry_foothold :: "'g petgraph \<Rightarrow> 'g security_graph \<Rightarrow> nat \<Rightarrow> attack_ref option" where
  "entry_foothold P sg entry =
     (let exposed = (case pg_node_weight P (sg_graph sg) entry of
                       Some (Workload w) \<Rightarrow> w_exposure w = Internet
                     | _ \<Rightarrow> False)
      in if exposed \<and> compromisable P sg entry then Some EXPLOIT_PUBLIC_FACING else None)"

text \<open>
  The compromise gate of the walk: a workload other than the start that is not compromisable is
  never expanded.
\<close>

definition blocked :: "'g petgraph \<Rightarrow> 'g security_graph \<Rightarrow> nat \<Rightarrow> nat \<Rightarrow> bool" where
  "blocked P sg start u \<longleftrightarrow>
     (case pg_node_weight P (sg_graph sg) u of Some (Workload _) \<Rightarrow> True | _ \<Rightarrow> False) \<and>
     u \<noteq> start \<and> \<not> compromisable P sg u"

type_synonym came_from = "nat \<rightharpoonup> nat \<times> nat"

definition relax_edge ::
  "nat option \<Rightarrow> nat \<Rightarrow> edge_ref \<Rightarrow> came_from \<times> nat set \<times> nat list \<Rightarrow> came_from \<times> nat set \<times> nat list"
  where
  "relax_edge excluded u r st =
     (case st of (came, seen, queue) \<Rightarrow>
        if Some (er_id r) = excluded then st
        else if \<not> is_movement (e_relation (er_weight r)) then st
        else if er_target r \<in> seen then st
        else (came(er_target r \<mapsto> (u, er_id r)), insert (er_target r) seen,
              queue @ [er_target r]))"

partial_function (option) movement_loop ::
  "'g petgraph \<Rightarrow> 'g security_graph \<Rightarrow> nat \<Rightarrow> nat option \<Rightarrow> came_from \<Rightarrow> nat set \<Rightarrow> nat list \<Rightarrow>
     came_from option" where
  "movement_loop P sg start excluded came seen queue =
     (case queue of
        [] \<Rightarrow> Some came
      | u # q \<Rightarrow>
          (if blocked P sg start u then movement_loop P sg start excluded came seen q
           else (case fold (relax_edge excluded u) (pg_edges P (sg_graph sg) u) (came, seen, q) of
                   (came', seen', q') \<Rightarrow> movement_loop P sg start excluded came' seen' q')))"

declare movement_loop.simps [code]

definition movement_tree ::
  "'g petgraph \<Rightarrow> 'g security_graph \<Rightarrow> nat \<Rightarrow> nat option \<Rightarrow> came_from option" where
  "movement_tree P sg start excluded =
     movement_loop P sg start excluded Map.empty {start} [start]"

definition is_cuttable_edge :: "'g petgraph \<Rightarrow> 'g security_graph \<Rightarrow> nat \<Rightarrow> bool" where
  "is_cuttable_edge P sg e \<longleftrightarrow>
     (case pg_edge_weight P (sg_graph sg) e of
        Some w \<Rightarrow> \<not> is_structural (e_relation w)
      | None \<Rightarrow> False)"

definition reachable_without ::
  "'g petgraph \<Rightarrow> 'g security_graph \<Rightarrow> nat \<Rightarrow> nat \<Rightarrow> nat \<Rightarrow> bool option" where
  "reachable_without P sg start target excluded =
     map_option (\<lambda>came. came target \<noteq> None) (movement_tree P sg start (Some excluded))"

type_synonym path_steps = "(nat \<times> nat \<times> nat) list"

partial_function (option) path_back ::
  "came_from \<Rightarrow> nat \<Rightarrow> nat \<Rightarrow> path_steps \<Rightarrow> path_steps option" where
  "path_back came entry cur steps =
     (if cur = entry then Some steps
      else (case came cur of
              None \<Rightarrow> None
            | Some (prev, e) \<Rightarrow> path_back came entry prev (steps @ [(prev, cur, e)])))"

declare path_back.simps [code]

definition path_steps :: "came_from \<Rightarrow> nat \<Rightarrow> nat \<Rightarrow> path_steps option" where
  "path_steps came entry target = map_option rev (path_back came entry target [])"

section \<open>The specification of the walk\<close>

definition eligible :: "nat option \<Rightarrow> edge_ref \<Rightarrow> bool" where
  "eligible excluded r \<longleftrightarrow>
     excluded \<noteq> Some (er_id r) \<and> is_movement (e_relation (er_weight r))"

inductive moves ::
  "'g petgraph \<Rightarrow> 'g security_graph \<Rightarrow> nat \<Rightarrow> nat option \<Rightarrow> nat \<Rightarrow> bool"
  for P sg start excluded where
  moves_start: "moves P sg start excluded start"
| moves_step:
    "moves P sg start excluded u \<Longrightarrow> \<not> blocked P sg start u \<Longrightarrow>
     r \<in> set (pg_edges P (sg_graph sg) u) \<Longrightarrow> eligible excluded r \<Longrightarrow>
     moves P sg start excluded (er_target r)"

text \<open>
  The same relation spelled out on the graph, without the predicates of the code: a step leaves the entry,
  a node that is no workload, or a workload that runs an image with a critical vulnerability or one
  exploited in the wild, along any edge but image and scheduling edges.
\<close>

inductive attacker_reaches ::
  "'g petgraph \<Rightarrow> 'g security_graph \<Rightarrow> nat \<Rightarrow> nat option \<Rightarrow> nat \<Rightarrow> bool"
  for P sg start excluded where
  reaches_start: "attacker_reaches P sg start excluded start"
| reaches_step:
    "attacker_reaches P sg start excluded u \<Longrightarrow>
     u = start \<or> (\<nexists>w. pg_node_weight P (sg_graph sg) u = Some (Workload w)) \<or>
       (\<exists>i\<in>set (pg_edges P (sg_graph sg) u). \<exists>im. \<exists>v\<in>set (vulnerabilities im).
          e_relation (er_weight i) = RunsImage \<and> pg_node_weight P (sg_graph sg) (er_target i) = Some (Image im) \<and>
          (exploited_in_wild v \<or> v_severity v = Critical)) \<Longrightarrow>
     r \<in> set (pg_edges P (sg_graph sg) u) \<Longrightarrow> Some (er_id r) \<noteq> excluded \<Longrightarrow>
     e_relation (er_weight r) \<noteq> RunsImage \<Longrightarrow> e_relation (er_weight r) \<noteq> ScheduledOn \<Longrightarrow>
     attacker_reaches P sg start excluded (er_target r)"

lemma compromisable_iff:
  "compromisable P sg u \<longleftrightarrow>
     (\<exists>i\<in>set (pg_edges P (sg_graph sg) u). \<exists>im. \<exists>v\<in>set (vulnerabilities im).
        e_relation (er_weight i) = RunsImage \<and> pg_node_weight P (sg_graph sg) (er_target i) = Some (Image im) \<and>
        (exploited_in_wild v \<or> v_severity v = Critical))"
proof -
  have "(case w of Some (Image im) \<Rightarrow> list_ex (\<lambda>v. exploited_in_wild v \<or> v_severity v = Critical) (vulnerabilities im)
         | _ \<Rightarrow> False) \<longleftrightarrow>
      (\<exists>im. w = Some (Image im) \<and> (\<exists>v\<in>set (vulnerabilities im). exploited_in_wild v \<or> v_severity v = Critical))" for w
    by (simp add: list_ex_iff split: option.split node.split)
  then show ?thesis unfolding compromisable_def list_ex_iff by blast
qed

lemma blocked_iff:
  "\<not> blocked P sg start u \<longleftrightarrow>
     u = start \<or> (\<nexists>w. pg_node_weight P (sg_graph sg) u = Some (Workload w)) \<or> compromisable P sg u"
  by (auto simp: blocked_def split: option.splits node.splits)

lemma attacker_reaches_moves: "attacker_reaches P sg start excluded v \<longleftrightarrow> moves P sg start excluded v"
proof
  show "moves P sg start excluded v" if "attacker_reaches P sg start excluded v"
    using that
  proof induction
    case reaches_start
    show ?case by (rule moves_start)
  next
    case (reaches_step u r)
    from reaches_step.hyps(2) have "\<not> blocked P sg start u" unfolding blocked_iff compromisable_iff .
    moreover have "eligible excluded r"
      using reaches_step.hyps(4-6) by (simp add: eligible_def is_movement_def eq_commute)
    ultimately show ?case by (rule moves_step [OF reaches_step.IH _ reaches_step.hyps(3)])
  qed
  show "attacker_reaches P sg start excluded v" if "moves P sg start excluded v"
    using that
  proof induction
    case moves_start
    show ?case by (rule reaches_start)
  next
    case (moves_step u r)
    have "Some (er_id r) \<noteq> excluded" "e_relation (er_weight r) \<noteq> RunsImage" "e_relation (er_weight r) \<noteq> ScheduledOn"
      using moves_step.hyps(4) by (auto simp: eligible_def is_movement_def)
    then show ?case
      by (rule reaches_step [OF moves_step.IH moves_step.hyps(2) [unfolded blocked_iff compromisable_iff] moves_step.hyps(3)])
  qed
qed

text \<open>
  \<open>gated_path P sg start excluded u s v\<close>: the steps \<open>s\<close> lead from \<open>u\<close> to \<open>v\<close> along
  eligible edges, and no node that is left along the way is blocked.
\<close>

fun gated_path ::
  "'g petgraph \<Rightarrow> 'g security_graph \<Rightarrow> nat \<Rightarrow> nat option \<Rightarrow> nat \<Rightarrow> path_steps \<Rightarrow> nat \<Rightarrow> bool" where
  "gated_path P sg start excluded u [] v \<longleftrightarrow> u = v"
| "gated_path P sg start excluded u ((a, b, e) # s) v \<longleftrightarrow>
     a = u \<and> \<not> blocked P sg start u \<and>
     (\<exists>r\<in>set (pg_edges P (sg_graph sg) u). er_id r = e \<and> er_target r = b \<and> eligible excluded r) \<and>
     gated_path P sg start excluded b s v"

definition targets :: "path_steps \<Rightarrow> nat list" where
  "targets p = map (\<lambda>(a, b, e). b) p"

lemma targets_simps [simp]: "targets [] = []" "targets ((a, b, e) # p) = b # targets p"
  by (simp_all add: targets_def)

lemma targets_append [simp]: "targets (p @ q) = targets p @ targets q"
  by (simp add: targets_def)

lemma gated_path_append:
  "gated_path P sg start ex u (s @ t) v \<longleftrightarrow>
     (\<exists>m. gated_path P sg start ex u s m \<and> gated_path P sg start ex m t v)"
  by (induction s arbitrary: u) auto

lemma moves_gated_path:
  "moves P sg start ex v \<longleftrightarrow> (\<exists>s. gated_path P sg start ex start s v)"
proof
  assume "moves P sg start ex v"
  then show "\<exists>s. gated_path P sg start ex start s v"
  proof induction
    case moves_start
    have "gated_path P sg start ex start [] start" by simp
    then show ?case ..
  next
    case (moves_step u r)
    then obtain s where s: "gated_path P sg start ex start s u" by blast
    have "gated_path P sg start ex u [(u, er_target r, er_id r)] (er_target r)"
      using moves_step by auto
    with s have "gated_path P sg start ex start (s @ [(u, er_target r, er_id r)]) (er_target r)"
      unfolding gated_path_append by blast
    then show ?case by blast
  qed
next
  have "moves P sg start ex u \<Longrightarrow> gated_path P sg start ex u s v \<Longrightarrow> moves P sg start ex v" for u s
  proof (induction s arbitrary: u)
    case (Cons p s)
    obtain a b e where p: "p = (a, b, e)" by (cases p)
    from Cons.prems p obtain r where "\<not> blocked P sg start u"
      "r \<in> set (pg_edges P (sg_graph sg) u)" "er_target r = b" "eligible ex r"
      "gated_path P sg start ex b s v" by auto
    then show ?case using Cons.IH [of b] moves_step [OF Cons.prems(1)] by auto
  qed simp
  then show "\<exists>s. gated_path P sg start ex start s v \<Longrightarrow> moves P sg start ex v"
    using moves_start by metis
qed

section \<open>One expansion\<close>

lemma relax_edge_eq:
  "relax_edge ex u r (came, seen, q) =
     (if eligible ex r \<and> er_target r \<notin> seen
      then (came(er_target r \<mapsto> (u, er_id r)), insert (er_target r) seen, q @ [er_target r])
      else (came, seen, q))"
  by (auto simp: relax_edge_def eligible_def)

lemma relax_all:
  assumes "fold (relax_edge ex u) rs (came, seen, q) = (came', seen', q')"
  shows "seen' = seen \<union> er_target ` {r \<in> set rs. eligible ex r} \<and>
    (\<exists>new. q' = q @ new \<and> distinct new \<and> set new = seen' - seen) \<and>
    (\<forall>v\<in>seen' - seen. \<exists>r\<in>set rs. eligible ex r \<and> er_target r = v \<and> came' v = Some (u, er_id r)) \<and>
    (\<forall>v. v \<notin> seen' - seen \<longrightarrow> came' v = came v)"
  using assms
proof (induction rs arbitrary: came seen q)
  case Nil
  then show ?case by auto
next
  case (Cons r rs)
  show ?case
  proof (cases "eligible ex r \<and> er_target r \<notin> seen")
    case False
    with Cons.prems have "fold (relax_edge ex u) rs (came, seen, q) = (came', seen', q')"
      by (simp add: relax_edge_eq)
    from Cons.IH [OF this] False show ?thesis by (auto simp: image_iff)
  next
    case True
    let ?t = "er_target r"
    from True Cons.prems have
      "fold (relax_edge ex u) rs (came(?t \<mapsto> (u, er_id r)), insert ?t seen, q @ [?t]) = (came', seen', q')"
      by (simp add: relax_edge_eq)
    from Cons.IH [OF this] obtain new where IH:
      "seen' = insert ?t seen \<union> er_target ` {r \<in> set rs. eligible ex r}"
      "q' = (q @ [?t]) @ new" "distinct new" "set new = seen' - insert ?t seen"
      "\<forall>v\<in>seen' - insert ?t seen. \<exists>r\<in>set rs. eligible ex r \<and> er_target r = v \<and> came' v = Some (u, er_id r)"
      "\<forall>v. v \<notin> seen' - insert ?t seen \<longrightarrow> came' v = (came(?t \<mapsto> (u, er_id r))) v"
      by blast
    have q: "q' = q @ (?t # new) \<and> distinct (?t # new) \<and> set (?t # new) = seen' - seen"
      using IH True by auto
    have tree: "\<forall>v\<in>seen' - seen. \<exists>r'\<in>set (r # rs).
        eligible ex r' \<and> er_target r' = v \<and> came' v = Some (u, er_id r')"
    proof
      fix v assume v: "v \<in> seen' - seen"
      show "\<exists>r'\<in>set (r # rs). eligible ex r' \<and> er_target r' = v \<and> came' v = Some (u, er_id r')"
      proof (cases "v = ?t")
        case True
        then show ?thesis using IH(6) \<open>eligible ex r \<and> ?t \<notin> seen\<close> by auto
      next
        case False
        then show ?thesis using IH(5) v by auto
      qed
    qed
    have "\<forall>v. v \<notin> seen' - seen \<longrightarrow> came' v = came v"
      using IH(1,6) True by auto
    moreover have "seen' = seen \<union> er_target ` {r' \<in> set (r # rs). eligible ex r'}"
      using IH(1) True by auto
    ultimately show ?thesis using q tree by blast
  qed
qed

section \<open>The breadth-first invariant\<close>

text \<open>
  \<open>bfs_inv P sg start ex d D came seen queue\<close>: \<open>d\<close> is the depth of every seen node and \<open>D\<close>
  the set of nodes already taken from the queue.
\<close>

definition tree_ok ::
  "'g petgraph \<Rightarrow> 'g security_graph \<Rightarrow> nat \<Rightarrow> nat option \<Rightarrow> (nat \<Rightarrow> nat) \<Rightarrow> nat set \<Rightarrow> came_from \<Rightarrow> bool"
  where
  "tree_ok P sg start ex d D came \<longleftrightarrow>
     d start = 0 \<and> came start = None \<and>
     (\<forall>v u e. came v = Some (u, e) \<longrightarrow>
        u \<in> D \<and> (u = start \<or> u \<in> dom came) \<and> d v = Suc (d u) \<and> \<not> blocked P sg start u \<and>
        (\<exists>r\<in>set (pg_edges P (sg_graph sg) u). er_id r = e \<and> er_target r = v \<and> eligible ex r))"

definition closed_on ::
  "'g petgraph \<Rightarrow> 'g security_graph \<Rightarrow> nat \<Rightarrow> nat option \<Rightarrow> (nat \<Rightarrow> nat) \<Rightarrow> nat set \<Rightarrow> nat set \<Rightarrow> bool"
  where
  "closed_on P sg start ex d D seen \<longleftrightarrow>
     (\<forall>u\<in>D. \<not> blocked P sg start u \<longrightarrow>
        (\<forall>r\<in>set (pg_edges P (sg_graph sg) u). eligible ex r \<longrightarrow>
           er_target r \<in> seen \<and> d (er_target r) \<le> Suc (d u)))"

definition bfs_inv ::
  "'g petgraph \<Rightarrow> 'g security_graph \<Rightarrow> nat \<Rightarrow> nat option \<Rightarrow> (nat \<Rightarrow> nat) \<Rightarrow> nat set \<Rightarrow>
     came_from \<Rightarrow> nat set \<Rightarrow> nat list \<Rightarrow> bool" where
  "bfs_inv P sg start ex d D came seen queue \<longleftrightarrow>
     tree_ok P sg start ex d D came \<and> closed_on P sg start ex d D seen \<and>
     seen = insert start (dom came) \<and> seen = D \<union> set queue \<and>
     sorted (map d queue) \<and>
     (\<forall>h q. queue = h # q \<longrightarrow> (\<forall>v\<in>seen. d v \<le> Suc (d h)))"

lemma tree_okD:
  assumes "tree_ok P sg start ex d D came" "came v = Some (u, e)"
  shows "u \<in> D" "u = start \<or> u \<in> dom came" "d v = Suc (d u)" "\<not> blocked P sg start u"
    "\<exists>r\<in>set (pg_edges P (sg_graph sg) u). er_id r = e \<and> er_target r = v \<and> eligible ex r"
  using assms unfolding tree_ok_def by blast+

lemma tree_ok_root:
  assumes "tree_ok P sg start ex d D came"
  shows "d start = 0" "came start = None"
  using assms unfolding tree_ok_def by blast+

lemma bfs_invD:
  assumes "bfs_inv P sg start ex d D came seen queue"
  shows "tree_ok P sg start ex d D came" "closed_on P sg start ex d D seen"
    "seen = insert start (dom came)" "seen = D \<union> set queue" "sorted (map d queue)"
    "queue = h # q \<Longrightarrow> v \<in> seen \<Longrightarrow> d v \<le> Suc (d h)"
  using assms unfolding bfs_inv_def by blast+

lemma bfs_inv_start:
  "bfs_inv P sg start ex (\<lambda>_. 0) {} Map.empty {start} [start]"
  by (simp add: bfs_inv_def tree_ok_def closed_on_def)

lemma bfs_inv_skip:
  assumes inv: "bfs_inv P sg start ex d D came seen (u # q)" and b: "blocked P sg start u"
  shows "bfs_inv P sg start ex d (insert u D) came seen q"
proof -
  have near: "\<forall>h t. q = h # t \<longrightarrow> (\<forall>v\<in>seen. d v \<le> Suc (d h))"
  proof (intro allI impI ballI)
    fix h t v assume q: "q = h # t" and v: "v \<in> seen"
    have "d v \<le> Suc (d u)" using bfs_invD(6) [OF inv refl v] .
    moreover have "d u \<le> d h" using bfs_invD(5) [OF inv] q by simp
    ultimately show "d v \<le> Suc (d h)" by simp
  qed
  have T: "tree_ok P sg start ex d (insert u D) came"
    using bfs_invD(1) [OF inv] unfolding tree_ok_def by blast
  have C: "closed_on P sg start ex d (insert u D) seen"
    using bfs_invD(2) [OF inv] b unfolding closed_on_def by blast
  have "seen = insert u D \<union> set q" using bfs_invD(4) [OF inv] by simp
  moreover have "sorted (map d q)" using bfs_invD(5) [OF inv] by simp
  ultimately show ?thesis
    unfolding bfs_inv_def using T C near bfs_invD(3) [OF inv] by simp
qed

lemma bfs_inv_expand:
  assumes inv: "bfs_inv P sg start ex d D came seen (u # q)" and nb: "\<not> blocked P sg start u"
    and fold: "fold (relax_edge ex u) (pg_edges P (sg_graph sg) u) (came, seen, q) = (came', seen', q')"
  defines "d' \<equiv> (\<lambda>v. if v \<in> seen then d v else Suc (d u))"
  shows "bfs_inv P sg start ex d' (insert u D) came' seen' q'"
proof -
  let ?E = "pg_edges P (sg_graph sg) u"
  from relax_all [OF fold] obtain new where
    seen': "seen' = seen \<union> er_target ` {r \<in> set ?E. eligible ex r}" and
    q': "q' = q @ new" "set new = seen' - seen" and
    tree: "\<forall>v\<in>seen' - seen. \<exists>r\<in>set ?E. eligible ex r \<and> er_target r = v \<and> came' v = Some (u, er_id r)" and
    old: "\<forall>v. v \<notin> seen' - seen \<longrightarrow> came' v = came v"
    by blast
  have T: "tree_ok P sg start ex d D came" and C: "closed_on P sg start ex d D seen"
    and S: "seen = insert start (dom came)" "seen = D \<union> set (u # q)"
    and sorted: "sorted (map d (u # q))" and near: "\<forall>v\<in>seen. d v \<le> Suc (d u)"
    using bfs_invD [OF inv] by simp_all
  have u: "u \<in> seen" and D: "D \<subseteq> seen" and q: "set q \<subseteq> seen" using S(2) by auto
  have cases: "(w = u \<and> v \<in> seen' - seen \<and>
      (\<exists>r\<in>set ?E. eligible ex r \<and> er_target r = v \<and> er_id r = e)) \<or> (v \<in> seen \<and> came v = Some (w, e))"
    if "came' v = Some (w, e)" for v w e
  proof (cases "v \<in> seen' - seen")
    case True
    with tree obtain r where "r \<in> set ?E" "eligible ex r" "er_target r = v"
      "came' v = Some (u, er_id r)" by blast
    then show ?thesis using True that by auto
  next
    case False
    then have "came v = Some (w, e)" using old that by simp
    then show ?thesis using S(1) by auto
  qed
  have dom': "seen' = insert start (dom came')"
  proof -
    have "v \<in> dom came' \<longleftrightarrow> v \<in> dom came \<union> (seen' - seen)" for v
    proof (cases "v \<in> seen' - seen")
      case True
      then show ?thesis using tree by blast
    next
      case False
      then have "came' v = came v" using old by blast
      with False show ?thesis by (auto simp: dom_def)
    qed
    then have *: "dom came' = dom came \<union> (seen' - seen)" by (rule set_eqI)
    have "seen \<subseteq> seen'" using seen' by simp
    then show ?thesis unfolding * using S(1) by auto
  qed
  have T': "tree_ok P sg start ex d' (insert u D) came'"
    unfolding tree_ok_def
  proof (intro conjI allI impI)
    have st: "start \<in> seen" using S(1) by simp
    show "d' start = 0" using tree_ok_root [OF T] st by (simp add: d'_def)
    show "came' start = None" using tree_ok_root [OF T] st old by simp
  next
    fix v w e assume v: "came' v = Some (w, e)"
    have *: "w = u \<and> v \<notin> seen \<or> v \<in> seen \<and> w \<in> D \<and> d v = Suc (d w)"
      using cases [OF v] tree_okD(1,3) [OF T] by blast
    then show "w \<in> insert u D" "d' v = Suc (d' w)"
      using u D by (auto simp: d'_def)
    then have "w \<in> seen'" using u D seen' by auto
    then show "w = start \<or> w \<in> dom came'" unfolding dom' by simp
    show "\<not> blocked P sg start w"
      using cases [OF v] tree_okD(4) [OF T] nb by blast
    show "\<exists>r\<in>set (pg_edges P (sg_graph sg) w). er_id r = e \<and> er_target r = v \<and> eligible ex r"
      using cases [OF v] tree_okD(5) [OF T] by blast
  qed
  have C': "closed_on P sg start ex d' (insert u D) seen'"
    unfolding closed_on_def
  proof (intro ballI impI)
    fix w r assume w: "w \<in> insert u D" "\<not> blocked P sg start w"
      and r: "r \<in> set (pg_edges P (sg_graph sg) w)" "eligible ex r"
    show "er_target r \<in> seen' \<and> d' (er_target r) \<le> Suc (d' w)"
    proof (cases "w \<in> D")
      case True
      then show ?thesis using C w r D seen' by (auto simp: closed_on_def d'_def)
    next
      case False
      then have "er_target r \<in> seen'" "w = u" using w r seen' by auto
      then show ?thesis using near u by (auto simp: d'_def)
    qed
  qed
  have near': "\<forall>v\<in>seen'. d' v \<le> Suc (d u)" using near by (auto simp: d'_def)
  have qd: "map d' q' = map d q @ map (\<lambda>_. Suc (d u)) new"
    using q' q by (auto simp: d'_def)
  have sorted': "sorted (map d' q')"
    unfolding qd using sorted near q by (auto simp: sorted_append map_replicate_const)
  have lo: "\<forall>h\<in>set q'. d u \<le> d' h"
    using sorted q'(1) by (auto simp: d'_def q'(2))
  have "\<forall>h t. q' = h # t \<longrightarrow> (\<forall>v\<in>seen'. d' v \<le> Suc (d' h))"
  proof (intro allI impI ballI)
    fix h t v assume "q' = h # t" and v: "v \<in> seen'"
    then have "d u \<le> d' h" using lo by simp
    with near' v show "d' v \<le> Suc (d' h)" by (meson Suc_le_mono le_trans)
  qed
  moreover have "seen' = insert u D \<union> set q'" unfolding q'(1) set_append q'(2)
    using S(2) seen' by auto
  ultimately show ?thesis
    unfolding bfs_inv_def using T' C' dom' sorted' by simp
qed

section \<open>The walk returns, and its tree is the gated reachability\<close>

text \<open>What a finished walk guarantees: every seen node was expanded.\<close>

definition walk_done ::
  "'g petgraph \<Rightarrow> 'g security_graph \<Rightarrow> nat \<Rightarrow> nat option \<Rightarrow> (nat \<Rightarrow> nat) \<Rightarrow> came_from \<Rightarrow> bool" where
  "walk_done P sg start ex d came \<longleftrightarrow>
     tree_ok P sg start ex d (insert start (dom came)) came \<and>
     closed_on P sg start ex d (insert start (dom came)) (insert start (dom came))"

lemma bfs_inv_done:
  "bfs_inv P sg start ex d D came seen [] \<Longrightarrow> walk_done P sg start ex d came"
  unfolding bfs_inv_def walk_done_def by clarsimp

lemma walk_done_depth:
  assumes w: "walk_done P sg start ex d came"
  shows "u \<in> insert start (dom came) \<Longrightarrow> gated_path P sg start ex u s v \<Longrightarrow>
    v \<in> insert start (dom came) \<and> d v \<le> d u + length s"
proof (induction s arbitrary: u)
  case (Cons p s)
  obtain a b e where p: "p = (a, b, e)" by (cases p)
  from Cons.prems p obtain r where r: "\<not> blocked P sg start u"
    "r \<in> set (pg_edges P (sg_graph sg) u)" "er_target r = b" "eligible ex r"
    and rest: "gated_path P sg start ex b s v" by auto
  have b: "b \<in> insert start (dom came)" "d b \<le> Suc (d u)"
    using w Cons.prems(1) r unfolding walk_done_def closed_on_def by blast+
  from Cons.IH [OF b(1) rest] b(2) p show ?case by simp
qed simp

lemma tree_path:
  assumes T: "tree_ok P sg start ex d D came" and v: "v = start \<or> v \<in> dom came"
  shows "\<exists>s. gated_path P sg start ex start s v \<and> map d (targets s) = [1..<Suc (d v)] \<and>
    (\<forall>acc. path_back came start v acc = Some (acc @ rev s))"
  using v
proof (induction "d v" arbitrary: v)
  case 0
  have "v = start" using tree_okD(3) [OF T] 0 by fastforce
  then have "gated_path P sg start ex start [] v \<and> map d (targets []) = [1..<Suc (d v)] \<and>
      (\<forall>acc. path_back came start v acc = Some (acc @ rev []))"
    using tree_ok_root [OF T] by (simp add: path_back.simps)
  then show ?case by blast
next
  case (Suc n)
  then have ne: "v \<noteq> start" using tree_ok_root(1) [OF T] by auto
  with Suc.prems obtain u e where v: "came v = Some (u, e)" by auto
  note * = tree_okD [OF T v]
  from Suc.hyps(2) *(3) have "n = d u" by simp
  from Suc.hyps(1) [OF this *(2)] obtain s where s: "gated_path P sg start ex start s u"
    "map d (targets s) = [1..<Suc (d u)]" "\<forall>acc. path_back came start u acc = Some (acc @ rev s)"
    by blast
  from *(4,5) have "gated_path P sg start ex u [(u, v, e)] v" by auto
  with s(1) have path: "gated_path P sg start ex start (s @ [(u, v, e)]) v"
    unfolding gated_path_append by blast
  have rebuild: "path_back came start v acc = Some (acc @ rev (s @ [(u, v, e)]))" for acc
    using s(3) v ne by (subst path_back.simps) simp
  have "map d (targets (s @ [(u, v, e)])) = [1..<Suc (d v)]"
    using s(2) *(3) by simp
  with path rebuild show ?case by blast
qed

lemma card_Diff_between:
  assumes "A \<subseteq> B" "B \<subseteq> N" "finite N"
  shows "card (N - A) = card (N - B) + card (B - A)"
proof -
  have "N - A = (N - B) \<union> (B - A)" using assms by blast
  moreover have "finite (N - B)" "finite (B - A)" using assms by (auto dest: finite_subset)
  ultimately show ?thesis by (simp add: card_Un_disjoint disjoint_iff)
qed

context stable_graph
begin

lemma finite_weights: "finite (dom (pg_node_weight P g))"
  using indices_dom [of g] by (metis List.finite_set)

lemma edge_target_dom: "r \<in> set (pg_edges P g u) \<Longrightarrow> er_target r \<in> dom (pg_node_weight P g)"
  using edge_ends by (simp add: edges_out)

lemma movement_loop_returns:
  assumes "bfs_inv P sg start ex d D came seen queue"
    and "seen \<subseteq> dom (pg_node_weight P (sg_graph sg))"
  shows "\<exists>d' came'. movement_loop P sg start ex came seen queue = Some came' \<and>
    walk_done P sg start ex d' came' \<and> dom came' \<subseteq> dom (pg_node_weight P (sg_graph sg))"
  using assms
proof (induction "card (dom (pg_node_weight P (sg_graph sg)) - seen) + length queue"
       arbitrary: d D came seen queue rule: less_induct)
  case less
  let ?N = "dom (pg_node_weight P (sg_graph sg))"
  show ?case
  proof (cases queue)
    case Nil
    have "dom came \<subseteq> ?N" using less.prems(2) bfs_invD(3) [OF less.prems(1)] by blast
    moreover have "walk_done P sg start ex d came"
      using bfs_inv_done less.prems(1) Nil by blast
    ultimately show ?thesis using Nil by (subst movement_loop.simps) auto
  next
    case (Cons u q)
    show ?thesis
    proof (cases "blocked P sg start u")
      case True
      have "bfs_inv P sg start ex d (insert u D) came seen q"
        using bfs_inv_skip less.prems(1) True Cons by blast
      from less.hyps [OF _ this less.prems(2)] Cons True show ?thesis
        by (subst movement_loop.simps) simp
    next
      case False
      obtain came' seen' q' where fold:
        "fold (relax_edge ex u) (pg_edges P (sg_graph sg) u) (came, seen, q) = (came', seen', q')"
        by (metis prod_cases3)
      from relax_all [OF fold] obtain new where seen':
        "seen' = seen \<union> er_target ` {r \<in> set (pg_edges P (sg_graph sg) u). eligible ex r}"
        "q' = q @ new" "distinct new" "set new = seen' - seen" by blast
      have sub: "seen' \<subseteq> ?N" unfolding seen'(1) using less.prems(2) edge_target_dom by blast
      have "card (?N - seen) = card (?N - seen') + card (seen' - seen)"
        using sub seen'(1) finite_weights by (intro card_Diff_between) auto
      moreover have "card (seen' - seen) = length new" using seen'(3,4) distinct_card by metis
      ultimately have dec: "card (?N - seen') + length q' < card (?N - seen) + length queue"
        using Cons seen'(2) by simp
      from bfs_inv_expand [OF less.prems(1) [unfolded Cons] False fold]
      show ?thesis using less.hyps [OF dec _ sub] Cons False fold
        by (subst movement_loop.simps) simp
    qed
  qed
qed

lemma movement_tree_returns:
  assumes "start \<in> dom (pg_node_weight P (sg_graph sg))"
  shows "\<exists>d came. movement_tree P sg start ex = Some came \<and>
    walk_done P sg start ex d came \<and> dom came \<subseteq> dom (pg_node_weight P (sg_graph sg))"
  using movement_loop_returns [OF bfs_inv_start] assms by (simp add: movement_tree_def)

lemma movement_tree_spec:
  assumes "start \<in> dom (pg_node_weight P (sg_graph sg))"
  shows "\<exists>came. movement_tree P sg start ex = Some came \<and> came start = None \<and>
    (\<forall>v. v = start \<or> v \<in> dom came \<longleftrightarrow> moves P sg start ex v)"
proof -
  obtain d came where c: "movement_tree P sg start ex = Some came" "walk_done P sg start ex d came"
    using movement_tree_returns [OF assms] by blast
  then have T: "tree_ok P sg start ex d (insert start (dom came)) came"
    by (simp add: walk_done_def)
  have "v = start \<or> v \<in> dom came \<longleftrightarrow> moves P sg start ex v" for v
    unfolding moves_gated_path
    using tree_path [OF T] walk_done_depth [OF c(2), of start _ v] by blast
  with c tree_ok_root [OF T] show ?thesis by blast
qed

lemma path_steps_spec:
  assumes "start \<in> dom (pg_node_weight P (sg_graph sg))"
    and "movement_tree P sg start ex = Some came" and "v = start \<or> v \<in> dom came"
  shows "\<exists>s. path_steps came start v = Some s \<and> gated_path P sg start ex start s v \<and>
    distinct (start # targets s) \<and>
    (\<forall>t. gated_path P sg start ex start t v \<longrightarrow> length s \<le> length t)"
proof -
  obtain d where w: "walk_done P sg start ex d came"
    using movement_tree_returns [OF assms(1), of ex] assms(2) by auto
  then have T: "tree_ok P sg start ex d (insert start (dom came)) came"
    by (simp add: walk_done_def)
  from tree_path [OF T assms(3)] obtain s where s: "gated_path P sg start ex start s v"
    "map d (targets s) = [1..<Suc (d v)]" "\<forall>acc. path_back came start v acc = Some (acc @ rev s)"
    by blast
  have len: "length s = d v" using arg_cong [OF s(2), of length] by (simp add: targets_def)
  have "map d (start # targets s) = [0..<Suc (d v)]"
    using s(2) tree_ok_root(1) [OF T] by (simp add: upt_conv_Cons)
  then have "distinct (start # targets s)" by (metis distinct_map distinct_upt)
  moreover have "length s \<le> length t" if "gated_path P sg start ex start t v" for t
    using walk_done_depth [OF w _ that] tree_ok_root [OF T] len by simp
  ultimately show ?thesis using s by (auto simp: path_steps_def)
qed

end

end
