(* ===== verification/Paths.thy ===== *)
theory Paths
  imports Walk "HOL-Library.Product_Lexorder"
begin

text \<open>
  The bounded enumeration of the proven paths (\<open>PathEnum\<close> and \<open>proven_paths\<close> of
  \<open>engine/src/engine/reason/proof/chain.rs\<close>). The work stack is a list whose head is the top frame.
  \<open>enum_paths\<close> is the plain recursion the explicit stack replaces; the lemmas show that the stack
  machine collects a prefix of what that recursion collects, and all of it unless it reports truncation.
\<close>

section \<open>Definitions\<close>

definition MAX_PROVEN_PATHS :: nat where
  "MAX_PROVEN_PATHS = 6"

definition PATH_ENUM_BUDGET :: nat where
  "PATH_ENUM_BUDGET = 50000"

record path_enum =
  on_path :: "nat set"
  pe_steps :: path_steps
  found :: "path_steps list"
  budget :: nat
  truncated :: bool

record frame =
  f_node :: nat
  f_edges :: "(nat \<times> nat \<times> bool) list"
  f_idx :: nat

definition out_edges :: "'g petgraph \<Rightarrow> 'g security_graph \<Rightarrow> nat \<Rightarrow> (nat \<times> nat \<times> bool) list" where
  "out_edges P sg u =
     map (\<lambda>r. (er_target r, er_id r, is_movement (e_relation (er_weight r))))
       (pg_edges P (sg_graph sg) u)"

definition open_frame ::
  "'g petgraph \<Rightarrow> 'g security_graph \<Rightarrow> nat \<Rightarrow> nat \<Rightarrow> nat \<Rightarrow> nat \<Rightarrow> path_enum \<Rightarrow>
     path_enum \<times> frame option" where
  "open_frame P sg entry objective cap u st =
     (if cap < length (found st) then (st, None)
      else if u = objective then (st\<lparr>found := found st @ [pe_steps st]\<rparr>, None)
      else if blocked P sg entry u then (st, None)
      else (st, Some \<lparr>f_node = u, f_edges = out_edges P sg u, f_idx = 0\<rparr>))"

lemma open_frame_budget [simp]:
  "budget (fst (open_frame P sg entry objective cap u st)) = budget st"
  by (simp add: open_frame_def)

function walk_loop ::
  "'g petgraph \<Rightarrow> 'g security_graph \<Rightarrow> nat \<Rightarrow> nat \<Rightarrow> nat \<Rightarrow> path_enum \<Rightarrow> frame list \<Rightarrow> path_enum" where
  "walk_loop P sg entry objective cap st [] = st"
| "walk_loop P sg entry objective cap st (f # rest) =
     (if f_idx f < length (f_edges f) then
        if budget st = 0 then st\<lparr>truncated := True\<rparr>
        else
          (let st1 = st\<lparr>budget := budget st - 1\<rparr>;
               u = f_node f;
               (v, e, valid) = f_edges f ! f_idx f;
               f1 = f\<lparr>f_idx := Suc (f_idx f)\<rparr>
           in if \<not> valid then walk_loop P sg entry objective cap st1 (f1 # rest)
              else if v \<in> on_path st1 then walk_loop P sg entry objective cap st1 (f1 # rest)
              else
                (let st2 = st1\<lparr>on_path := insert v (on_path st1), pe_steps := pe_steps st1 @ [(u, v, e)]\<rparr>;
                     opened = open_frame P sg entry objective cap v st2
                 in case snd opened of
                      Some child \<Rightarrow> walk_loop P sg entry objective cap (fst opened) (child # f1 # rest)
                    | None \<Rightarrow>
                        (let st3 = (fst opened)\<lparr>pe_steps := butlast (pe_steps (fst opened)),
                                      on_path := on_path (fst opened) - {v}\<rparr>
                         in if cap < length (found st3) then st3
                            else walk_loop P sg entry objective cap st3 (f1 # rest))))
      else
        (if rest = [] then st
         else
           (let st1 = st\<lparr>pe_steps := butlast (pe_steps st), on_path := on_path st - {f_node f}\<rparr>
            in if cap < length (found st1) then st1
               else walk_loop P sg entry objective cap st1 rest)))"
  by pat_completeness auto
termination
  by (relation "measures [\<lambda>(P, sg, entry, objective, cap, st, stack). budget st,
       \<lambda>(P, sg, entry, objective, cap, st, stack). length stack]") auto

declare walk_loop.simps(2) [simp del]

definition walk ::
  "'g petgraph \<Rightarrow> 'g security_graph \<Rightarrow> nat \<Rightarrow> nat \<Rightarrow> nat \<Rightarrow> nat \<Rightarrow> path_enum \<Rightarrow> path_enum" where
  "walk P sg entry objective cap start st =
     (case open_frame P sg entry objective cap start st of
        (st', None) \<Rightarrow> st'
      | (st', Some root) \<Rightarrow> walk_loop P sg entry objective cap st' [root])"

definition proven_paths ::
  "'g petgraph \<Rightarrow> 'g security_graph \<Rightarrow> nat \<Rightarrow> nat \<Rightarrow> nat \<Rightarrow> path_steps list \<times> bool" where
  "proven_paths P sg entry objective cap =
     (let state = walk P sg entry objective cap entry
            \<lparr>on_path = {entry}, pe_steps = [], found = [], budget = PATH_ENUM_BUDGET,
             truncated = False\<rparr>;
          fnd = sort_key (\<lambda>p. (length p, map (\<lambda>(a, b, e). (a, b)) p)) (found state)
      in if cap < length fnd then (take cap fnd, True) else (fnd, truncated state))"

section \<open>The recursion the stack machine replaces\<close>

fun enum_paths ::
  "nat \<Rightarrow> 'g petgraph \<Rightarrow> 'g security_graph \<Rightarrow> nat \<Rightarrow> nat \<Rightarrow> nat set \<Rightarrow> path_steps \<Rightarrow> nat \<Rightarrow>
     path_steps list" where
  "enum_paths 0 P sg entry objective on pre u = []"
| "enum_paths (Suc n) P sg entry objective on pre u =
     (if u = objective then [pre]
      else if blocked P sg entry u then []
      else concat (map (\<lambda>(v, e, valid).
             if valid \<and> v \<notin> on
             then enum_paths n P sg entry objective (insert v on) (pre @ [(u, v, e)]) v else [])
           (out_edges P sg u)))"

definition branch ::
  "nat \<Rightarrow> 'g petgraph \<Rightarrow> 'g security_graph \<Rightarrow> nat \<Rightarrow> nat \<Rightarrow> nat set \<Rightarrow> path_steps \<Rightarrow> nat \<Rightarrow>
     nat \<times> nat \<times> bool \<Rightarrow> path_steps list" where
  "branch n P sg entry objective on pre u =
     (\<lambda>(v, e, valid). if valid \<and> v \<notin> on
        then enum_paths n P sg entry objective (insert v on) (pre @ [(u, v, e)]) v else [])"

text \<open>What the frames of the stack still have to contribute; \<open>n\<close> is the fuel of the top frame.\<close>

fun pending ::
  "nat \<Rightarrow> 'g petgraph \<Rightarrow> 'g security_graph \<Rightarrow> nat \<Rightarrow> nat \<Rightarrow> nat set \<Rightarrow> path_steps \<Rightarrow> frame list \<Rightarrow>
     path_steps list" where
  "pending n P sg entry objective on pre [] = []"
| "pending n P sg entry objective on pre (f # rest) =
     concat (map (branch n P sg entry objective on pre (f_node f)) (drop (f_idx f) (f_edges f))) @
     pending (Suc n) P sg entry objective (on - {f_node f}) (butlast pre) rest"

fun stack_ok :: "'g petgraph \<Rightarrow> 'g security_graph \<Rightarrow> nat set \<Rightarrow> frame list \<Rightarrow> bool" where
  "stack_ok P sg on [] \<longleftrightarrow> on = {}"
| "stack_ok P sg on (f # rest) \<longleftrightarrow>
     f_edges f = out_edges P sg (f_node f) \<and> f_node f \<in> on \<and>
     stack_ok P sg (on - {f_node f}) rest"

lemma stack_ok_card: "stack_ok P sg on stack \<Longrightarrow> finite on \<and> card on = length stack"
proof (induction stack arbitrary: on)
  case (Cons f rest)
  then have "stack_ok P sg (on - {f_node f}) rest" by simp
  from Cons.IH [OF this] have "finite (on - {f_node f}) \<and> card (on - {f_node f}) = length rest" .
  moreover from this have "finite on" by simp
  ultimately show ?case using Cons.prems card_Suc_Diff1 [of on "f_node f"] by simp
qed simp

lemma enum_paths_branch:
  "u \<noteq> objective \<Longrightarrow> \<not> blocked P sg entry u \<Longrightarrow>
     enum_paths (Suc n) P sg entry objective on pre u =
       concat (map (branch n P sg entry objective on pre u) (out_edges P sg u))"
  by (simp add: branch_def)

lemma branch_skip:
  "\<not> valid \<or> v \<in> on \<Longrightarrow> branch n P sg entry objective on pre u (v, e, valid) = []"
  by (auto simp: branch_def)

lemma branch_step:
  assumes "v \<notin> on"
  shows "branch (Suc n) P sg entry objective on pre u (v, e, True) =
    (if v = objective then [pre @ [(u, v, e)]] else if blocked P sg entry v then []
     else concat (map (branch n P sg entry objective (insert v on) (pre @ [(u, v, e)]) v)
            (out_edges P sg v)))"
  using assms by (simp add: branch_def)

lemma pending_next:
  assumes "f_idx f < length (f_edges f)"
  shows "pending n P sg entry objective on pre (f # rest) =
    branch n P sg entry objective on pre (f_node f) (f_edges f ! f_idx f) @
    pending n P sg entry objective on pre (f\<lparr>f_idx := Suc (f_idx f)\<rparr> # rest)"
  using assms by (simp add: Cons_nth_drop_Suc [symmetric])

definition inside :: "'g petgraph \<Rightarrow> 'g security_graph \<Rightarrow> nat set \<Rightarrow> bool" where
  "inside P sg N \<longleftrightarrow> finite N \<and> (\<forall>u. \<forall>(v, e, b)\<in>set (out_edges P sg u). v \<in> N)"

lemma stack_fuel:
  assumes "stack_ok P sg on (f # rest)" "on \<subseteq> N" "inside P sg N" "card N \<le> n + length (f # rest)"
    and "(v, e, b) \<in> set (f_edges f)" "v \<notin> on"
  shows "\<exists>m. n = Suc m" "v \<in> N"
proof -
  show v: "v \<in> N" using assms(1,3,5) by (auto simp: inside_def)
  have "card on < card N"
    using assms(2,3,6) v by (intro psubset_card_mono) (auto simp: inside_def)
  with stack_ok_card [OF assms(1)] assms(4) have "0 < n" by simp
  then show "\<exists>m. n = Suc m" by (cases n) auto
qed

text \<open>The cases of one turn of the loop.\<close>

lemma walk_loop_pop:
  assumes "\<not> f_idx f < length (f_edges f)" "rest \<noteq> []" "\<not> cap < length (found st)"
  shows "walk_loop P sg entry objective cap st (f # rest) = walk_loop P sg entry objective cap
    (st\<lparr>pe_steps := butlast (pe_steps st), on_path := on_path st - {f_node f}\<rparr>) rest"
  using assms by (simp add: walk_loop.simps(2))

lemma walk_loop_stop:
  "\<not> f_idx f < length (f_edges f) \<Longrightarrow> walk_loop P sg entry objective cap st [f] = st"
  "f_idx f < length (f_edges f) \<Longrightarrow> budget st = 0 \<Longrightarrow>
     walk_loop P sg entry objective cap st (f # rest) = st\<lparr>truncated := True\<rparr>"
  by (simp_all add: walk_loop.simps(2))

lemma walk_loop_skip:
  assumes "f_idx f < length (f_edges f)" "budget st \<noteq> 0" "f_edges f ! f_idx f = (v, e, b)"
    "\<not> b \<or> v \<in> on_path st"
  shows "walk_loop P sg entry objective cap st (f # rest) = walk_loop P sg entry objective cap
    (st\<lparr>budget := budget st - 1\<rparr>) (f\<lparr>f_idx := Suc (f_idx f)\<rparr> # rest)"
  using assms by (subst walk_loop.simps(2)) (auto simp: Let_def)

definition entered :: "nat \<Rightarrow> nat \<Rightarrow> nat \<Rightarrow> path_enum \<Rightarrow> path_enum" where
  "entered u v e st = st\<lparr>budget := budget st - 1, on_path := insert v (on_path st),
     pe_steps := pe_steps st @ [(u, v, e)]\<rparr>"

lemma walk_loop_step:
  assumes "f_idx f < length (f_edges f)" "budget st \<noteq> 0" "f_edges f ! f_idx f = (v, e, True)"
    "v \<notin> on_path st" "\<not> cap < length (found st)"
  shows "walk_loop P sg entry objective cap st (f # rest) =
    (if v = objective
     then let st' = st\<lparr>budget := budget st - 1, found := found st @ [pe_steps st @ [(f_node f, v, e)]]\<rparr>
          in if cap < length (found st') then st'
             else walk_loop P sg entry objective cap st' (f\<lparr>f_idx := Suc (f_idx f)\<rparr> # rest)
     else if blocked P sg entry v
     then walk_loop P sg entry objective cap (st\<lparr>budget := budget st - 1\<rparr>)
            (f\<lparr>f_idx := Suc (f_idx f)\<rparr> # rest)
     else walk_loop P sg entry objective cap (entered (f_node f) v e st)
            (\<lparr>f_node = v, f_edges = out_edges P sg v, f_idx = 0\<rparr> #
             f\<lparr>f_idx := Suc (f_idx f)\<rparr> # rest))"
  using assms by (cases st) (subst walk_loop.simps(2), auto simp: Let_def open_frame_def entered_def)

text \<open>
  \<open>collects\<close>: the run ends with a prefix of the paths found so far and the pending ones, and with
  all of them unless it reports truncation or holds more than \<open>cap\<close> paths.
\<close>

definition collects :: "nat \<Rightarrow> path_enum \<Rightarrow> path_steps list \<Rightarrow> bool" where
  "collects cap st paths \<longleftrightarrow>
     (\<exists>rest. found st @ rest = paths \<and> (rest = [] \<or> truncated st \<or> cap < length (found st)))"

lemma walk_loop_collects:
  assumes "stack_ok P sg (on_path st) stack" and "on_path st \<subseteq> N" and "inside P sg N"
    and "card N \<le> n + length stack" and "\<not> cap < length (found st)"
  shows "collects cap (walk_loop P sg entry objective cap st stack)
    (found st @ pending n P sg entry objective (on_path st) (pe_steps st) stack)"
  using assms
proof (induction "2 * budget st + length stack" arbitrary: n st stack rule: less_induct)
  case less
  show ?case
  proof (cases stack)
    case Nil
    then show ?thesis by (simp add: collects_def)
  next
    case (Cons f rest)
    let ?f1 = "f\<lparr>f_idx := Suc (f_idx f)\<rparr>" and ?more = "f_idx f < length (f_edges f)"
    obtain v e b where x: "f_edges f ! f_idx f = (v, e, b)" by (cases "f_edges f ! f_idx f")
    note ok = less.prems(1) [unfolded Cons stack_ok.simps]
    note hyp = less.hyps [of _ _ n, OF _ _ _ less.prems(3)]
    consider (last) "\<not> ?more" "rest = []" | (pop) "\<not> ?more" "rest \<noteq> []"
      | (spent) "?more" "budget st = 0" | (skip) "?more" "budget st \<noteq> 0" "\<not> b \<or> v \<in> on_path st"
      | (step) "?more" "budget st \<noteq> 0" "b" "v \<notin> on_path st"
      by blast
    then show ?thesis
    proof cases
      case last
      then show ?thesis by (simp add: Cons collects_def walk_loop_stop)
    next
      case pop
      show ?thesis
        unfolding Cons walk_loop_pop [OF pop less.prems(5)]
        using less.hyps [of "st\<lparr>pe_steps := butlast (pe_steps st), on_path := on_path st - {f_node f}\<rparr>"
            rest "Suc n"] ok less.prems pop by (auto simp: Cons)
    next
      case spent
      then show ?thesis by (simp add: Cons collects_def walk_loop_stop)
    next
      case skip
      then show ?thesis
        unfolding Cons walk_loop_skip [OF skip(1,2) x skip(3)] pending_next [OF skip(1)] x
        using hyp [of "st\<lparr>budget := budget st - 1\<rparr>" "?f1 # rest"] ok less.prems
        by (auto simp: Cons branch_skip)
    next
      case step
      from step(1) x have mem: "(v, e, b) \<in> set (f_edges f)" by (metis nth_mem)
      from stack_fuel [OF less.prems(1) [unfolded Cons] less.prems(2,3) less.prems(4) [unfolded Cons] mem step(4)]
      obtain m where m: "n = Suc m" and v: "v \<in> N" by blast
      from step(3) x have x: "f_edges f ! f_idx f = (v, e, True)" by simp
      note turn = walk_loop_step [OF step(1,2) x step(4) less.prems(5)]
      note pend = pending_next [OF step(1)] x m branch_step [OF step(4)]
      consider "v = objective" | "v \<noteq> objective" "blocked P sg entry v"
        | "v \<noteq> objective" "\<not> blocked P sg entry v" by blast
      then show ?thesis
      proof cases
        case 1
        let ?st = "st\<lparr>budget := budget st - 1, found := found st @ [pe_steps st @ [(f_node f, v, e)]]\<rparr>"
        have "collects cap (walk_loop P sg entry objective cap ?st (?f1 # rest))
          (found ?st @ pending n P sg entry objective (on_path st) (pe_steps st) (?f1 # rest))"
          if "\<not> cap < length (found ?st)"
          using hyp [of ?st "?f1 # rest"] ok less.prems step that by (simp add: Cons)
        then show ?thesis
          unfolding Cons turn pend using 1 by (simp add: collects_def Let_def)
      next
        case 2
        then show ?thesis
          unfolding Cons turn pend
          using hyp [of "st\<lparr>budget := budget st - 1\<rparr>" "?f1 # rest", unfolded m] ok less.prems step m
          by (simp add: Cons)
      next
        case 3
        let ?child = "\<lparr>f_node = v, f_edges = out_edges P sg v, f_idx = 0\<rparr>"
        show ?thesis
          unfolding Cons turn pend
          using less.hyps [of "entered (f_node f) v e st" "?child # ?f1 # rest" m] ok less.prems step 3 v m
          by (simp add: Cons entered_def)
      qed
    qed
  qed
qed

section \<open>What the recursion enumerates\<close>

definition simple_from ::
  "'g petgraph \<Rightarrow> 'g security_graph \<Rightarrow> nat \<Rightarrow> nat \<Rightarrow> nat set \<Rightarrow> nat \<Rightarrow> path_steps \<Rightarrow> bool" where
  "simple_from P sg entry objective on u p \<longleftrightarrow>
     gated_path P sg entry None u p objective \<and> distinct (targets p) \<and> set (targets p) \<inter> on = {}"

text \<open>A simple gated path: it starts at the entry, ends at the objective and repeats no node.\<close>

definition proven_path :: "'g petgraph \<Rightarrow> 'g security_graph \<Rightarrow> nat \<Rightarrow> nat \<Rightarrow> path_steps \<Rightarrow> bool" where
  "proven_path P sg entry objective p \<longleftrightarrow>
     gated_path P sg entry None entry p objective \<and> distinct (entry # targets p)"

lemma proven_path_simple_from:
  "proven_path P sg entry objective p \<longleftrightarrow> simple_from P sg entry objective {entry} entry p"
  by (auto simp: proven_path_def simple_from_def)

lemma simple_from_Cons:
  "simple_from P sg entry objective on u ((a, v, e) # p) \<longleftrightarrow>
     a = u \<and> \<not> blocked P sg entry u \<and> (v, e, True) \<in> set (out_edges P sg u) \<and> v \<notin> on \<and>
     simple_from P sg entry objective (insert v on) v p"
  by (auto simp: simple_from_def out_edges_def eligible_def)

lemma gated_path_target_end:
  "gated_path P sg entry ex u p v \<Longrightarrow> p \<noteq> [] \<Longrightarrow> v \<in> set (targets p)"
  by (induction p arbitrary: u) (auto split: if_splits, metis gated_path.simps(1) list.exhaust)

lemma simple_from_objective:
  "objective \<in> on \<Longrightarrow> simple_from P sg entry objective on objective p \<longleftrightarrow> p = []"
  using gated_path_target_end [of P sg entry None objective p objective]
  by (auto simp: simple_from_def)

lemma enum_paths_iff:
  assumes "inside P sg N" "on \<subseteq> N" "u \<in> on" "card (N - on) < n"
  shows "q \<in> set (enum_paths n P sg entry objective on pre u) \<longleftrightarrow>
    (\<exists>p. q = pre @ p \<and> simple_from P sg entry objective on u p)"
  using assms(2-)
proof (induction n arbitrary: on pre u)
  case (Suc n)
  show ?case
  proof (cases "u = objective")
    case True
    with Suc.prems show ?thesis by (simp add: simple_from_objective)
  next
    case False
    have sub: "q \<in> set (enum_paths n P sg entry objective (insert v on) (pre @ [(u, v, e)]) v) \<longleftrightarrow>
        (\<exists>p. q = pre @ (u, v, e) # p \<and> simple_from P sg entry objective (insert v on) v p)"
      if "(v, e, b) \<in> set (out_edges P sg u)" "v \<notin> on" for v e b
    proof -
      have v: "v \<in> N - on" using assms(1) that by (auto simp: inside_def)
      have "card (N - insert v on) < card (N - on)"
        using v assms(1) by (intro psubset_card_mono) (auto simp: inside_def)
      then show ?thesis using Suc.IH [of "insert v on" v] Suc.prems v by simp
    qed
    have nil: "\<not> simple_from P sg entry objective on u []"
      using False by (simp add: simple_from_def)
    have "(\<exists>p. q = pre @ p \<and> simple_from P sg entry objective on u p) \<longleftrightarrow>
        (\<exists>v e p. q = pre @ (u, v, e) # p \<and> simple_from P sg entry objective on u ((u, v, e) # p))"
      using nil simple_from_Cons by (metis list.exhaust prod_cases3)
    also have "\<dots> \<longleftrightarrow> q \<in> set (enum_paths (Suc n) P sg entry objective on pre u)"
      using False sub by (auto simp: simple_from_Cons split: if_splits) blast+
    finally show ?thesis by blast
  qed
qed simp

lemma distinct_concat_map:
  assumes "distinct xs" "\<And>x. x \<in> set xs \<Longrightarrow> distinct (f x)"
    and "\<And>x y. x \<in> set xs \<Longrightarrow> y \<in> set xs \<Longrightarrow> x \<noteq> y \<Longrightarrow> set (f x) \<inter> set (f y) = {}"
  shows "distinct (concat (map f xs))"
  using assms
proof (induction xs)
  case (Cons x xs)
  have "set (f x) \<inter> set (f y) = {}" if "y \<in> set xs" for y
    using Cons.prems(1,3) that by auto
  then show ?case using Cons by auto
qed simp

lemma enum_paths_prefix:
  "q \<in> set (enum_paths n P sg entry objective on pre u) \<Longrightarrow> \<exists>p. q = pre @ p"
proof (induction n arbitrary: on pre u)
  case (Suc n)
  then show ?case by (auto split: if_splits) (metis append.assoc)
qed simp

lemma enum_paths_distinct:
  assumes "\<And>u. distinct (out_edges P sg u)"
    and "\<And>u v v' e b b'. (v, e, b) \<in> set (out_edges P sg u) \<Longrightarrow>
      (v', e, b') \<in> set (out_edges P sg u) \<Longrightarrow> v = v' \<and> b = b'"
  shows "distinct (enum_paths n P sg entry objective on pre u)"
proof (induction n arbitrary: on pre u)
  case (Suc n)
  have "set (branch n P sg entry objective on pre u x) \<inter> set (branch n P sg entry objective on pre u y) = {}"
    if "x \<in> set (out_edges P sg u)" "y \<in> set (out_edges P sg u)" "x \<noteq> y" for x y
  proof -
    obtain v e b v' e' b' where xy: "x = (v, e, b)" "y = (v', e', b')" by (cases x, cases y)
    with that assms(2) have "e \<noteq> e'" by blast
    then show ?thesis
      using xy by (auto simp: branch_def dest!: enum_paths_prefix)
  qed
  moreover have "distinct (branch n P sg entry objective on pre u x)" for x
    using Suc.IH by (auto simp: branch_def split: prod.split)
  ultimately have "distinct (concat (map (branch n P sg entry objective on pre u) (out_edges P sg u)))"
    using assms(1) by (intro distinct_concat_map)
  then show ?case by (simp add: branch_def)
qed simp

lemma sorted_map_weaken:
  assumes "sorted (map f xs)" and "\<And>x y. f x \<le> f y \<Longrightarrow> g x \<le> g y"
  shows "sorted (map g xs)"
  using assms unfolding sorted_map by (auto intro: sorted_wrt_mono_rel [rotated])

context stable_graph
begin

lemma inside_nodes: "inside P sg (dom (pg_node_weight P (sg_graph sg)))"
  using edge_target_dom finite_weights by (auto simp: inside_def out_edges_def)

lemma out_edges_distinct: "distinct (out_edges P sg u)"
proof -
  have "inj_on (\<lambda>r. (er_target r, er_id r, is_movement (e_relation (er_weight r))))
      (set (pg_edges P (sg_graph sg) u))"
    by (rule inj_onI) (auto intro: edge_id_unique simp: edges_out)
  then show ?thesis by (simp add: out_edges_def distinct_map edges_distinct)
qed

lemma out_edges_id:
  "(v, e, b) \<in> set (out_edges P sg u) \<Longrightarrow> (v', e, b') \<in> set (out_edges P sg u) \<Longrightarrow> v = v' \<and> b = b'"
  by (auto simp: out_edges_def edges_out dest: edge_id_unique)

text \<open>All proven paths, in the order of the recursion.\<close>

lemma walk_collects:
  assumes "entry \<in> dom (pg_node_weight P (sg_graph sg))"
  shows "\<exists>paths. collects cap (walk P sg entry objective cap entry
      \<lparr>on_path = {entry}, pe_steps = [], found = [], budget = k, truncated = False\<rparr>) paths \<and>
    distinct paths \<and> set paths = {p. proven_path P sg entry objective p}"
proof -
  let ?N = "dom (pg_node_weight P (sg_graph sg))"
  let ?st = "\<lparr>on_path = {entry}, pe_steps = [], found = [], budget = k, truncated = False\<rparr>"
  let ?all = "enum_paths (card ?N) P sg entry objective {entry} [] entry"
  obtain m where m: "card ?N = Suc m"
    using assms finite_weights by (metis card_gt_0_iff empty_iff gr0_implies_Suc)
  have lt: "card (?N - {entry}) < card ?N"
    using assms finite_weights by (intro psubset_card_mono) auto
  have set: "set ?all = {p. proven_path P sg entry objective p}"
    using enum_paths_iff [OF inside_nodes, of "{entry}" sg entry "card ?N"] assms lt
    by (auto simp: proven_path_simple_from)
  have dist: "distinct ?all" by (rule enum_paths_distinct [OF out_edges_distinct out_edges_id])
  have "collects cap (walk P sg entry objective cap entry ?st) ?all"
  proof (cases "entry = objective \<or> blocked P sg entry entry")
    case True
    then show ?thesis by (auto simp: walk_def open_frame_def collects_def m)
  next
    case False
    let ?root = "\<lparr>f_node = entry, f_edges = out_edges P sg entry, f_idx = 0\<rparr>"
    have "?all = pending m P sg entry objective {entry} [] [?root]"
      using False by (simp add: m branch_def)
    then show ?thesis
      using walk_loop_collects [of P sg ?st "[?root]" ?N m cap entry objective] False assms m inside_nodes
      by (simp add: walk_def open_frame_def)
  qed
  with set dist show ?thesis by blast
qed

lemma proven_paths_spec:
  assumes "entry \<in> dom (pg_node_weight P (sg_graph sg))"
    and "proven_paths P sg entry objective cap = (ps, tr)"
  shows "length ps \<le> cap" "distinct ps" "sorted (map length ps)"
    "p \<in> set ps \<Longrightarrow> proven_path P sg entry objective p"
    "\<not> tr \<Longrightarrow> proven_path P sg entry objective p \<Longrightarrow> p \<in> set ps"
proof -
  define st where "st = walk P sg entry objective cap entry
    \<lparr>on_path = {entry}, pe_steps = [], found = [], budget = PATH_ENUM_BUDGET, truncated = False\<rparr>"
  let ?k = "\<lambda>p. (length p, map (\<lambda>(a, b, e). (a, b)) p) :: nat \<times> (nat \<times> nat) list"
  let ?all = "{p. proven_path P sg entry objective p}"
  from walk_collects [OF assms(1), of cap objective PATH_ENUM_BUDGET] obtain rest where
    rest: "distinct (found st @ rest)" "set (found st @ rest) = ?all"
    "rest = [] \<or> truncated st \<or> cap < length (found st)"
    unfolding st_def [symmetric] collects_def by blast
  have ps: "ps = take cap (sort_key ?k (found st))" "tr \<longleftrightarrow> cap < length (found st) \<or> truncated st"
    using assms(2) by (auto simp: proven_paths_def Let_def st_def [symmetric] split: if_splits)
  show "length ps \<le> cap" "distinct ps" using rest(1) ps(1) by auto
  have "sorted (map length (sort_key ?k (found st)))"
    by (rule sorted_map_weaken [OF sorted_sort_key [of ?k]]) (auto simp: less_eq_prod_def)
  then show "sorted (map length ps)" by (simp add: ps(1) take_map [symmetric] sorted_wrt_take)
  show "p \<in> set ps \<Longrightarrow> proven_path P sg entry objective p"
    using set_take_subset [of cap "sort_key ?k (found st)"] rest(2) unfolding ps(1) by fastforce
  show "\<not> tr \<Longrightarrow> proven_path P sg entry objective p \<Longrightarrow> p \<in> set ps"
    using rest(2,3) by (auto simp: ps)
qed

end

end
