(* ===== verification/Corroborate.thy ===== *)
theory Corroborate
  imports Walk
begin

text \<open>
  Live corroboration of a chain (\<open>engine/src/engine/reason/proof/corroborate.rs\<close>): the flat
  per-behavior relation \<open>corroborates\<close>, the eight shapes scoped to a proven foothold entry, and
  their disjunction \<open>corroborated_for\<close>. Times are nanoseconds since the epoch;
  \<open>duration_since\<close> is \<open>SystemTime::duration_since\<close>, with \<open>None\<close> for its error.
\<close>

section \<open>Definitions\<close>

record entry_context =
  source_ns :: string
  is_foothold :: bool

definition duration_since :: "time \<Rightarrow> time \<Rightarrow> int option" where
  "duration_since self earlier = (if earlier \<le> self then Some (self - earlier) else None)"

fun corroborates :: "behavior \<Rightarrow> attack_ref \<Rightarrow> bool" where
  "corroborates (Alert _) attack = True"
| "corroborates (NetworkConnection peer internet) attack =
     (internet \<and> a_tactic attack = Exfiltration \<or>
      a_tactic attack = InitialAccess \<and> foothold_peer (NetworkConnection peer internet) \<noteq> None)"
| "corroborates (SecretRead _ source) attack =
     (a_tactic attack = CredentialAccess \<and> source \<noteq> HostPath)"
| "corroborates (LibraryLoaded _) attack = (a_tactic attack = InitialAccess)"
| "corroborates (FileRead _) attack = False"
| "corroborates (ProcessExec _ _) attack = False"
| "corroborates (PrivilegeChange _ _) attack = False"
| "corroborates (FileWrite path) attack = (alarming_write (FileWrite path) \<noteq> None)"
| "corroborates (ImageLinkage _) attack = False"
| "corroborates PtraceAttach attack = False"
| "corroborates ModuleLoad attack = False"

definition cross_tenant_lateral :: "runtime_signal list \<Rightarrow> entry_context \<Rightarrow> bool" where
  "cross_tenant_lateral runtime entry \<longleftrightarrow>
     is_foothold entry \<and>
     list_ex (\<lambda>s. case rs_behavior s of
                NetworkConnection peer _ \<Rightarrow> is_cross_tenant (source_ns entry) peer
              | _ \<Rightarrow> False) runtime"

definition DROP_EXEC_WINDOW :: int where
  "DROP_EXEC_WINDOW = 300 * 1000000000"

definition REVERSE_SHELL_WINDOW :: int where
  "REVERSE_SHELL_WINDOW = 60 * 1000000000"

definition drop_then_execute :: "runtime_signal list \<Rightarrow> entry_context \<Rightarrow> bool" where
  "drop_then_execute runtime entry \<longleftrightarrow>
     is_foothold entry \<and>
     list_ex (\<lambda>exec. case rs_behavior exec of
         ProcessExec epath _ \<Rightarrow>
           list_ex (\<lambda>write. case rs_behavior write of
               FileWrite wpath \<Rightarrow>
                 wpath = epath \<and>
                 (case duration_since (observed_at (rs_provenance exec))
                         (observed_at (rs_provenance write)) of
                    Some elapsed \<Rightarrow> elapsed \<le> DROP_EXEC_WINDOW
                  | None \<Rightarrow> False)
             | _ \<Rightarrow> False) runtime
       | _ \<Rightarrow> False) runtime"

definition privilege_escalation_on_foothold ::
  "runtime_signal list \<Rightarrow> attack_ref \<Rightarrow> entry_context \<Rightarrow> bool" where
  "privilege_escalation_on_foothold runtime attack entry \<longleftrightarrow>
     is_foothold entry \<and> a_tactic attack = PrivilegeEscalation \<and>
     list_ex (\<lambda>s. case rs_behavior s of
                PrivilegeChange uid uid' \<Rightarrow> uid \<noteq> 0 \<and> uid' = 0
              | _ \<Rightarrow> False) runtime"

definition host_credential_read_on_foothold ::
  "runtime_signal list \<Rightarrow> attack_ref \<Rightarrow> entry_context \<Rightarrow> bool" where
  "host_credential_read_on_foothold runtime attack entry \<longleftrightarrow>
     is_foothold entry \<and> a_tactic attack = CredentialAccess \<and>
     list_ex (\<lambda>s. case rs_behavior s of SecretRead _ source \<Rightarrow> source = HostPath | _ \<Rightarrow> False) runtime"

definition anon_inode_exec_on_foothold ::
  "runtime_signal list \<Rightarrow> attack_ref \<Rightarrow> entry_context \<Rightarrow> bool" where
  "anon_inode_exec_on_foothold runtime attack entry \<longleftrightarrow>
     is_foothold entry \<and> a_tactic attack = Execution \<and>
     list_ex (\<lambda>s. case rs_behavior s of ProcessExec _ anon \<Rightarrow> anon | _ \<Rightarrow> False) runtime"

definition ptrace_attach_on_foothold ::
  "runtime_signal list \<Rightarrow> attack_ref \<Rightarrow> entry_context \<Rightarrow> bool" where
  "ptrace_attach_on_foothold runtime attack entry \<longleftrightarrow>
     is_foothold entry \<and> a_tactic attack = PrivilegeEscalation \<and>
     list_ex (\<lambda>s. rs_behavior s = PtraceAttach) runtime"

definition module_load_on_foothold ::
  "runtime_signal list \<Rightarrow> attack_ref \<Rightarrow> entry_context \<Rightarrow> bool" where
  "module_load_on_foothold runtime attack entry \<longleftrightarrow>
     is_foothold entry \<and> a_tactic attack = PrivilegeEscalation \<and>
     list_ex (\<lambda>s. rs_behavior s = ModuleLoad) runtime"

definition reverse_shell_on_foothold :: "runtime_signal list \<Rightarrow> entry_context \<Rightarrow> bool" where
  "reverse_shell_on_foothold runtime entry =
     (if \<not> is_foothold entry then False
      else
        (let shells = map (\<lambda>s. observed_at (rs_provenance s))
               (filter (\<lambda>s. is_interactive_shell (rs_behavior s)) runtime)
         in if shells = [] then False
            else list_ex (\<lambda>s. case rs_behavior s of
                NetworkConnection _ True \<Rightarrow>
                  (let egress_at = observed_at (rs_provenance s)
                   in list_ex (\<lambda>shell_at.
                        (case (case duration_since egress_at shell_at of
                                 Some gap \<Rightarrow> Some gap
                               | None \<Rightarrow> duration_since shell_at egress_at) of
                           Some gap \<Rightarrow> gap \<le> REVERSE_SHELL_WINDOW
                         | None \<Rightarrow> False)) shells)
              | _ \<Rightarrow> False) runtime))"

definition corroborated_for ::
  "runtime_signal list \<Rightarrow> attack_ref \<Rightarrow> attack_ref option \<Rightarrow> entry_context \<Rightarrow> bool" where
  "corroborated_for runtime attack foothold entry \<longleftrightarrow>
     list_ex (\<lambda>s. corroborates (rs_behavior s) attack \<or>
                (case foothold of Some f \<Rightarrow> corroborates (rs_behavior s) f | None \<Rightarrow> False)) runtime \<or>
     cross_tenant_lateral runtime entry \<or>
     privilege_escalation_on_foothold runtime attack entry \<or>
     drop_then_execute runtime entry \<or>
     host_credential_read_on_foothold runtime attack entry \<or>
     anon_inode_exec_on_foothold runtime attack entry \<or>
     ptrace_attach_on_foothold runtime attack entry \<or>
     module_load_on_foothold runtime attack entry \<or>
     reverse_shell_on_foothold runtime entry"

definition entry_runtime :: "'g petgraph \<Rightarrow> 'g security_graph \<Rightarrow> nat \<Rightarrow> runtime_signal list" where
  "entry_runtime P sg entry =
     (case pg_node_weight P (sg_graph sg) entry of Some (Workload w) \<Rightarrow> w_runtime w | _ \<Rightarrow> [])"

definition entry_namespace :: "'g petgraph \<Rightarrow> 'g security_graph \<Rightarrow> nat \<Rightarrow> string" where
  "entry_namespace P sg entry =
     (case pg_node_weight P (sg_graph sg) entry of Some (Workload w) \<Rightarrow> w_namespace w | _ \<Rightarrow> [])"

lemmas shape_defs = cross_tenant_lateral_def privilege_escalation_on_foothold_def
  drop_then_execute_def host_credential_read_on_foothold_def anon_inode_exec_on_foothold_def
  ptrace_attach_on_foothold_def module_load_on_foothold_def reverse_shell_on_foothold_def

section \<open>Lemmas\<close>

lemma duration_either:
  "(case duration_since a b of Some gap \<Rightarrow> Some gap | None \<Rightarrow> duration_since b a) = Some \<bar>a - b\<bar>"
  by (auto simp: duration_since_def)

lemma case_behavior:
  "(case b of NetworkConnection p True \<Rightarrow> X p | _ \<Rightarrow> False) \<longleftrightarrow> (\<exists>p. b = NetworkConnection p True \<and> X p)"
  "(case b of ProcessExec p anon \<Rightarrow> Y p | _ \<Rightarrow> False) \<longleftrightarrow> (\<exists>p anon. b = ProcessExec p anon \<and> Y p)"
  "(case b of FileWrite p \<Rightarrow> Z p | _ \<Rightarrow> False) \<longleftrightarrow> (\<exists>p. b = FileWrite p \<and> Z p)"
  "(case b of SecretRead k src \<Rightarrow> V k src | _ \<Rightarrow> False) \<longleftrightarrow> (\<exists>k src. b = SecretRead k src \<and> V k src)"
  "(case b of PrivilegeChange u u' \<Rightarrow> W u u' | _ \<Rightarrow> False) \<longleftrightarrow> (\<exists>u u'. b = PrivilegeChange u u' \<and> W u u')"
  by (auto split: behavior.split bool.split)

lemma case_duration:
  "(case duration_since t u of Some d \<Rightarrow> d \<le> w | None \<Rightarrow> False) \<longleftrightarrow> 0 \<le> t - u \<and> t - u \<le> w"
  by (auto simp: duration_since_def)

lemma reverse_shell_iff:
  "reverse_shell_on_foothold runtime entry \<longleftrightarrow>
     is_foothold entry \<and>
     (\<exists>s\<in>set runtime. \<exists>c\<in>set runtime. \<exists>peer.
        is_interactive_shell (rs_behavior s) \<and> rs_behavior c = NetworkConnection peer True \<and>
        \<bar>observed_at (rs_provenance c) - observed_at (rs_provenance s)\<bar> \<le> REVERSE_SHELL_WINDOW)"
  unfolding reverse_shell_on_foothold_def Let_def duration_either list_ex_iff case_behavior
  by (auto simp: filter_empty_conv)

lemma drop_then_execute_iff:
  "drop_then_execute runtime entry \<longleftrightarrow>
     is_foothold entry \<and>
     (\<exists>w\<in>set runtime. \<exists>x\<in>set runtime. \<exists>path anon.
        rs_behavior w = FileWrite path \<and> rs_behavior x = ProcessExec path anon \<and>
        0 \<le> observed_at (rs_provenance x) - observed_at (rs_provenance w) \<and>
        observed_at (rs_provenance x) - observed_at (rs_provenance w) \<le> DROP_EXEC_WINDOW)"
  unfolding drop_then_execute_def list_ex_iff case_behavior case_duration by blast

lemma list_ex_mono_set: "list_ex p xs \<Longrightarrow> set xs \<subseteq> set ys \<Longrightarrow> list_ex p ys"
  by (auto simp: list_ex_iff)

lemma reverse_shell_mono:
  "reverse_shell_on_foothold xs entry \<Longrightarrow> set xs \<subseteq> set ys \<Longrightarrow> reverse_shell_on_foothold ys entry"
  unfolding reverse_shell_iff by blast

lemma drop_then_execute_mono:
  "drop_then_execute xs entry \<Longrightarrow> set xs \<subseteq> set ys \<Longrightarrow> drop_then_execute ys entry"
  unfolding drop_then_execute_iff by blast

lemma shapes_need_foothold:
  assumes "\<not> is_foothold entry"
  shows "corroborated_for runtime attack foothold entry \<longleftrightarrow>
    (\<exists>s\<in>set runtime. corroborates (rs_behavior s) attack \<or>
       (\<exists>f. foothold = Some f \<and> corroborates (rs_behavior s) f))"
  using assms
  by (auto simp: corroborated_for_def shape_defs list_ex_iff split: option.split)

section \<open>Properties\<close>

text \<open>
  Corroboration is monotone: a chain that is corroborated by some runtime signals stays
  corroborated when more signals arrive, in any order. No later observation can take a live finding
  back.
\<close>

theorem corroborated_for_monotone:
  assumes "set runtime \<subseteq> set runtime'" and "corroborated_for runtime attack foothold entry"
  shows "corroborated_for runtime' attack foothold entry"
  using assms reverse_shell_mono [OF _ assms(1)] drop_then_execute_mono [OF _ assms(1)]
  unfolding corroborated_for_def cross_tenant_lateral_def privilege_escalation_on_foothold_def
    host_credential_read_on_foothold_def anon_inode_exec_on_foothold_def
    ptrace_attach_on_foothold_def module_load_on_foothold_def
  by (blast intro: list_ex_mono_set [OF _ assms(1)])

definition signal_at :: "time \<Rightarrow> behavior \<Rightarrow> runtime_signal" where
  "signal_at t b = \<lparr>rs_behavior = b, rs_provenance = \<lparr>p_source = ''agent'', observed_at = t\<rparr>\<rparr>"

theorem corroborated_for_monotone_witness:
  "corroborated_for
     [signal_at 90000000000 (NetworkConnection ''203.0.113.9:4444'' True),
      signal_at 7 (LibraryLoaded ''libssl''),
      signal_at 45000000000 (ProcessExec ''/bin/bash'' False)]
     DATA_FROM_REPOSITORY None \<lparr>source_ns = ''app'', is_foothold = True\<rparr>"
  by (rule corroborated_for_monotone
      [of "[signal_at 45000000000 (ProcessExec ''/bin/bash'' False),
            signal_at 90000000000 (NetworkConnection ''203.0.113.9:4444'' True)]"])
     (auto simp: corroborated_for_def reverse_shell_iff signal_at_def INTERACTIVE_SHELLS_def
        basename_def REVERSE_SHELL_WINDOW_def)

text \<open>
  The reverse-shell shape is exact and symmetric: on a foothold it fires precisely when some
  interactive-shell exec and some internet connection lie at most sixty seconds apart, whichever came
  first; off a foothold it never fires.
\<close>

theorem reverse_shell_symmetric_window:
  "reverse_shell_on_foothold runtime entry \<longleftrightarrow>
     is_foothold entry \<and>
     (\<exists>s\<in>set runtime. \<exists>c\<in>set runtime. \<exists>peer.
        is_interactive_shell (rs_behavior s) \<and> rs_behavior c = NetworkConnection peer True \<and>
        \<bar>observed_at (rs_provenance c) - observed_at (rs_provenance s)\<bar> \<le> 60 * 10 ^ 9)"
  by (simp add: reverse_shell_iff REVERSE_SHELL_WINDOW_def)

text \<open>The behaviors an operator produces in the normal course of work.\<close>

fun ordinary :: "behavior \<Rightarrow> bool" where
  "ordinary (ProcessExec _ _) = True"
| "ordinary (PrivilegeChange _ _) = True"
| "ordinary PtraceAttach = True"
| "ordinary ModuleLoad = True"
| "ordinary (SecretRead _ source) = (source = HostPath)"
| "ordinary (FileWrite path) = (alarming_write (FileWrite path) = None)"
| "ordinary (NetworkConnection peer internet) =
     (\<not> internet \<and> foothold_peer (NetworkConnection peer internet) = None)"
| "ordinary (FileRead _) = True"
| "ordinary (ImageLinkage _) = True"
| "ordinary _ = False"

text \<open>
  The on-call-engineer guard: on an entry that is not a proven foothold, a workload whose signals
  are only execs, privilege changes, ptrace attaches, module loads, on-host credential reads, file
  writes that are not alarming and in-cluster connections is never corroborated, whatever the
  objective.
\<close>

theorem ordinary_activity_never_corroborates:
  assumes "\<not> is_foothold entry" and "\<forall>s\<in>set runtime. ordinary (rs_behavior s)"
  shows "\<not> corroborated_for runtime attack foothold entry"
proof -
  have "ordinary b \<Longrightarrow> \<not> corroborates b a" for b a
    by (cases "(b, a)" rule: corroborates.cases) auto
  with assms show ?thesis by (auto simp: shapes_need_foothold)
qed

theorem ordinary_activity_never_corroborates_witness:
  "\<not> corroborated_for
     [signal_at 0 (ProcessExec ''/bin/bash'' False), signal_at 1 (PrivilegeChange 1000 0),
      signal_at 2 (FileWrite ''/data/log'')]
     RBAC_ESCALATION None \<lparr>source_ns = ''app'', is_foothold = False\<rparr>"
  by (rule ordinary_activity_never_corroborates) code_simp+

end
