(* ===== verification/Boundary.thy ===== *)
theory Boundary
  imports Corroborate
begin

text \<open>
  The pod-boundary break predicate (\<open>engine/src/engine/reason/proof/boundary_break.rs\<close>) with the
  live-exploitation predicate \<open>actively_exploited\<close> of \<open>proof/chain.rs\<close>. The set of workloads the
  model named an attack is a sorted list of node keys.
\<close>

section \<open>Definitions\<close>

definition actively_exploited :: "'g petgraph \<Rightarrow> 'g security_graph \<Rightarrow> nat \<Rightarrow> bool" where
  "actively_exploited P sg n \<longleftrightarrow>
     (case pg_node_weight P (sg_graph sg) n of
        Some (Workload w) \<Rightarrow> list_ex (\<lambda>s. is_alarming_now (rs_behavior s)) (w_runtime w)
      | _ \<Rightarrow> False)"

definition host_path_secret_read :: "'g petgraph \<Rightarrow> 'g security_graph \<Rightarrow> nat \<Rightarrow> bool" where
  "host_path_secret_read P sg x \<longleftrightarrow>
     list_ex (\<lambda>s. case rs_behavior s of SecretRead _ source \<Rightarrow> source = HostPath | _ \<Rightarrow> False)
       (entry_runtime P sg x)"

definition has_outgoing_escape :: "'g petgraph \<Rightarrow> 'g security_graph \<Rightarrow> nat \<Rightarrow> bool" where
  "has_outgoing_escape P sg x \<longleftrightarrow>
     list_ex (\<lambda>r. case e_relation (er_weight r) of EscapesTo _ \<Rightarrow> True | _ \<Rightarrow> False)
       (pg_edges P (sg_graph sg) x)"

definition root_escalation_with_escape :: "'g petgraph \<Rightarrow> 'g security_graph \<Rightarrow> nat \<Rightarrow> bool" where
  "root_escalation_with_escape P sg x \<longleftrightarrow>
     list_ex (\<lambda>s. case rs_behavior s of
                PrivilegeChange uid uid' \<Rightarrow> uid \<noteq> 0 \<and> uid' = 0
              | _ \<Rightarrow> False) (entry_runtime P sg x) \<and>
     has_outgoing_escape P sg x"

definition kernel_tamper :: "'g petgraph \<Rightarrow> 'g security_graph \<Rightarrow> nat \<Rightarrow> bool" where
  "kernel_tamper P sg x \<longleftrightarrow>
     list_ex (\<lambda>s. rs_behavior s = PtraceAttach \<or> rs_behavior s = ModuleLoad) (entry_runtime P sg x)"

definition is_decisive_attack_and_exploited ::
  "'g petgraph \<Rightarrow> 'g security_graph \<Rightarrow> nat \<Rightarrow> node_key list \<Rightarrow> bool" where
  "is_decisive_attack_and_exploited P sg n model_attack \<longleftrightarrow>
     actively_exploited P sg n \<and>
     (case key_of P sg n of Some k \<Rightarrow> k \<in> set model_attack | None \<Rightarrow> False)"

definition scheduled_host :: "'g petgraph \<Rightarrow> 'g security_graph \<Rightarrow> nat \<Rightarrow> nat option" where
  "scheduled_host P sg x =
     map_option er_target
       (find (\<lambda>r. e_relation (er_weight r) = ScheduledOn) (pg_edges P (sg_graph sg) x))"

definition co_resident_dual_compromise ::
  "'g petgraph \<Rightarrow> 'g security_graph \<Rightarrow> nat \<Rightarrow> node_key list \<Rightarrow> bool" where
  "co_resident_dual_compromise P sg x model_attack =
     (if \<not> is_decisive_attack_and_exploited P sg x model_attack then False
      else (case scheduled_host P sg x of
              None \<Rightarrow> False
            | Some h \<Rightarrow>
                list_ex (\<lambda>n. is_decisive_attack_and_exploited P sg n model_attack)
                  (filter (\<lambda>n. n \<noteq> x)
                    (map er_source
                      (filter (\<lambda>r. e_relation (er_weight r) = ScheduledOn)
                        (pg_edges_incoming P (sg_graph sg) h))))))"

definition boundary_break :: "'g petgraph \<Rightarrow> 'g security_graph \<Rightarrow> nat \<Rightarrow> node_key list \<Rightarrow> bool" where
  "boundary_break P sg x model_attack \<longleftrightarrow>
     host_path_secret_read P sg x \<or>
     root_escalation_with_escape P sg x \<or>
     kernel_tamper P sg x \<or>
     co_resident_dual_compromise P sg x model_attack"

lemmas boundary_defs = boundary_break_def host_path_secret_read_def root_escalation_with_escape_def
  kernel_tamper_def co_resident_dual_compromise_def has_outgoing_escape_def

section \<open>Lemmas\<close>

lemma actively_exploited_workload:
  assumes "actively_exploited P sg n"
  shows "\<exists>w. pg_node_weight P (sg_graph sg) n = Some (Workload w)"
proof (cases "pg_node_weight P (sg_graph sg) n")
  case (Some m)
  with assms show ?thesis by (cases m) (simp_all add: actively_exploited_def)
qed (use assms in \<open>simp add: actively_exploited_def\<close>)

lemma entry_runtime_workload:
  assumes "s \<in> set (entry_runtime P sg x)"
  shows "\<exists>w. pg_node_weight P (sg_graph sg) x = Some (Workload w)"
proof (cases "pg_node_weight P (sg_graph sg) x")
  case (Some m)
  with assms show ?thesis by (cases m) (simp_all add: entry_runtime_def)
qed (use assms in \<open>simp add: entry_runtime_def\<close>)

lemma boundary_break_workload:
  assumes "boundary_break P sg x attack"
  shows "\<exists>w. pg_node_weight P (sg_graph sg) x = Some (Workload w)"
proof -
  have "entry_runtime P sg x \<noteq> [] \<or> actively_exploited P sg x"
    using assms by (cases "entry_runtime P sg x")
      (simp_all add: boundary_defs is_decisive_attack_and_exploited_def split: if_splits)
  then show ?thesis
    using entry_runtime_workload [of "hd (entry_runtime P sg x)" P sg x] actively_exploited_workload
    by auto
qed

text \<open>Placement: two different workloads placed on the same host.\<close>

definition placed_on :: "'g petgraph \<Rightarrow> 'g security_graph \<Rightarrow> nat \<Rightarrow> nat \<Rightarrow> bool" where
  "placed_on P sg x h \<longleftrightarrow>
     (\<exists>r\<in>set (pg_edge_references P (sg_graph sg)).
        er_source r = x \<and> er_target r = h \<and> e_relation (er_weight r) = ScheduledOn)"

context stable_graph
begin

lemma scheduled_host_Some:
  assumes "scheduled_host P sg x = Some h"
  shows "placed_on P sg x h"
proof -
  from assms obtain r where "find (\<lambda>r. e_relation (er_weight r) = ScheduledOn)
      (pg_edges P (sg_graph sg) x) = Some r" "er_target r = h"
    by (auto simp: scheduled_host_def)
  then have "r \<in> set (pg_edges P (sg_graph sg) x)" "e_relation (er_weight r) = ScheduledOn"
    by (auto dest: find_SomeD)
  with \<open>er_target r = h\<close> show ?thesis unfolding placed_on_def edges_out by blast
qed

lemma scheduled_host_single:
  assumes "placed_on P sg x h" and "\<And>h'. placed_on P sg x h' \<Longrightarrow> h' = h"
  shows "scheduled_host P sg x = Some h"
proof -
  from assms(1) obtain r where "r \<in> set (pg_edges P (sg_graph sg) x)"
    "e_relation (er_weight r) = ScheduledOn" by (auto simp: placed_on_def edges_out)
  then have "scheduled_host P sg x \<noteq> None"
    by (auto simp: scheduled_host_def find_None_iff)
  with assms(2) scheduled_host_Some show ?thesis by blast
qed

lemma placed_sources:
  "n \<in> set (filter (\<lambda>n. n \<noteq> x) (map er_source
       (filter (\<lambda>r. e_relation (er_weight r) = ScheduledOn) (pg_edges_incoming P (sg_graph sg) h)))) \<longleftrightarrow>
     n \<noteq> x \<and> placed_on P sg n h"
  unfolding placed_on_def set_filter set_map edges_in by blast

lemma co_resident_iff:
  assumes "scheduled_host P sg x = Some h"
  shows "co_resident_dual_compromise P sg x attack \<longleftrightarrow>
    is_decisive_attack_and_exploited P sg x attack \<and>
    (\<exists>n. n \<noteq> x \<and> placed_on P sg n h \<and> is_decisive_attack_and_exploited P sg n attack)"
  unfolding co_resident_dual_compromise_def assms option.case list_ex_iff Bex_def placed_sources
  by simp

end

end
