(* ===== verification/Adjacency.thy ===== *)
theory Adjacency
  imports Graph
begin

text \<open>
  A concrete container that satisfies the laws of \<open>stable_graph\<close>: the history of insertions, with
  node indices in insertion order and the most recent edge listed first. It is the instance on which
  the examples of the development are evaluated, and it discharges the laws of the interface.
\<close>

datatype adj_graph =
    AdjEmpty
  | AdjNode adj_graph node
  | AdjSet adj_graph nat node
  | AdjEdge adj_graph nat nat edge

fun adj_nodes :: "adj_graph \<Rightarrow> node list" where
  "adj_nodes AdjEmpty = []"
| "adj_nodes (AdjNode g n) = adj_nodes g @ [n]"
| "adj_nodes (AdjSet g i n) = (adj_nodes g)[i := n]"
| "adj_nodes (AdjEdge g _ _ _) = adj_nodes g"

fun adj_refs :: "adj_graph \<Rightarrow> edge_ref list" where
  "adj_refs AdjEmpty = []"
| "adj_refs (AdjNode g _) = adj_refs g"
| "adj_refs (AdjSet g _ _) = adj_refs g"
| "adj_refs (AdjEdge g i j w) =
     (if i < length (adj_nodes g) \<and> j < length (adj_nodes g)
      then \<lparr>er_id = length (adj_refs g), er_source = i, er_target = j, er_weight = w\<rparr> # adj_refs g
      else adj_refs g)"

definition adj_weight :: "adj_graph \<Rightarrow> nat \<Rightarrow> node option" where
  "adj_weight g i = (if i < length (adj_nodes g) then Some (adj_nodes g ! i) else None)"

definition adj_ops :: "adj_graph petgraph" where
  "adj_ops =
    \<lparr>pg_new = AdjEmpty,
     pg_add_node = (\<lambda>g n. (AdjNode g n, length (adj_nodes g))),
     pg_set_weight = AdjSet,
     pg_add_edge = AdjEdge,
     pg_node_indices = (\<lambda>g. [0..<length (adj_nodes g)]),
     pg_node_weight = adj_weight,
     pg_node_weights = adj_nodes,
     pg_edge_weight = (\<lambda>g e. map_option er_weight (find (\<lambda>r. er_id r = e) (adj_refs g))),
     pg_edges = (\<lambda>g u. filter (\<lambda>r. er_source r = u) (adj_refs g)),
     pg_edges_incoming = (\<lambda>g u. filter (\<lambda>r. er_target r = u) (adj_refs g)),
     pg_edge_references = adj_refs\<rparr>"

lemma adj_refs_ends:
  "r \<in> set (adj_refs g) \<Longrightarrow> er_source r < length (adj_nodes g) \<and> er_target r < length (adj_nodes g)"
  by (induction g) (auto split: if_splits)

lemma adj_refs_ids:
  "distinct (map er_id (adj_refs g)) \<and> (\<forall>r\<in>set (adj_refs g). er_id r < length (adj_refs g))"
  by (induction g) auto

lemma adj_refs_distinct: "distinct (adj_refs g)"
  using adj_refs_ids by (simp add: distinct_map)

lemma find_distinct_key:
  assumes "distinct (map f xs)"
  shows "map_option h (find (\<lambda>x. f x = k) xs) = Some w \<longleftrightarrow> (\<exists>x\<in>set xs. f x = k \<and> h x = w)"
  using assms by (induction xs) (auto simp: image_iff)

interpretation adj: stable_graph adj_ops
proof
  fix g :: adj_graph and e w
  show "(pg_edge_weight adj_ops g e = Some w) =
      (\<exists>r\<in>set (pg_edge_references adj_ops g). er_id r = e \<and> er_weight r = w)"
    using find_distinct_key [of er_id "adj_refs g" er_weight e w] adj_refs_ids [of g]
    by (simp add: adj_ops_def)
qed (auto simp: adj_ops_def adj_weight_def adj_refs_ids adj_refs_distinct adj_refs_ends nth_append
       nth_list_update fun_eq_iff map_nth dom_def intro!: nth_equalityI)

text \<open>Evaluation of the interface on the adjacency container.\<close>

lemmas adj_eval = adj_ops_def adj_weight_def

end
