(* ===== verification/Example.thy ===== *)
theory Example
  imports Adjacency
begin

text \<open>
  A small cluster on the adjacency container, built through the operations of the graph store: an
  internet-facing workload \<open>web\<close> that runs an image with a critical vulnerability, can read the secret
  \<open>db-creds\<close> and reaches the internal workload \<open>api\<close>, which runs no vulnerable image and can read
  the secret \<open>tls\<close>. The witnesses of the theorems on the proof are evaluated on it.
\<close>

datatype graph_op = Upsert node | Connect nat nat edge

fun run_ops :: "'g petgraph \<Rightarrow> graph_op list \<Rightarrow> 'g security_graph \<Rightarrow> 'g security_graph option" where
  "run_ops P [] sg = Some sg"
| "run_ops P (Upsert n # ops) sg =
     (case upsert_node P n sg of Some (sg', _) \<Rightarrow> run_ops P ops sg' | None \<Rightarrow> None)"
| "run_ops P (Connect s t e # ops) sg =
     (case add_edge P s t e sg of Some sg' \<Rightarrow> run_ops P ops sg' | None \<Rightarrow> None)"

lemma run_ops_built: "built P sg \<Longrightarrow> run_ops P ops sg = Some sg' \<Longrightarrow> built P sg'"
proof (induction ops arbitrary: sg)
  case (Cons op ops)
  show ?case
  proof (cases op)
    case (Upsert n)
    with Cons.prems obtain sg1 i where "upsert_node P n sg = Some (sg1, i)" "run_ops P ops sg1 = Some sg'"
      by (auto split: option.splits)
    with Cons show ?thesis using built_upsert by blast
  next
    case (Connect s t e)
    with Cons.prems obtain sg1 where "add_edge P s t e sg = Some sg1" "run_ops P ops sg1 = Some sg'"
      by (auto split: option.splits)
    with Cons show ?thesis using built_edge by blast
  qed
qed simp

definition ex_prov :: provenance where
  "ex_prov = \<lparr>p_source = ''kube'', observed_at = 0\<rparr>"

definition ex_workload :: "string \<Rightarrow> exposure \<Rightarrow> runtime_signal list \<Rightarrow> workload" where
  "ex_workload name exp rt =
     \<lparr>w_namespace = ''app'', w_name = name, w_kind = ''Deployment'', w_labels = [(''app'', name)],
      meshed = False, w_exposure = exp, w_runtime = rt, persistent = False, misconfigs = [],
      rbac_findings = []\<rparr>"

definition ex_cve :: vulnerability where
  "ex_cve = \<lparr>v_id = ''CVE-2021-44228'', v_severity = Critical, exploited_in_wild = True, epss = None,
     v_sources = [ex_prov], v_reachability = ReachUnknown, pkg_name = None, installed_version = None,
     fixed_version = None, v_title = None, primary_link = None, v_score = None\<rparr>"

definition ex_image :: image where
  "ex_image = \<lparr>im_digest = ''sha256:1'', im_reference = None, im_trust = TrustUnknown,
     vulnerabilities = [ex_cve], exposed_secrets = [], static_binary = None\<rparr>"

definition ex_edge :: "relation \<Rightarrow> edge" where
  "ex_edge r = \<lparr>e_relation = r, e_provenance = ex_prov\<rparr>"

definition ex_web :: workload where
  "ex_web = ex_workload ''web'' Internet
     [\<lparr>rs_behavior = ProcessExec ''/bin/bash'' False, rs_provenance = ex_prov\<rparr>]"

definition ex_ops :: "graph_op list" where
  "ex_ops =
     [Upsert (Workload ex_web),
      Upsert (Image ex_image),
      Upsert (Secret \<lparr>s_namespace = ''app'', s_name = ''db-creds''\<rparr>),
      Upsert (Workload (ex_workload ''api'' Internal [])),
      Upsert (Secret \<lparr>s_namespace = ''app'', s_name = ''tls''\<rparr>),
      Connect 0 1 (ex_edge RunsImage),
      Connect 0 2 (ex_edge CanRead),
      Connect 0 3 (ex_edge (Reaches (Some 8080) Tcp)),
      Connect 3 4 (ex_edge CanRead)]"

definition ex_graph :: adj_graph where
  "ex_graph =
     AdjEdge (AdjEdge (AdjEdge (AdjEdge
      (AdjNode (AdjNode (AdjNode (AdjNode (AdjNode AdjEmpty
         (Workload ex_web)) (Image ex_image))
         (Secret \<lparr>s_namespace = ''app'', s_name = ''db-creds''\<rparr>))
         (Workload (ex_workload ''api'' Internal [])))
         (Secret \<lparr>s_namespace = ''app'', s_name = ''tls''\<rparr>))
       0 1 (ex_edge RunsImage)) 0 2 (ex_edge CanRead)) 0 3 (ex_edge (Reaches (Some 8080) Tcp)))
       3 4 (ex_edge CanRead)"

definition ex_sg :: "adj_graph security_graph" where
  "ex_sg = \<lparr>sg_graph = ex_graph,
     sg_index = [(''image/sha256:1'', 1), (''secret/app/db-creds'', 2), (''secret/app/tls'', 4),
                 (''workload/app/Deployment/api'', 3), (''workload/app/Deployment/web'', 0)],
     sg_incomplete = False\<rparr>"

lemma ex_run: "run_ops adj_ops ex_ops (sg_new adj_ops) = Some ex_sg"
  by code_simp

lemma ex_built: "built adj_ops ex_sg"
  using run_ops_built [OF built_new ex_run] .

text \<open>A workload with a ptrace attach on it, and a workload with two ways to the same secret.\<close>

definition brk_sg :: "adj_graph security_graph" where
  "brk_sg = \<lparr>sg_graph = AdjNode AdjEmpty (Workload (ex_workload ''web'' Internal
       [\<lparr>rs_behavior = PtraceAttach, rs_provenance = ex_prov\<rparr>])),
     sg_index = [(''workload/app/Deployment/web'', 0)], sg_incomplete = False\<rparr>"

definition two_ways :: "adj_graph security_graph" where
  "two_ways = \<lparr>sg_graph =
     AdjEdge (AdjEdge (AdjEdge (AdjEdge
      (AdjNode (AdjNode (AdjNode (AdjNode AdjEmpty
         (Workload (ex_workload ''web'' Internet [])))
         (Identity \<lparr>i_namespace = ''app'', i_name = ''a''\<rparr>))
         (Identity \<lparr>i_namespace = ''app'', i_name = ''b''\<rparr>))
         (Secret \<lparr>s_namespace = ''app'', s_name = ''tls''\<rparr>))
       0 1 (ex_edge RunsAs)) 1 3 (ex_edge CanRead)) 0 2 (ex_edge RunsAs)) 2 3 (ex_edge CanRead),
     sg_index = [(''identity/app/a'', 1), (''identity/app/b'', 2), (''secret/app/tls'', 3),
                 (''workload/app/Deployment/web'', 0)],
     sg_incomplete = False\<rparr>"

end
