(* ===== verification/Prove.thy ===== *)
theory Prove
  imports Paths Boundary Example "HOL-Library.Monad_Syntax"
begin

text \<open>
  Objectives (\<open>engine/src/engine/reason/objective.rs\<close>), the links and quarantine targets of a chain
  (\<open>reason/proof/chain.rs\<close>) and the proof itself (\<open>reason/proof/mod.rs\<close>). A result of \<open>None\<close> is a
  panic of the code or a loop that does not end; the totality theorem shows that neither happens.
\<close>

section \<open>Objectives\<close>

record objective =
  o_node :: node_key
  o_attack :: attack_ref

definition secret_objective :: "'g petgraph \<Rightarrow> 'g security_graph \<Rightarrow> objective list" where
  "secret_objective P sg =
     map (\<lambda>n. \<lparr>o_node = key n, o_attack = CREDENTIAL_ACCESS\<rparr>)
       (filter (\<lambda>n. case n of Secret _ \<Rightarrow> True | _ \<Rightarrow> False) (pg_node_weights P (sg_graph sg)))"

definition host_objective :: "'g petgraph \<Rightarrow> 'g security_graph \<Rightarrow> objective list" where
  "host_objective P sg =
     map (\<lambda>n. \<lparr>o_node = key n, o_attack = ESCAPE_TO_HOST\<rparr>)
       (filter (\<lambda>n. case n of Host _ \<Rightarrow> True | _ \<Rightarrow> False) (pg_node_weights P (sg_graph sg)))"

definition capability_objective :: "'g petgraph \<Rightarrow> 'g security_graph \<Rightarrow> objective list" where
  "capability_objective P sg =
     List.map_filter
       (\<lambda>n. case n of
              Capability c \<Rightarrow>
                map_option (\<lambda>attack. \<lparr>o_node = key n, o_attack = attack\<rparr>)
                  (capability_technique (c_verb c) (c_resource c))
            | _ \<Rightarrow> None)
       (pg_node_weights P (sg_graph sg))"

definition exfiltration_objective :: "'g petgraph \<Rightarrow> 'g security_graph \<Rightarrow> objective list" where
  "exfiltration_objective P sg =
     map (\<lambda>n. \<lparr>o_node = key n, o_attack = EXFILTRATION\<rparr>)
       (filter (\<lambda>n. case n of Endpoint e \<Rightarrow> e_address e = ''internet'' | _ \<Rightarrow> False)
         (pg_node_weights P (sg_graph sg)))"

definition data_store_objective :: "'g petgraph \<Rightarrow> 'g security_graph \<Rightarrow> objective list" where
  "data_store_objective P sg =
     map (\<lambda>n. \<lparr>o_node = key n, o_attack = DATA_FROM_REPOSITORY\<rparr>)
       (filter (\<lambda>n. case n of Workload w \<Rightarrow> persistent w | _ \<Rightarrow> False)
         (pg_node_weights P (sg_graph sg)))"

type_synonym 'g recognizer = "'g security_graph \<Rightarrow> objective list"

definition default_recognizers :: "'g petgraph \<Rightarrow> 'g recognizer list" where
  "default_recognizers P =
     [secret_objective P, host_objective P, capability_objective P, exfiltration_objective P,
      data_store_objective P]"

section \<open>Links and quarantine targets\<close>

record link =
  l_from :: node_key
  l_to :: node_key
  l_relation :: string
  l_technique :: "attack_ref option"
  from_labels :: "(string, string) btree"
  to_labels :: "(string, string) btree"

datatype quarantine_reason = RemotelyExploitable | ActivelyExploited

text \<open>The em dash of the disposition labels is written as its UTF-8 bytes.\<close>

definition em_dash :: string where
  "em_dash = [CHR 0xE2, CHR 0x80, CHR 0x94]"

fun disposition :: "quarantine_reason \<Rightarrow> string" where
  "disposition RemotelyExploitable = ''quarantine '' @ em_dash @ '' remotely exploitable''"
| "disposition ActivelyExploited = ''quarantine '' @ em_dash @ '' actively exploited''"

record quarantine_target =
  qt_node :: node_key
  qt_labels :: "(string, string) btree"
  qt_reason :: quarantine_reason

definition is_network_hop :: "'g petgraph \<Rightarrow> 'g security_graph \<Rightarrow> nat \<Rightarrow> bool" where
  "is_network_hop P sg e \<longleftrightarrow>
     (case pg_edge_weight P (sg_graph sg) e of
        Some w \<Rightarrow>
          (case e_relation w of Reaches _ _ \<Rightarrow> True | CanEgress _ \<Rightarrow> True | _ \<Rightarrow> False)
      | None \<Rightarrow> False)"

definition net_step ::
  "'g petgraph \<Rightarrow> 'g security_graph \<Rightarrow> nat \<times> nat \<times> nat \<Rightarrow> (nat \<rightharpoonup> bool) \<Rightarrow> (nat \<rightharpoonup> bool)" where
  "net_step P sg step net =
     (case step of (src, dst, e) \<Rightarrow>
        net(dst \<mapsto> ((case net src of Some b \<Rightarrow> b | None \<Rightarrow> False) \<and> is_network_hop P sg e)))"

fun target_loop ::
  "'g petgraph \<Rightarrow> 'g security_graph \<Rightarrow> nat \<Rightarrow> (nat \<rightharpoonup> bool) \<Rightarrow> nat set \<Rightarrow> nat list \<Rightarrow>
     quarantine_target list option" where
  "target_loop P sg entry net seen [] = Some []"
| "target_loop P sg entry net seen (n # rest) =
     (if n \<in> seen then target_loop P sg entry net seen rest
      else
        (case pg_node_weight P (sg_graph sg) n of
           Some (Workload w) \<Rightarrow>
             (let reason =
                (if actively_exploited P sg n then Some ActivelyExploited
                 else if n \<noteq> entry \<and> (case net n of Some b \<Rightarrow> b | None \<Rightarrow> False) \<and>
                      compromisable P sg n
                 then Some RemotelyExploitable
                 else None)
              in case reason of
                   None \<Rightarrow> target_loop P sg entry net (insert n seen) rest
                 | Some why \<Rightarrow>
                     do {
                       k \<leftarrow> key_of P sg n;
                       more \<leftarrow> target_loop P sg entry net (insert n seen) rest;
                       Some (\<lparr>qt_node = k, qt_labels = w_labels w, qt_reason = why\<rparr> # more)
                     })
         | _ \<Rightarrow> target_loop P sg entry net (insert n seen) rest))"

definition quarantine_targets_on_path ::
  "'g petgraph \<Rightarrow> 'g security_graph \<Rightarrow> nat \<Rightarrow> path_steps \<Rightarrow> bool \<Rightarrow> quarantine_target list option" where
  "quarantine_targets_on_path P sg entry steps exposed_entry =
     target_loop P sg entry (fold (net_step P sg) steps [entry \<mapsto> exposed_entry]) {}
       (entry # map (\<lambda>(_, dst, _). dst) steps)"

definition workload_labels :: "'g petgraph \<Rightarrow> 'g security_graph \<Rightarrow> nat \<Rightarrow> (string, string) btree" where
  "workload_labels P sg idx =
     (case pg_node_weight P (sg_graph sg) idx of Some (Workload w) \<Rightarrow> w_labels w | _ \<Rightarrow> [])"

definition link_of :: "'g petgraph \<Rightarrow> 'g security_graph \<Rightarrow> nat \<times> nat \<times> nat \<Rightarrow> link option" where
  "link_of P sg step =
     (case step of (src, dst, e) \<Rightarrow>
        do {
          w \<leftarrow> pg_edge_weight P (sg_graph sg) e;
          f \<leftarrow> key_of P sg src;
          t \<leftarrow> key_of P sg dst;
          Some \<lparr>l_from = f, l_to = t, l_relation = relation_label (e_relation w),
                l_technique = relation_technique (e_relation w),
                from_labels = workload_labels P sg src, to_labels = workload_labels P sg dst\<rparr>
        })"

section \<open>Chains\<close>

record proven_chain =
  pc_entry :: node_key
  pc_objective :: node_key
  pc_attack :: attack_ref
  pc_foothold :: "attack_ref option"
  corroborated :: bool
  adjudicated :: bool
  promoted :: bool
  exposed_entry :: bool
  verdict :: "string option"
  pc_links :: "link list"
  pc_paths :: "link list list"
  paths_truncated :: bool
  single_edge_cuts :: "link list"
  quarantine_targets :: "quarantine_target list"

definition entry_quarantine_reason :: "proven_chain \<Rightarrow> quarantine_reason option" where
  "entry_quarantine_reason c =
     map_option qt_reason (find (\<lambda>t. qt_node t = pc_entry c) (quarantine_targets c))"

definition strength :: "proven_chain \<Rightarrow> nat" where
  "strength c = length (pc_links c)"

definition is_latent_foothold :: "proven_chain \<Rightarrow> bool" where
  "is_latent_foothold c \<longleftrightarrow> pc_foothold c \<noteq> None \<and> \<not> corroborated c"

definition is_breach_relevant :: "proven_chain \<Rightarrow> bool" where
  "is_breach_relevant c = exposed_entry c"

definition meets_action_bar :: "proven_chain \<Rightarrow> bool" where
  "meets_action_bar c \<longleftrightarrow> is_breach_relevant c \<and> (corroborated c \<or> promoted c)"

section \<open>The proof\<close>

definition resolve_objectives ::
  "'g petgraph \<Rightarrow> 'g security_graph \<Rightarrow> 'g recognizer list \<Rightarrow> (nat \<times> attack_ref) list" where
  "resolve_objectives P sg recognizers =
     List.map_filter (\<lambda>ob. map_option (\<lambda>i. (i, o_attack ob)) (index_of sg (o_node ob)))
       (concat (map (\<lambda>r. r sg) recognizers))"

definition chain_for ::
  "'g petgraph \<Rightarrow> 'g security_graph \<Rightarrow> nat \<Rightarrow> came_from \<Rightarrow> nat \<times> attack_ref \<Rightarrow> proven_chain option" where
  "chain_for P sg entry tree goal =
     (let (obj, attack) = goal;
          foothold = entry_foothold P sg entry;
          exposed = entry_exposed P sg entry;
          ctx = \<lparr>source_ns = entry_namespace P sg entry, is_foothold = foothold \<noteq> None\<rparr>;
          live = corroborated_for (entry_runtime P sg entry) attack foothold ctx
      in do {
        steps \<leftarrow> path_steps tree entry obj;
        links \<leftarrow> those (map (link_of P sg) steps);
        cut_flags \<leftarrow> those (map (\<lambda>(u, v, e).
            if is_cuttable_edge P sg e then map_option Not (reachable_without P sg entry obj e)
            else Some False) steps);
        cuts \<leftarrow> those (map (link_of P sg) (map fst (filter snd (zip steps cut_flags))));
        let (all_steps, trunc) = proven_paths P sg entry obj MAX_PROVEN_PATHS;
        paths \<leftarrow> those (map (\<lambda>p. those (map (link_of P sg) p)) all_steps);
        targets \<leftarrow> quarantine_targets_on_path P sg entry steps exposed;
        entry_key \<leftarrow> key_of P sg entry;
        obj_key \<leftarrow> key_of P sg obj;
        Some \<lparr>pc_entry = entry_key, pc_objective = obj_key, pc_attack = attack,
              pc_foothold = foothold, corroborated = live, adjudicated = True, promoted = False,
              exposed_entry = exposed, verdict = None, pc_links = links, pc_paths = paths,
              paths_truncated = trunc, single_edge_cuts = cuts, quarantine_targets = targets\<rparr>
      })"

definition entry_chains ::
  "'g petgraph \<Rightarrow> 'g security_graph \<Rightarrow> (nat \<times> attack_ref) list \<Rightarrow> nat \<Rightarrow> proven_chain list option" where
  "entry_chains P sg objectives entry =
     do {
       tree \<leftarrow> movement_tree P sg entry None;
       those (map (chain_for P sg entry tree)
         (filter (\<lambda>(obj, _). \<not> (obj = entry \<or> tree obj = None)) objectives))
     }"

definition prove_with ::
  "'g petgraph \<Rightarrow> 'g security_graph \<Rightarrow> 'g recognizer list \<Rightarrow> proven_chain list option" where
  "prove_with P sg recognizers =
     (let entries = filter (\<lambda>i. case pg_node_weight P (sg_graph sg) i of
                                  Some (Workload _) \<Rightarrow> True | _ \<Rightarrow> False)
                      (pg_node_indices P (sg_graph sg))
      in map_option concat
           (those (map (entry_chains P sg (resolve_objectives P sg recognizers)) entries)))"

definition prove :: "'g petgraph \<Rightarrow> 'g security_graph \<Rightarrow> proven_chain list option" where
  "prove P sg = prove_with P sg (default_recognizers P)"

section \<open>Quarantine targets\<close>

text \<open>
  The bar of the program, stated on one node of the path: \<open>net\<close> is the network reachability the
  path establishes.
\<close>

definition quarantine_bar ::
  "'g petgraph \<Rightarrow> 'g security_graph \<Rightarrow> nat \<Rightarrow> (nat \<rightharpoonup> bool) \<Rightarrow> nat \<Rightarrow> quarantine_reason \<Rightarrow> bool" where
  "quarantine_bar P sg entry net n why \<longleftrightarrow>
     (case why of
        ActivelyExploited \<Rightarrow> actively_exploited P sg n
      | RemotelyExploitable \<Rightarrow>
          \<not> actively_exploited P sg n \<and> n \<noteq> entry \<and> net n = Some True \<and> compromisable P sg n)"

definition target_of ::
  "'g petgraph \<Rightarrow> 'g security_graph \<Rightarrow> nat \<Rightarrow> (nat \<rightharpoonup> bool) \<Rightarrow> nat \<Rightarrow> quarantine_target option" where
  "target_of P sg entry net n =
     (case pg_node_weight P (sg_graph sg) n of
        Some (Workload w) \<Rightarrow>
          (if actively_exploited P sg n
           then Some \<lparr>qt_node = key (Workload w), qt_labels = w_labels w, qt_reason = ActivelyExploited\<rparr>
           else if n \<noteq> entry \<and> net n = Some True \<and> compromisable P sg n
           then Some \<lparr>qt_node = key (Workload w), qt_labels = w_labels w, qt_reason = RemotelyExploitable\<rparr>
           else None)
      | _ \<Rightarrow> None)"

fun fresh :: "nat set \<Rightarrow> nat list \<Rightarrow> nat list" where
  "fresh seen [] = []"
| "fresh seen (n # ns) = (if n \<in> seen then fresh seen ns else n # fresh (insert n seen) ns)"

lemma set_fresh: "set (fresh seen ns) = set ns - seen"
  by (induction seen ns rule: fresh.induct) auto

lemma net_default: "(case net n of Some b \<Rightarrow> b | None \<Rightarrow> False) \<longleftrightarrow> net n = Some True"
  by (simp split: option.split)

lemma target_loop_eq:
  "target_loop P sg entry net seen ns =
     Some (List.map_filter (target_of P sg entry net) (fresh seen ns))"
proof (induction ns arbitrary: seen)
  case (Cons n ns)
  show ?case
  proof (cases "\<exists>w. pg_node_weight P (sg_graph sg) n = Some (Workload w)")
    case True
    then show ?thesis
      using Cons.IH by (auto simp: target_of_def key_of_def net_default List.map_filter_simps)
  next
    case False
    then have "target_of P sg entry net n = None" and
      "target_loop P sg entry net seen (n # ns) =
         target_loop P sg entry net (if n \<in> seen then seen else insert n seen) ns"
      by (auto simp: target_of_def split: option.split node.split)
    then show ?thesis using Cons.IH by (simp add: List.map_filter_simps)
  qed
qed (simp add: List.map_filter_simps)

lemma target_of_iff:
  "target_of P sg entry net n = Some t \<longleftrightarrow>
     (\<exists>w. pg_node_weight P (sg_graph sg) n = Some (Workload w) \<and>
        quarantine_bar P sg entry net n (qt_reason t) \<and>
        t = \<lparr>qt_node = key (Workload w), qt_labels = w_labels w, qt_reason = qt_reason t\<rparr>)"
proof (cases "\<exists>w. pg_node_weight P (sg_graph sg) n = Some (Workload w)")
  case True
  then show ?thesis
    by (cases t; cases "qt_reason t")
       (auto simp: target_of_def quarantine_bar_def split: if_splits)
next
  case False
  then show ?thesis by (auto simp: target_of_def split: option.split node.split)
qed

text \<open>Network reachability along a path: every hop from the entry was a network hop.\<close>

lemma net_fold_other:
  "n \<notin> set (targets p) \<Longrightarrow> fold (net_step P sg) p net n = net n"
  by (induction p arbitrary: net) (auto simp: net_step_def targets_def)

lemma net_fold_prefix:
  "gated_path P sg start ex entry p n \<Longrightarrow>
     fold (net_step P sg) p [entry \<mapsto> x] n = Some (x \<and> (\<forall>(a, b, e)\<in>set p. is_network_hop P sg e))"
proof (induction p arbitrary: n rule: rev_induct)
  case (snoc s p)
  obtain a b e where s: "s = (a, b, e)" by (cases s)
  with snoc.prems have "gated_path P sg start ex entry p a" "b = n"
    by (auto simp: gated_path_append)
  with snoc.IH [of a] s show ?case by (auto simp: net_step_def)
qed simp

lemma gated_path_end:
  "gated_path P sg start ex u p v \<Longrightarrow> v = u \<and> p = [] \<or> p \<noteq> [] \<and> v \<in> set (targets p)"
  using gated_path_target_end [of P sg start ex u p v] by (cases "p = []") auto

lemma gated_path_split:
  assumes "gated_path P sg start ex u p v" "n \<in> set (u # targets p)"
  shows "\<exists>p1 p2. p = p1 @ p2 \<and> gated_path P sg start ex u p1 n \<and> gated_path P sg start ex n p2 v"
  using assms
proof (induction p arbitrary: u)
  case Nil
  then show ?case by auto
next
  case (Cons s p)
  obtain a b e where s: "s = (a, b, e)" by (cases s)
  show ?case
  proof (cases "n = u")
    case True
    then have "gated_path P sg start ex u [] n" by simp
    with Cons.prems True show ?thesis by (metis append_Nil)
  next
    case False
    with Cons.prems s have "n \<in> set (b # targets p)" "gated_path P sg start ex b p v" by auto
    from Cons.IH [OF this(2,1)] obtain p1 p2 where "p = p1 @ p2"
      "gated_path P sg start ex b p1 n" "gated_path P sg start ex n p2 v" by blast
    then have "s # p = (s # p1) @ p2 \<and> gated_path P sg start ex u (s # p1) n \<and>
        gated_path P sg start ex n p2 v" using Cons.prems(1) s by auto
    then show ?thesis by blast
  qed
qed

lemma net_on_path:
  assumes "gated_path P sg start ex entry (p1 @ p2) v" "gated_path P sg start ex entry p1 n"
    and "distinct (entry # targets (p1 @ p2))"
  shows "fold (net_step P sg) (p1 @ p2) [entry \<mapsto> x] n =
    Some (x \<and> (\<forall>(a, b, e)\<in>set p1. is_network_hop P sg e))"
proof -
  have "n \<notin> set (targets p2)"
    using gated_path_end [OF assms(2)] assms(3) by auto
  then show ?thesis
    using net_fold_prefix [OF assms(2), of x] by (simp add: net_fold_other del: fun_upd_apply)
qed

text \<open>The same bar for the node at the end of the prefix \<open>p\<close> of the path.\<close>

definition quarantine_prefix_bar ::
  "'g petgraph \<Rightarrow> 'g security_graph \<Rightarrow> nat \<Rightarrow> bool \<Rightarrow> path_steps \<Rightarrow> nat \<Rightarrow> quarantine_reason \<Rightarrow> bool"
  where
  "quarantine_prefix_bar P sg entry exposed p n why \<longleftrightarrow>
     (if actively_exploited P sg n then why = ActivelyExploited
      else why = RemotelyExploitable \<and> n \<noteq> entry \<and> exposed \<and>
        compromisable P sg n \<and> (\<forall>(a, b, e)\<in>set p. is_network_hop P sg e))"

lemma quarantine_bar_prefix:
  assumes "gated_path P sg start ex entry (p1 @ p2) v" "gated_path P sg start ex entry p1 n"
    and "distinct (entry # targets (p1 @ p2))"
  shows "quarantine_bar P sg entry (fold (net_step P sg) (p1 @ p2) [entry \<mapsto> exposed]) n why \<longleftrightarrow>
    quarantine_prefix_bar P sg entry exposed p1 n why"
  using net_on_path [OF assms, of exposed]
  by (cases why) (auto simp: quarantine_bar_def quarantine_prefix_bar_def)

lemma on_path_iff:
  assumes "gated_path P sg start ex entry steps v"
  shows "n \<in> set (entry # targets steps) \<longleftrightarrow>
    (\<exists>p1 p2. steps = p1 @ p2 \<and> gated_path P sg start ex entry p1 n)"
proof
  assume "\<exists>p1 p2. steps = p1 @ p2 \<and> gated_path P sg start ex entry p1 n"
  then obtain p1 p2 where "steps = p1 @ p2" "gated_path P sg start ex entry p1 n" by blast
  with gated_path_end [of P sg start ex entry p1 n] show "n \<in> set (entry # targets steps)" by auto
qed (use gated_path_split [OF assms] in blast)

lemma quarantine_targets_spec:
  assumes path: "gated_path P sg start ex entry steps v" and dist: "distinct (entry # targets steps)"
  shows "\<exists>ts. quarantine_targets_on_path P sg entry steps exposed = Some ts \<and>
    (\<forall>t. t \<in> set ts \<longleftrightarrow>
       (\<exists>n p1 p2 w. steps = p1 @ p2 \<and> gated_path P sg start ex entry p1 n \<and>
          pg_node_weight P (sg_graph sg) n = Some (Workload w) \<and>
          quarantine_prefix_bar P sg entry exposed p1 n (qt_reason t) \<and>
          t = \<lparr>qt_node = key (Workload w), qt_labels = w_labels w, qt_reason = qt_reason t\<rparr>))"
proof -
  let ?net = "fold (net_step P sg) steps [entry \<mapsto> exposed]"
  let ?ts = "List.map_filter (target_of P sg entry ?net) (fresh {} (entry # targets steps))"
  have bar: "quarantine_bar P sg entry ?net n why \<longleftrightarrow> quarantine_prefix_bar P sg entry exposed p1 n why"
    if "steps = p1 @ p2" "gated_path P sg start ex entry p1 n" for n why p1 p2
    using quarantine_bar_prefix path dist that by simp
  have "t \<in> set ?ts \<longleftrightarrow> (\<exists>n\<in>set (entry # targets steps). target_of P sg entry ?net n = Some t)" for t
    by (simp add: set_map_filter set_fresh del: fresh.simps)
  then have "t \<in> set ?ts \<longleftrightarrow>
       (\<exists>n p1 p2 w. steps = p1 @ p2 \<and> gated_path P sg start ex entry p1 n \<and>
          pg_node_weight P (sg_graph sg) n = Some (Workload w) \<and>
          quarantine_bar P sg entry ?net n (qt_reason t) \<and>
          t = \<lparr>qt_node = key (Workload w), qt_labels = w_labels w, qt_reason = qt_reason t\<rparr>)" for t
    unfolding target_of_iff Bex_def on_path_iff [OF path] by blast
  moreover have "(\<exists>n p1 p2 w. steps = p1 @ p2 \<and> gated_path P sg start ex entry p1 n \<and>
          pg_node_weight P (sg_graph sg) n = Some (Workload w) \<and>
          quarantine_bar P sg entry ?net n (qt_reason t) \<and>
          t = \<lparr>qt_node = key (Workload w), qt_labels = w_labels w, qt_reason = qt_reason t\<rparr>) \<longleftrightarrow>
       (\<exists>n p1 p2 w. steps = p1 @ p2 \<and> gated_path P sg start ex entry p1 n \<and>
          pg_node_weight P (sg_graph sg) n = Some (Workload w) \<and>
          quarantine_prefix_bar P sg entry exposed p1 n (qt_reason t) \<and>
          t = \<lparr>qt_node = key (Workload w), qt_labels = w_labels w, qt_reason = qt_reason t\<rparr>)" for t
    by (intro iff_exI conj_cong refl bar)
  moreover have "quarantine_targets_on_path P sg entry steps exposed = Some ?ts"
    by (simp add: quarantine_targets_on_path_def target_loop_eq targets_def split_def)
  ultimately show ?thesis by (intro exI [of _ ?ts]) simp
qed

section \<open>The chain of an entry and an objective\<close>

lemma those_map_total: "(\<And>x. x \<in> set xs \<Longrightarrow> f x = Some (g x)) \<Longrightarrow> those (map f xs) = Some (map g xs)"
  by (induction xs) auto

lemma zip_filter: "map fst (filter snd (zip xs (map f xs))) = filter f xs"
  by (induction xs) auto

text \<open>The edges of a path that sever it on their own.\<close>

definition severs :: "'g petgraph \<Rightarrow> 'g security_graph \<Rightarrow> nat \<Rightarrow> nat \<Rightarrow> nat \<times> nat \<times> nat \<Rightarrow> bool" where
  "severs P sg entry obj step \<longleftrightarrow>
     (case step of (u, v, e) \<Rightarrow> is_cuttable_edge P sg e \<and> \<not> moves P sg entry (Some e) obj)"

definition is_entry :: "'g petgraph \<Rightarrow> 'g security_graph \<Rightarrow> nat \<Rightarrow> bool" where
  "is_entry P sg i \<longleftrightarrow> (\<exists>w. pg_node_weight P (sg_graph sg) i = Some (Workload w))"

lemma is_entry_code:
  "is_entry P sg i \<longleftrightarrow>
     (case pg_node_weight P (sg_graph sg) i of Some (Workload _) \<Rightarrow> True | _ \<Rightarrow> False)"
  by (simp add: is_entry_def split: option.split node.split)

lemma is_entry_dom: "is_entry P sg i \<Longrightarrow> i \<in> dom (pg_node_weight P (sg_graph sg))"
  by (auto simp: is_entry_def)

context stable_graph
begin

lemma gated_step:
  "gated_path P sg start ex u p v \<Longrightarrow> (a, b, e) \<in> set p \<Longrightarrow>
     \<exists>r\<in>set (pg_edge_references P (sg_graph sg)).
       er_id r = e \<and> er_source r = a \<and> er_target r = b \<and> eligible ex r"
  by (induction p arbitrary: u) (fastforce simp: edges_out)+

lemma link_of_step:
  assumes "gated_path P sg start ex u p v" and "step \<in> set p"
  shows "\<exists>l. link_of P sg step = Some l"
proof -
  obtain a b e where s: "step = (a, b, e)" by (cases step)
  with gated_step [OF assms(1)] assms(2) obtain r where r: "r \<in> set (pg_edge_references P (sg_graph sg))"
    "er_id r = e" "er_source r = a" "er_target r = b" by blast
  with edge_ends [OF r(1)] edge_weight_of_ref [OF r(1)] show ?thesis
    by (auto simp: s link_of_def key_of_def)
qed

lemma links_of_path:
  "gated_path P sg start ex u p v \<Longrightarrow> set q \<subseteq> set p \<Longrightarrow> \<exists>ls. those (map (link_of P sg) q) = Some ls"
  using link_of_step by (intro those_map_Some) blast

lemma reachable_without_spec:
  assumes "entry \<in> dom (pg_node_weight P (sg_graph sg))" "obj \<noteq> entry"
  shows "reachable_without P sg entry obj e = Some (moves P sg entry (Some e) obj)"
proof -
  from movement_tree_spec [OF assms(1), of "Some e"] obtain came where
    c: "movement_tree P sg entry (Some e) = Some came"
    "\<forall>v. v = entry \<or> v \<in> dom came \<longleftrightarrow> moves P sg entry (Some e) v" by blast
  have "came obj \<noteq> None \<longleftrightarrow> moves P sg entry (Some e) obj"
    using c(2) assms(2) by (metis domIff)
  then show ?thesis using c(1) by (simp add: reachable_without_def)
qed

lemma cut_flags_eq:
  assumes "entry \<in> dom (pg_node_weight P (sg_graph sg))" "obj \<noteq> entry"
  shows "those (map (\<lambda>(u, v, e). if is_cuttable_edge P sg e
      then map_option Not (reachable_without P sg entry obj e) else Some False) steps) =
    Some (map (severs P sg entry obj) steps)"
  by (rule those_map_total) (auto simp: reachable_without_spec [OF assms] severs_def)

lemma paths_linked:
  assumes "entry \<in> dom (pg_node_weight P (sg_graph sg))"
  shows "\<exists>lss. those (map (\<lambda>p. those (map (link_of P sg) p))
    (fst (proven_paths P sg entry obj cap))) = Some lss"
proof (rule those_map_Some)
  fix p assume "p \<in> set (fst (proven_paths P sg entry obj cap))"
  then have "proven_path P sg entry obj p"
    using proven_paths_spec(4) [OF assms] by (metis prod.collapse)
  then show "\<exists>ls. those (map (link_of P sg) p) = Some ls"
    unfolding proven_path_def using links_of_path by blast
qed

lemma chain_for_spec:
  assumes entry: "entry \<in> dom (pg_node_weight P (sg_graph sg))"
    and tree: "movement_tree P sg entry None = Some tree" and obj: "obj \<in> dom tree" "obj \<noteq> entry"
  obtains c steps where "chain_for P sg entry tree (obj, attack) = Some c"
    and "gated_path P sg entry None entry steps obj" and "distinct (entry # targets steps)"
    and "\<And>t. gated_path P sg entry None entry t obj \<Longrightarrow> length steps \<le> length t"
    and "key_of P sg entry = Some (pc_entry c)" and "key_of P sg obj = Some (pc_objective c)"
    and "pc_attack c = attack"
    and "those (map (link_of P sg) steps) = Some (pc_links c)"
    and "those (map (link_of P sg) (filter (severs P sg entry obj) steps)) = Some (single_edge_cuts c)"
    and "quarantine_targets_on_path P sg entry steps (entry_exposed P sg entry) =
      Some (quarantine_targets c)"
    and "exposed_entry c = entry_exposed P sg entry" and "pc_foothold c = entry_foothold P sg entry"
    and "adjudicated c" and "\<not> promoted c"
proof -
  from path_steps_spec [OF entry tree] obj obtain steps where steps: "path_steps tree entry obj = Some steps"
    and path: "gated_path P sg entry None entry steps obj" and dist: "distinct (entry # targets steps)"
    and short: "\<forall>t. gated_path P sg entry None entry t obj \<longrightarrow> length steps \<le> length t" by blast
  from links_of_path [OF path subset_refl] obtain links where
    links: "those (map (link_of P sg) steps) = Some links" by blast
  from links_of_path [OF path, of "filter (severs P sg entry obj) steps"] obtain cuts where
    cuts: "those (map (link_of P sg) (filter (severs P sg entry obj) steps)) = Some cuts" by auto
  obtain all_steps trunc where all: "proven_paths P sg entry obj MAX_PROVEN_PATHS = (all_steps, trunc)"
    by fastforce
  with paths_linked [OF entry, of obj MAX_PROVEN_PATHS] obtain paths where
    paths: "those (map (\<lambda>p. those (map (link_of P sg) p)) all_steps) = Some paths" by auto
  from quarantine_targets_spec [OF path dist] obtain ts where
    ts: "quarantine_targets_on_path P sg entry steps (entry_exposed P sg entry) = Some ts" by blast
  obtain ke ko where keys: "key_of P sg entry = Some ke" "key_of P sg obj = Some ko"
    using entry obj tree movement_tree_returns [OF entry, of None] by (fastforce simp: key_of_def)
  note eqs = steps links cut_flags_eq [OF entry obj(2)] zip_filter cuts all paths ts keys
  define c where "c = the (chain_for P sg entry tree (obj, attack))"
  have "chain_for P sg entry tree (obj, attack) = Some c \<and> pc_entry c = ke \<and> pc_objective c = ko \<and>
      pc_attack c = attack \<and> pc_links c = links \<and> single_edge_cuts c = cuts \<and>
      quarantine_targets c = ts \<and> exposed_entry c = entry_exposed P sg entry \<and>
      pc_foothold c = entry_foothold P sg entry \<and> adjudicated c \<and> \<not> promoted c"
    by (simp add: c_def chain_for_def Let_def eqs del: map_map)
  then show thesis using that [of c steps] path dist short keys links cuts ts by simp
qed

lemma entry_chains_spec:
  assumes "entry \<in> dom (pg_node_weight P (sg_graph sg))"
  shows "\<exists>tree cs. movement_tree P sg entry None = Some tree \<and> tree entry = None \<and>
    entry_chains P sg objectives entry = Some cs \<and>
    (\<forall>c. c \<in> set cs \<longleftrightarrow> (\<exists>obj attack. (obj, attack) \<in> set objectives \<and> obj \<noteq> entry \<and> obj \<in> dom tree \<and>
       chain_for P sg entry tree (obj, attack) = Some c))"
proof -
  from movement_tree_spec [OF assms, of None] obtain tree where
    tree: "movement_tree P sg entry None = Some tree" "tree entry = None" by blast
  let ?goals = "filter (\<lambda>(obj, _). \<not> (obj = entry \<or> tree obj = None)) objectives"
  have goals: "(obj, attack) \<in> set ?goals \<longleftrightarrow>
      (obj, attack) \<in> set objectives \<and> obj \<noteq> entry \<and> obj \<in> dom tree" for obj attack
    by auto
  have "\<exists>cs. those (map (chain_for P sg entry tree) ?goals) = Some cs"
  proof (rule those_map_Some)
    fix goal assume mem: "goal \<in> set ?goals"
    obtain obj attack where g: "goal = (obj, attack)" by fastforce
    with mem goals have "obj \<in> dom tree" "obj \<noteq> entry" by blast+
    then show "\<exists>c. chain_for P sg entry tree goal = Some c"
      unfolding g by (rule chain_for_spec [OF assms tree(1)]) blast
  qed
  then obtain cs where cs: "those (map (chain_for P sg entry tree) ?goals) = Some cs" by blast
  have "c \<in> set cs \<longleftrightarrow> (\<exists>obj attack. (obj, attack) \<in> set objectives \<and> obj \<noteq> entry \<and> obj \<in> dom tree \<and>
       chain_for P sg entry tree (obj, attack) = Some c)" for c
    unfolding those_map_set [OF cs] Bex_def split_paired_Ex goals by blast
  with tree cs show ?thesis by (simp add: entry_chains_def)
qed

lemma prove_with_spec:
  "\<exists>chains. prove_with P sg recognizers = Some chains \<and>
     (\<forall>c. c \<in> set chains \<longleftrightarrow>
       (\<exists>entry. is_entry P sg entry \<and>
         (\<exists>tree obj attack. movement_tree P sg entry None = Some tree \<and>
            (obj, attack) \<in> set (resolve_objectives P sg recognizers) \<and> obj \<noteq> entry \<and> obj \<in> dom tree \<and>
            chain_for P sg entry tree (obj, attack) = Some c)))"
proof -
  let ?obs = "resolve_objectives P sg recognizers"
  let ?entries = "filter (is_entry P sg) (pg_node_indices P (sg_graph sg))"
  have entries: "i \<in> set ?entries \<longleftrightarrow> is_entry P sg i" for i
    using indices_dom [of "sg_graph sg"] by (auto simp: is_entry_def)
  have "\<exists>css. those (map (entry_chains P sg ?obs) ?entries) = Some css"
  proof (rule those_map_Some)
    fix i assume "i \<in> set ?entries"
    with entries entry_chains_spec [OF is_entry_dom, of sg i ?obs]
    show "\<exists>cs. entry_chains P sg ?obs i = Some cs" by blast
  qed
  then obtain css where css: "those (map (entry_chains P sg ?obs) ?entries) = Some css" by blast
  have one: "(\<exists>cs. entry_chains P sg ?obs entry = Some cs \<and> c \<in> set cs) \<longleftrightarrow>
      (\<exists>tree obj attack. movement_tree P sg entry None = Some tree \<and> (obj, attack) \<in> set ?obs \<and>
        obj \<noteq> entry \<and> obj \<in> dom tree \<and> chain_for P sg entry tree (obj, attack) = Some c)"
    if entry: "is_entry P sg entry" for entry c
  proof -
    from entry_chains_spec [OF is_entry_dom [OF entry], of ?obs] obtain tree cs where
      "movement_tree P sg entry None = Some tree" "entry_chains P sg ?obs entry = Some cs"
      "\<forall>c. c \<in> set cs \<longleftrightarrow> (\<exists>obj attack. (obj, attack) \<in> set ?obs \<and> obj \<noteq> entry \<and> obj \<in> dom tree \<and>
         chain_for P sg entry tree (obj, attack) = Some c)" by blast
    then show ?thesis by simp
  qed
  have "c \<in> set (concat css) \<longleftrightarrow>
      (\<exists>entry. is_entry P sg entry \<and> (\<exists>cs. entry_chains P sg ?obs entry = Some cs \<and> c \<in> set cs))" for c
    unfolding set_concat UN_iff Bex_def those_map_set [OF css] entries by blast
  moreover have "(\<exists>entry. is_entry P sg entry \<and> (\<exists>cs. entry_chains P sg ?obs entry = Some cs \<and> c \<in> set cs)) \<longleftrightarrow> (\<exists>entry. is_entry P sg entry \<and>
      (\<exists>tree obj attack. movement_tree P sg entry None = Some tree \<and> (obj, attack) \<in> set ?obs \<and>
        obj \<noteq> entry \<and> obj \<in> dom tree \<and> chain_for P sg entry tree (obj, attack) = Some c))" for c
    by (intro iff_exI conj_cong refl one)
  ultimately have mem: "c \<in> set (concat css) \<longleftrightarrow> (\<exists>entry. is_entry P sg entry \<and>
      (\<exists>tree obj attack. movement_tree P sg entry None = Some tree \<and> (obj, attack) \<in> set ?obs \<and>
        obj \<noteq> entry \<and> obj \<in> dom tree \<and> chain_for P sg entry tree (obj, attack) = Some c))" for c
    by simp
  have "prove_with P sg recognizers = Some (concat css)"
    using css by (simp add: prove_with_def is_entry_code [symmetric] del: those.simps)
  with mem show ?thesis by blast
qed

end

section \<open>Which nodes are objectives\<close>

fun goal_technique :: "node \<Rightarrow> attack_ref option" where
  "goal_technique (Secret _) = Some CREDENTIAL_ACCESS"
| "goal_technique (Host _) = Some ESCAPE_TO_HOST"
| "goal_technique (Capability c) = capability_technique (c_verb c) (c_resource c)"
| "goal_technique (Endpoint e) = (if e_address e = ''internet'' then Some EXFILTRATION else None)"
| "goal_technique (Workload w) = (if persistent w then Some DATA_FROM_REPOSITORY else None)"
| "goal_technique _ = None"

lemma default_objectives:
  "ob \<in> set (concat (map (\<lambda>r. r sg) (default_recognizers P))) \<longleftrightarrow>
     (\<exists>n\<in>set (pg_node_weights P (sg_graph sg)). o_node ob = key n \<and> goal_technique n = Some (o_attack ob))"
    (is "?L \<longleftrightarrow> (\<exists>n\<in>?N. _)")
proof -
  define g where "g n = map_option (\<lambda>a. \<lparr>o_node = key n, o_attack = a\<rparr>) (goal_technique n)" for n
  have g: "g n = Some ob \<longleftrightarrow> o_node ob = key n \<and> goal_technique n = Some (o_attack ob)" for n
    by (cases ob) (auto simp: g_def)
  have sel: "ob \<in> set (map (\<lambda>n. \<lparr>o_node = key n, o_attack = a\<rparr>) (filter p ns)) \<longleftrightarrow>
      (\<exists>n\<in>set ns. p n \<and> Some \<lparr>o_node = key n, o_attack = a\<rparr> = Some ob)" for a p ns
    by auto
  have parts: "ob \<in> set (secret_objective P sg) \<longleftrightarrow> (\<exists>n\<in>?N. is_Secret n \<and> g n = Some ob)"
    "ob \<in> set (host_objective P sg) \<longleftrightarrow> (\<exists>n\<in>?N. is_Host n \<and> g n = Some ob)"
    "ob \<in> set (capability_objective P sg) \<longleftrightarrow> (\<exists>n\<in>?N. is_Capability n \<and> g n = Some ob)"
    "ob \<in> set (exfiltration_objective P sg) \<longleftrightarrow> (\<exists>n\<in>?N. is_Endpoint n \<and> g n = Some ob)"
    "ob \<in> set (data_store_objective P sg) \<longleftrightarrow> (\<exists>n\<in>?N. is_Workload n \<and> g n = Some ob)"
    unfolding secret_objective_def host_objective_def exfiltration_objective_def data_store_objective_def
      capability_objective_def set_map_filter sel
    by (intro bex_cong refl; simp add: g_def split: node.split)+
  have "g n = Some ob \<longleftrightarrow> is_Secret n \<and> g n = Some ob \<or> is_Host n \<and> g n = Some ob \<or>
      is_Capability n \<and> g n = Some ob \<or> is_Endpoint n \<and> g n = Some ob \<or>
      is_Workload n \<and> g n = Some ob" for n
    by (cases n) (auto simp: g_def)
  then have "(\<exists>n\<in>?N. g n = Some ob) \<longleftrightarrow> ?L"
    unfolding default_recognizers_def list.map concat.simps set_append Un_iff parts append_Nil2 by blast
  then show ?thesis unfolding g by blast
qed

lemma default_objectives_resolved:
  assumes "stable_graph P" "graph_ok P sg"
  shows "(i, a) \<in> set (resolve_objectives P sg (default_recognizers P)) \<longleftrightarrow>
    (\<exists>n. pg_node_weight P (sg_graph sg) i = Some n \<and> goal_technique n = Some a)"
proof -
  have weights: "n \<in> set (pg_node_weights P (sg_graph sg)) \<longleftrightarrow> (\<exists>j. pg_node_weight P (sg_graph sg) j = Some n)" for n
    using stable_graph.weights_in_order [OF assms(1), of "sg_graph sg"]
      stable_graph.indices_dom [OF assms(1), of "sg_graph sg"] by force
  have index: "index_of sg (key n) = Some i \<longleftrightarrow> i = j" if "pg_node_weight P (sg_graph sg) j = Some n" for n j
    using graph_ok_index [OF assms(2), of "key n"] that by (fastforce simp: key_of_def)
  have "(i, a) \<in> set (resolve_objectives P sg (default_recognizers P)) \<longleftrightarrow>
      (\<exists>n\<in>set (pg_node_weights P (sg_graph sg)). index_of sg (key n) = Some i \<and> goal_technique n = Some a)"
    unfolding resolve_objectives_def set_map_filter Bex_def default_objectives
    by (fastforce intro: exI [of _ "\<lparr>o_node = _, o_attack = a\<rparr>"])
  then show ?thesis using weights index by blast
qed

section \<open>Every chain of the proof\<close>

definition chain_facts ::
  "'g petgraph \<Rightarrow> 'g security_graph \<Rightarrow> proven_chain \<Rightarrow> nat \<Rightarrow> nat \<Rightarrow> path_steps \<Rightarrow> bool" where
  "chain_facts P sg c i j steps \<longleftrightarrow>
     key_of P sg i = Some (pc_entry c) \<and> key_of P sg j = Some (pc_objective c) \<and> i \<noteq> j \<and>
     is_entry P sg i \<and>
     gated_path P sg i None i steps j \<and> distinct (i # targets steps) \<and>
     (\<forall>t. gated_path P sg i None i t j \<longrightarrow> length steps \<le> length t) \<and>
     those (map (link_of P sg) steps) = Some (pc_links c) \<and>
     those (map (link_of P sg) (filter (severs P sg i j) steps)) = Some (single_edge_cuts c) \<and>
     quarantine_targets_on_path P sg i steps (entry_exposed P sg i) = Some (quarantine_targets c) \<and>
     exposed_entry c = entry_exposed P sg i \<and> pc_foothold c = entry_foothold P sg i \<and>
     adjudicated c \<and> \<not> promoted c"

context stable_graph
begin

lemma chain_for_facts:
  assumes entry: "is_entry P sg entry" and tree: "movement_tree P sg entry None = Some tree"
    and obj: "obj \<in> dom tree" "obj \<noteq> entry"
  shows "\<exists>c steps. chain_for P sg entry tree (obj, attack) = Some c \<and> pc_attack c = attack \<and>
    chain_facts P sg c entry obj steps"
  using chain_for_spec [OF is_entry_dom [OF entry] tree obj, of attack] entry obj(2)
  unfolding chain_facts_def by metis

lemma tree_moves:
  assumes "is_entry P sg entry" "movement_tree P sg entry None = Some tree" "obj \<noteq> entry"
  shows "obj \<in> dom tree \<longleftrightarrow> moves P sg entry None obj"
  using movement_tree_spec [OF is_entry_dom [OF assms(1)], of None] assms(2,3) by auto

lemma prove_with_chains:
  assumes "prove_with P sg recognizers = Some found_chains"
  shows "c \<in> set found_chains \<Longrightarrow> \<exists>i j steps. chain_facts P sg c i j steps \<and>
      (j, pc_attack c) \<in> set (resolve_objectives P sg recognizers)"
    and "is_entry P sg i \<Longrightarrow> (j, a) \<in> set (resolve_objectives P sg recognizers) \<Longrightarrow> j \<noteq> i \<Longrightarrow>
      moves P sg i None j \<Longrightarrow> \<exists>c\<in>set found_chains. \<exists>steps. chain_facts P sg c i j steps \<and> pc_attack c = a"
proof -
  have mem: "c \<in> set found_chains \<longleftrightarrow> (\<exists>entry. is_entry P sg entry \<and>
      (\<exists>tree obj attack. movement_tree P sg entry None = Some tree \<and>
         (obj, attack) \<in> set (resolve_objectives P sg recognizers) \<and> obj \<noteq> entry \<and> obj \<in> dom tree \<and>
         chain_for P sg entry tree (obj, attack) = Some c))" for c
    using prove_with_spec [of sg recognizers] assms by auto
  show "\<exists>i j steps. chain_facts P sg c i j steps \<and>
      (j, pc_attack c) \<in> set (resolve_objectives P sg recognizers)" if "c \<in> set found_chains"
  proof -
    from that mem obtain i tree j a where *: "is_entry P sg i" "movement_tree P sg i None = Some tree"
      "(j, a) \<in> set (resolve_objectives P sg recognizers)" "j \<noteq> i" "j \<in> dom tree"
      "chain_for P sg i tree (j, a) = Some c" by blast
    from chain_for_facts [OF *(1,2,5,4), of a] *(6,3) show ?thesis by auto
  qed
  show "\<exists>c\<in>set found_chains. \<exists>steps. chain_facts P sg c i j steps \<and> pc_attack c = a"
    if *: "is_entry P sg i" "(j, a) \<in> set (resolve_objectives P sg recognizers)" "j \<noteq> i" "moves P sg i None j"
  proof -
    obtain tree where tree: "movement_tree P sg i None = Some tree"
      using movement_tree_returns [OF is_entry_dom [OF *(1)], of None] by blast
    have "j \<in> dom tree" using tree_moves [OF *(1) tree *(3)] *(4) by simp
    from chain_for_facts [OF *(1) tree this *(3), of a] mem * tree this show ?thesis by blast
  qed
qed

lemma gated_path_without:
  "gated_path P sg start None u p v \<Longrightarrow> e \<notin> (\<lambda>(a, b, e). e) ` set p \<Longrightarrow>
     gated_path P sg start (Some e) u p v"
  by (induction p arbitrary: u) (auto simp: eligible_def image_iff)

lemma cut_on_path:
  assumes "gated_path P sg i None i steps j" and "\<not> moves P sg i (Some e) j"
  shows "\<exists>u v. (u, v, e) \<in> set steps"
proof (rule ccontr)
  assume "\<not> ?thesis"
  then have "e \<notin> (\<lambda>(a, b, e). e) ` set steps" by auto
  with gated_path_without [OF assms(1)] assms(2) show False unfolding moves_gated_path by blast
qed

end

end
