(* ===== verification/Chains.thy ===== *)
theory Chains
  imports Prove
begin

text \<open>
  The properties of the proof: the walk is exactly compromise-gated reachability, the enumeration of
  paths is exact, the proof is total, and the chains, cuts and quarantine targets it reports are
  exactly the ones the graph supports.
\<close>

text \<open>
  The movement walk is exact: started at a node of the graph it always returns, and the nodes of
  its tree are precisely the nodes that the compromise-gated movement relation reaches. A workload
  other than the start is left only when it is compromisable, and the excluded edge is never used.
\<close>

theorem movement_tree_exact:
  assumes "stable_graph P" and "start \<in> dom (pg_node_weight P (sg_graph sg))"
  shows "\<exists>came. movement_tree P sg start excluded = Some came \<and>
    (\<forall>v. v \<noteq> start \<longrightarrow> (v \<in> dom came \<longleftrightarrow> moves P sg start excluded v))"
  using stable_graph.movement_tree_spec [OF assms, of excluded] by blast

lemma ex_present: "0 \<in> dom (pg_node_weight adj_ops (sg_graph ex_sg))"
  by (simp add: dom_def ex_sg_def ex_graph_def adj_eval)

theorem movement_tree_exact_witness:
  "\<exists>came. movement_tree adj_ops ex_sg 0 None = Some came \<and>
     (\<forall>v. v \<noteq> 0 \<longrightarrow> (v \<in> dom came \<longleftrightarrow> moves adj_ops ex_sg 0 None v))"
  by (rule movement_tree_exact [OF adj.stable_graph_axioms ex_present])

text \<open>
  C24. The proof is total: on every graph over a lawful container the proof returns a list of chains.
  The breadth-first walks end, no index lookup and no \<open>expect\<close> of the code can panic.
\<close>

theorem prove_total:
  assumes "stable_graph P"
  shows "\<exists>cs. prove P sg = Some cs"
  using stable_graph.prove_with_spec [OF assms] unfolding prove_def by blast

theorem prove_total_witness:
  "\<exists>cs. prove adj_ops ex_sg = Some cs"
  by (rule prove_total [OF adj.stable_graph_axioms])

text \<open>
  C1. The proof is sound and complete: on a graph built through the store's operations there is a
  chain from \<open>ke\<close> to \<open>ko\<close> with technique \<open>a\<close> exactly when \<open>ke\<close> is the key of a workload, \<open>ko\<close> the
  key of a different node that is an objective of technique \<open>a\<close>, and an attacker at the entry reaches the
  objective, leaving a workload other than the entry only when it runs an image with a critical
  or exploited vulnerability.
\<close>

theorem prove_sound_complete:
  assumes "stable_graph P" and "built P sg" and "prove P sg = Some cs"
  shows "(\<exists>c\<in>set cs. pc_entry c = ke \<and> pc_objective c = ko \<and> pc_attack c = a) \<longleftrightarrow>
    (\<exists>i w j n. index_of sg ke = Some i \<and> pg_node_weight P (sg_graph sg) i = Some (Workload w) \<and>
       index_of sg ko = Some j \<and> pg_node_weight P (sg_graph sg) j = Some n \<and>
       goal_technique n = Some a \<and> j \<noteq> i \<and> attacker_reaches P sg i None j)"
proof -
  have ok: "graph_ok P sg" using stable_graph.built_graph_ok [OF assms(1,2)] .
  note chains = stable_graph.prove_with_chains [OF assms(1) assms(3) [unfolded prove_def]]
  note goals = default_objectives_resolved [OF assms(1) ok]
  note index = graph_ok_index [OF ok]
  show ?thesis (is "?L \<longleftrightarrow> ?R")
  proof
    assume ?L
    then obtain c where c: "c \<in> set cs" "pc_entry c = ke" "pc_objective c = ko" "pc_attack c = a" by blast
    from chains(1) [OF c(1)] obtain i j steps where f: "chain_facts P sg c i j steps"
      and g: "(j, a) \<in> set (resolve_objectives P sg (default_recognizers P))" using c(4) by blast
    from f have "moves P sg i None j" unfolding chain_facts_def moves_gated_path by blast
    with f g c show ?R unfolding goals chain_facts_def is_entry_def index attacker_reaches_moves by blast
  next
    assume ?R
    then obtain i w j n where r: "index_of sg ke = Some i" "pg_node_weight P (sg_graph sg) i = Some (Workload w)"
      "index_of sg ko = Some j" "pg_node_weight P (sg_graph sg) j = Some n" "goal_technique n = Some a"
      "j \<noteq> i" "moves P sg i None j" unfolding attacker_reaches_moves by blast
    then have "is_entry P sg i" "(j, a) \<in> set (resolve_objectives P sg (default_recognizers P))"
      unfolding goals is_entry_def by blast+
    from chains(2) [OF this r(6,7)] obtain c steps where
      "c \<in> set cs" "chain_facts P sg c i j steps" "pc_attack c = a" by blast
    moreover from this r(1,3) have "pc_entry c = ke" "pc_objective c = ko"
      unfolding chain_facts_def index by simp_all
    ultimately show ?L by blast
  qed
qed

text \<open>The example, evaluated: \<open>web\<close> moves to the secret it can read.\<close>

lemma ex_edges:
  "pg_edges adj_ops (sg_graph ex_sg) 0 =
     [\<lparr>er_id = 2, er_source = 0, er_target = 3, er_weight = ex_edge (Reaches (Some 8080) Tcp)\<rparr>,
      \<lparr>er_id = 1, er_source = 0, er_target = 2, er_weight = ex_edge CanRead\<rparr>,
      \<lparr>er_id = 0, er_source = 0, er_target = 1, er_weight = ex_edge RunsImage\<rparr>]"
  by (simp add: ex_sg_def ex_graph_def adj_eval)

lemma ex_nodes:
  "pg_node_weight adj_ops (sg_graph ex_sg) 0 = Some (Workload ex_web)"
  "pg_node_weight adj_ops (sg_graph ex_sg) 2 =
     Some (Secret \<lparr>s_namespace = ''app'', s_name = ''db-creds''\<rparr>)"
  by (simp_all add: ex_sg_def ex_graph_def adj_eval)

lemma ex_moves: "moves adj_ops ex_sg 0 None 2"
proof -
  let ?r = "\<lparr>er_id = 1, er_source = 0, er_target = 2, er_weight = ex_edge CanRead\<rparr>"
  have "moves adj_ops ex_sg 0 None (er_target ?r)"
    by (rule moves_step [OF moves_start])
       (simp_all add: ex_edges blocked_def eligible_def is_movement_def ex_edge_def)
  then show ?thesis by simp
qed

lemma ex_index:
  "index_of ex_sg ''workload/app/Deployment/web'' = Some 0"
  "index_of ex_sg ''secret/app/db-creds'' = Some 2"
  by code_simp+

theorem prove_sound_complete_witness:
  "\<exists>cs c. prove adj_ops ex_sg = Some cs \<and> c \<in> set cs \<and> pc_entry c = ''workload/app/Deployment/web'' \<and>
     pc_objective c = ''secret/app/db-creds'' \<and> pc_attack c = CREDENTIAL_ACCESS"
proof -
  obtain cs where cs: "prove adj_ops ex_sg = Some cs"
    using adj.prove_with_spec [of ex_sg] unfolding prove_def by blast
  have "\<exists>c\<in>set cs. pc_entry c = ''workload/app/Deployment/web'' \<and>
      pc_objective c = ''secret/app/db-creds'' \<and> pc_attack c = CREDENTIAL_ACCESS"
    unfolding prove_sound_complete [OF adj.stable_graph_axioms ex_built cs] attacker_reaches_moves
    using ex_index ex_nodes ex_moves by auto
  with cs show ?thesis by blast
qed

text \<open>The same chain through the library lemmas, for the witnesses below.\<close>

lemma ex_prove:
  obtains cs c steps where "prove adj_ops ex_sg = Some cs" and "c \<in> set cs"
    and "chain_facts adj_ops ex_sg c 0 2 steps"
proof -
  have ok: "graph_ok adj_ops ex_sg" using adj.built_graph_ok [OF ex_built] .
  obtain cs where cs: "prove adj_ops ex_sg = Some cs"
    using adj.prove_with_spec [of ex_sg] unfolding prove_def by blast
  have "(2, CREDENTIAL_ACCESS) \<in> set (resolve_objectives adj_ops ex_sg (default_recognizers adj_ops))"
    unfolding default_objectives_resolved [OF adj.stable_graph_axioms ok] using ex_nodes by simp
  moreover have "is_entry adj_ops ex_sg 0" using ex_nodes by (simp add: is_entry_def)
  ultimately show thesis
    using adj.prove_with_chains(2) [OF cs [unfolded prove_def]] ex_moves that cs by fastforce
qed

lemma chain_facts_links: "chain_facts P sg c i j steps \<Longrightarrow> map (link_of P sg) steps = map Some (pc_links c)"
  by (auto simp: chain_facts_def those_map_eq_Some list_all2_conv_all_nth intro: nth_equalityI)

text \<open>
  C25. Every reported chain is a proof: its links are, in order, the edges of a path from its entry to
  its objective along movement edges, which repeats no node, leaves only the entry, compromisable
  workloads and nodes that are not workloads, and is no longer than any other such path.
\<close>

theorem chain_is_shortest_gated_path:
  assumes "stable_graph P" and "prove P sg = Some cs" and "c \<in> set cs"
  shows "\<exists>i j steps. key_of P sg i = Some (pc_entry c) \<and> key_of P sg j = Some (pc_objective c) \<and>
    gated_path P sg i None i steps j \<and> distinct (i # targets steps) \<and>
    (\<forall>t. gated_path P sg i None i t j \<longrightarrow> length steps \<le> length t) \<and>
    map (link_of P sg) steps = map Some (pc_links c) \<and> strength c = length steps"
proof -
  from stable_graph.prove_with_chains(1) [OF assms(1) assms(2) [unfolded prove_def] assms(3)]
  obtain i j steps where f: "chain_facts P sg c i j steps" by blast
  then have "map (link_of P sg) steps = map Some (pc_links c)" by (rule chain_facts_links)
  moreover from this have "strength c = length steps"
    by (metis length_map strength_def)
  ultimately show ?thesis using f unfolding chain_facts_def by blast
qed

theorem chain_is_shortest_gated_path_witness:
  "\<exists>cs c i j steps. prove adj_ops ex_sg = Some cs \<and> c \<in> set cs \<and>
     key_of adj_ops ex_sg i = Some (pc_entry c) \<and> key_of adj_ops ex_sg j = Some (pc_objective c) \<and>
     gated_path adj_ops ex_sg i None i steps j \<and> strength c = length steps"
proof (rule ex_prove)
  fix cs c assume c: "prove adj_ops ex_sg = Some cs" "c \<in> set cs"
  from chain_is_shortest_gated_path [OF adj.stable_graph_axioms c] c show ?thesis by blast
qed

text \<open>
  C3. The single-edge cuts are exactly the disconnecting edges: a link is reported as a cut of a chain
  if and only if it is the link of an edge of the graph that is not structural and whose removal
  alone makes the objective unreachable from the entry, wherever in the graph that edge lies.
\<close>

theorem single_edge_cuts_exact:
  assumes "stable_graph P" and "prove P sg = Some cs" and "c \<in> set cs"
  shows "\<exists>i j. key_of P sg i = Some (pc_entry c) \<and> key_of P sg j = Some (pc_objective c) \<and>
    attacker_reaches P sg i None j \<and>
    (\<forall>l. l \<in> set (single_edge_cuts c) \<longleftrightarrow>
       (\<exists>r\<in>set (pg_edge_references P (sg_graph sg)).
          link_of P sg (er_source r, er_target r, er_id r) = Some l \<and>
          \<not> is_structural (e_relation (er_weight r)) \<and> \<not> attacker_reaches P sg i (Some (er_id r)) j))"
proof -
  note laws = stable_graph.gated_step [OF assms(1)] stable_graph.edge_weight_of_ref [OF assms(1)]
  from stable_graph.prove_with_chains(1) [OF assms(1) assms(2) [unfolded prove_def] assms(3)]
  obtain i j steps where f: "chain_facts P sg c i j steps" by blast
  then have path: "gated_path P sg i None i steps j"
    and cuts: "those (map (link_of P sg) (filter (severs P sg i j) steps)) = Some (single_edge_cuts c)"
    by (simp_all add: chain_facts_def)
  have step: "(er_source r, er_target r, er_id r) \<in> set steps"
    if r: "r \<in> set (pg_edge_references P (sg_graph sg))" and cut: "\<not> moves P sg i (Some (er_id r)) j" for r
  proof -
    from stable_graph.cut_on_path [OF assms(1) path cut] obtain u v where uv: "(u, v, er_id r) \<in> set steps"
      by blast
    from laws(1) [OF path uv] obtain r' where "r' \<in> set (pg_edge_references P (sg_graph sg))"
      "er_id r' = er_id r" "er_source r' = u" "er_target r' = v" by blast
    with stable_graph.edge_id_unique [OF assms(1) this(1) r] uv show ?thesis by simp
  qed
  have cuttable: "is_cuttable_edge P sg (er_id r) \<longleftrightarrow> \<not> is_structural (e_relation (er_weight r))"
    if "r \<in> set (pg_edge_references P (sg_graph sg))" for r
    using laws(2) [OF that] by (simp add: is_cuttable_edge_def)
  have "l \<in> set (single_edge_cuts c) \<longleftrightarrow>
      (\<exists>r\<in>set (pg_edge_references P (sg_graph sg)).
        link_of P sg (er_source r, er_target r, er_id r) = Some l \<and>
        \<not> is_structural (e_relation (er_weight r)) \<and> \<not> moves P sg i (Some (er_id r)) j)" (is "_ \<longleftrightarrow> ?R") for l
  proof
    assume "l \<in> set (single_edge_cuts c)"
    with those_map_set [OF cuts] obtain u v e where uve: "(u, v, e) \<in> set steps"
      "severs P sg i j (u, v, e)" "link_of P sg (u, v, e) = Some l" by auto
    from laws(1) [OF path uve(1)] obtain r where "r \<in> set (pg_edge_references P (sg_graph sg))"
      "er_id r = e" "er_source r = u" "er_target r = v" by blast
    with uve cuttable [of r] show ?R by (auto simp: severs_def)
  next
    assume ?R
    then obtain r where r: "r \<in> set (pg_edge_references P (sg_graph sg))"
      "link_of P sg (er_source r, er_target r, er_id r) = Some l"
      "\<not> is_structural (e_relation (er_weight r))" "\<not> moves P sg i (Some (er_id r)) j" by blast
    with step [OF r(1,4)] cuttable [OF r(1)] show "l \<in> set (single_edge_cuts c)"
      unfolding those_map_set [OF cuts] by (auto simp: severs_def)
  qed
  with f path show ?thesis unfolding chain_facts_def attacker_reaches_moves moves_gated_path by blast
qed

theorem single_edge_cuts_exact_witness:
  "\<exists>cs c i j. prove adj_ops ex_sg = Some cs \<and> c \<in> set cs \<and>
     key_of adj_ops ex_sg i = Some (pc_entry c) \<and> key_of adj_ops ex_sg j = Some (pc_objective c) \<and>
     attacker_reaches adj_ops ex_sg i None j"
proof (rule ex_prove)
  fix cs c assume c: "prove adj_ops ex_sg = Some cs" "c \<in> set cs"
  from single_edge_cuts_exact [OF adj.stable_graph_axioms c] c show ?thesis by blast
qed

text \<open>
  C26. The path enumeration is exact: for an entry of the graph it returns at most \<open>cap\<close> paths,
  pairwise different and shortest first; each is a simple compromise-gated path from the entry to the
  objective, and unless the result is marked truncated every such path is in it.
\<close>

theorem proven_paths_exact:
  assumes "stable_graph P" and "entry \<in> dom (pg_node_weight P (sg_graph sg))"
    and "proven_paths P sg entry objective cap = (ps, tr)"
  shows "length ps \<le> cap \<and> distinct ps \<and> sorted (map length ps) \<and>
    (\<forall>p\<in>set ps. proven_path P sg entry objective p) \<and>
    (\<not> tr \<longrightarrow> set ps = {p. proven_path P sg entry objective p})"
  using stable_graph.proven_paths_spec [OF assms] by blast

lemma ex_out_edges:
  "out_edges adj_ops ex_sg 0 = [(3, 2, True), (2, 1, True), (1, 0, False)]"
  by (simp add: out_edges_def ex_edges ex_edge_def is_movement_def)

lemma ex_blocked: "blocked adj_ops ex_sg 0 3" "\<not> blocked adj_ops ex_sg 0 0"
  by (simp_all add: blocked_def compromisable_def ex_sg_def ex_graph_def adj_eval ex_edge_def)

lemma ex_paths: "proven_paths adj_ops ex_sg 0 2 MAX_PROVEN_PATHS = ([[(0, 2, 1)]], False)"
  by (simp add: proven_paths_def walk_def open_frame_def walk_loop.simps(2) ex_out_edges ex_blocked
      MAX_PROVEN_PATHS_def PATH_ENUM_BUDGET_def Let_def)

theorem proven_paths_exact_witness:
  "{p. proven_path adj_ops ex_sg 0 2 p} = {[(0, 2, 1)]}"
  using proven_paths_exact [OF adj.stable_graph_axioms ex_present ex_paths] by simp

text \<open>
  C28. The quarantine targets of a chain are exact: a target is reported precisely for the workloads
  on the chain's path that are actively exploited, and for the workloads other than the entry that are
  compromisable and reached from an internet-exposed entry over network hops only. Live evidence takes
  precedence, the entry is never reported as remotely exploitable, and a merely reached workload is
  never reported.
\<close>

theorem quarantine_targets_exact:
  assumes "stable_graph P" and "prove P sg = Some cs" and "c \<in> set cs"
  shows "\<exists>i j steps. key_of P sg i = Some (pc_entry c) \<and> key_of P sg j = Some (pc_objective c) \<and>
    gated_path P sg i None i steps j \<and> map (link_of P sg) steps = map Some (pc_links c) \<and>
    (\<forall>t. t \<in> set (quarantine_targets c) \<longleftrightarrow>
       (\<exists>n p1 p2 w. steps = p1 @ p2 \<and> gated_path P sg i None i p1 n \<and>
          pg_node_weight P (sg_graph sg) n = Some (Workload w) \<and>
          (if actively_exploited P sg n then qt_reason t = ActivelyExploited
           else qt_reason t = RemotelyExploitable \<and> n \<noteq> i \<and> entry_exposed P sg i \<and>
             compromisable P sg n \<and> (\<forall>(a, b, e)\<in>set p1. is_network_hop P sg e)) \<and>
          t = \<lparr>qt_node = key (Workload w), qt_labels = w_labels w, qt_reason = qt_reason t\<rparr>))"
proof -
  from stable_graph.prove_with_chains(1) [OF assms(1) assms(2) [unfolded prove_def] assms(3)]
  obtain i j steps where f: "chain_facts P sg c i j steps" by blast
  then have path: "gated_path P sg i None i steps j" "distinct (i # targets steps)"
    "quarantine_targets_on_path P sg i steps (entry_exposed P sg i) = Some (quarantine_targets c)"
    by (simp_all add: chain_facts_def)
  from quarantine_targets_spec [OF path(1,2), of "entry_exposed P sg i"] path(3)
  have "\<forall>t. t \<in> set (quarantine_targets c) \<longleftrightarrow>
       (\<exists>n p1 p2 w. steps = p1 @ p2 \<and> gated_path P sg i None i p1 n \<and>
          pg_node_weight P (sg_graph sg) n = Some (Workload w) \<and>
          quarantine_prefix_bar P sg i (entry_exposed P sg i) p1 n (qt_reason t) \<and>
          t = \<lparr>qt_node = key (Workload w), qt_labels = w_labels w, qt_reason = qt_reason t\<rparr>)"
    by auto
  moreover have "map (link_of P sg) steps = map Some (pc_links c)" using f by (rule chain_facts_links)
  ultimately show ?thesis
    using f path(1) unfolding quarantine_prefix_bar_def chain_facts_def by blast
qed

text \<open>
  The example cluster with a runtime alert on \<open>web\<close> and the vulnerable image on \<open>api\<close> as well: on the way to the
  secret of \<open>api\<close>, \<open>web\<close> is actively exploited and \<open>api\<close> remotely exploitable.
\<close>

definition relay_sg :: "adj_graph security_graph" where
  "relay_sg = \<lparr>sg_graph =
     AdjEdge (AdjEdge (AdjEdge
      (AdjNode (AdjNode (AdjNode (AdjNode AdjEmpty
         (Workload (ex_workload ''web'' Internet [\<lparr>rs_behavior = Alert ''reverse shell'', rs_provenance = ex_prov\<rparr>])))
         (Image ex_image))
         (Workload (ex_workload ''api'' Internal [])))
         (Secret \<lparr>s_namespace = ''app'', s_name = ''tls''\<rparr>))
       0 2 (ex_edge (Reaches (Some 8080) Tcp))) 2 1 (ex_edge RunsImage)) 2 3 (ex_edge CanRead),
     sg_index = [(''image/sha256:1'', 1), (''secret/app/tls'', 3), (''workload/app/Deployment/api'', 2),
                 (''workload/app/Deployment/web'', 0)],
     sg_incomplete = False\<rparr>"

lemma relay_eval:
  "pg_edges adj_ops (sg_graph relay_sg) 0 =
     [\<lparr>er_id = 0, er_source = 0, er_target = 2, er_weight = ex_edge (Reaches (Some 8080) Tcp)\<rparr>]"
  "pg_edges adj_ops (sg_graph relay_sg) 2 =
     [\<lparr>er_id = 2, er_source = 2, er_target = 3, er_weight = ex_edge CanRead\<rparr>,
      \<lparr>er_id = 1, er_source = 2, er_target = 1, er_weight = ex_edge RunsImage\<rparr>]"
  "pg_edges adj_ops (sg_graph relay_sg) 3 = []"
  "pg_node_weight adj_ops (sg_graph relay_sg) 0 =
     Some (Workload (ex_workload ''web'' Internet [\<lparr>rs_behavior = Alert ''reverse shell'', rs_provenance = ex_prov\<rparr>]))"
  "pg_node_weight adj_ops (sg_graph relay_sg) 1 = Some (Image ex_image)"
  "pg_node_weight adj_ops (sg_graph relay_sg) 2 = Some (Workload (ex_workload ''api'' Internal []))"
  "pg_node_weight adj_ops (sg_graph relay_sg) 3 = Some (Secret \<lparr>s_namespace = ''app'', s_name = ''tls''\<rparr>)"
  "pg_edge_weight adj_ops (sg_graph relay_sg) 0 = Some (ex_edge (Reaches (Some 8080) Tcp))"
  by (simp_all add: relay_sg_def adj_eval)

lemma relay_built: "built adj_ops relay_sg"
proof -
  have "run_ops adj_ops
      [Upsert (Workload (ex_workload ''web'' Internet [\<lparr>rs_behavior = Alert ''reverse shell'', rs_provenance = ex_prov\<rparr>])),
       Upsert (Image ex_image), Upsert (Workload (ex_workload ''api'' Internal [])),
       Upsert (Secret \<lparr>s_namespace = ''app'', s_name = ''tls''\<rparr>), Connect 0 2 (ex_edge (Reaches (Some 8080) Tcp)),
       Connect 2 1 (ex_edge RunsImage), Connect 2 3 (ex_edge CanRead)] (sg_new adj_ops) = Some relay_sg" by code_simp
  from run_ops_built [OF built_new this] show ?thesis .
qed

lemma relay_index:
  "index_of relay_sg ''workload/app/Deployment/web'' = Some 0" "index_of relay_sg ''secret/app/tls'' = Some 3"
  by code_simp+

lemma relay_bars:
  "compromisable adj_ops relay_sg 2" "entry_exposed adj_ops relay_sg 0" "is_network_hop adj_ops relay_sg 0"
  "actively_exploited adj_ops relay_sg 0" "\<not> actively_exploited adj_ops relay_sg 2"
  "\<not> blocked adj_ops relay_sg 0 0" "\<not> blocked adj_ops relay_sg 0 2"
  by (simp_all add: compromisable_def entry_exposed_def is_network_hop_def actively_exploited_def blocked_def relay_eval
      relay_eval(5) [unfolded One_nat_def] ex_edge_def ex_image_def ex_cve_def ex_workload_def is_alarming_now_cases)

lemma relay_path: "gated_path adj_ops relay_sg 0 None 0 steps 3 \<longleftrightarrow> steps = [(0, 2, 0), (2, 3, 2)]"
proof -
  have e3: "gated_path adj_ops relay_sg 0 None 3 p 3 \<longleftrightarrow> p = []" for p
    by (cases p) (auto simp: relay_eval)
  have e2: "gated_path adj_ops relay_sg 0 None 2 p 3 \<longleftrightarrow> p = [(2, 3, 2)]" for p
    by (cases p) (auto simp: relay_eval relay_bars e3 eligible_def ex_edge_def is_movement_def)
  show ?thesis
    by (cases steps) (auto simp: relay_eval relay_bars e2 eligible_def ex_edge_def is_movement_def)
qed

lemma relay_prove:
  obtains cs c where "prove adj_ops relay_sg = Some cs" and "c \<in> set cs"
    and "pc_entry c = ''workload/app/Deployment/web''" and "pc_objective c = ''secret/app/tls''"
proof -
  have ok: "graph_ok adj_ops relay_sg" using adj.built_graph_ok [OF relay_built] .
  obtain cs where cs: "prove adj_ops relay_sg = Some cs"
    using adj.prove_with_spec [of relay_sg] unfolding prove_def by blast
  have "(3, CREDENTIAL_ACCESS) \<in> set (resolve_objectives adj_ops relay_sg (default_recognizers adj_ops))"
    unfolding default_objectives_resolved [OF adj.stable_graph_axioms ok] using relay_eval by simp
  moreover have "is_entry adj_ops relay_sg 0" using relay_eval by (simp add: is_entry_def)
  moreover have "moves adj_ops relay_sg 0 None 3" unfolding moves_gated_path using relay_path by blast
  ultimately obtain c steps where c: "c \<in> set cs" and f: "chain_facts adj_ops relay_sg c 0 3 steps"
    using adj.prove_with_chains(2) [OF cs [unfolded prove_def], of 0 3] by fastforce
  from f have "index_of relay_sg (pc_entry c) = Some 0" "index_of relay_sg (pc_objective c) = Some 3"
    unfolding graph_ok_index [OF ok] chain_facts_def by simp_all
  with relay_index have "pc_entry c = ''workload/app/Deployment/web''" "pc_objective c = ''secret/app/tls''"
    unfolding graph_ok_index [OF ok] by (simp_all only: option.inject)
  then show thesis by (rule that [OF cs c])
qed

theorem quarantine_targets_exact_witness:
  "\<exists>cs c. prove adj_ops relay_sg = Some cs \<and> c \<in> set cs \<and>
     \<lparr>qt_node = ''workload/app/Deployment/web'', qt_labels = [(''app'', ''web'')], qt_reason = ActivelyExploited\<rparr>
       \<in> set (quarantine_targets c) \<and>
     \<lparr>qt_node = ''workload/app/Deployment/api'', qt_labels = [(''app'', ''api'')], qt_reason = RemotelyExploitable\<rparr>
       \<in> set (quarantine_targets c)"
proof (rule relay_prove)
  fix cs c assume c: "prove adj_ops relay_sg = Some cs" "c \<in> set cs"
    and ends: "pc_entry c = ''workload/app/Deployment/web''" "pc_objective c = ''secret/app/tls''"
  note index = graph_ok_index [OF adj.built_graph_ok [OF relay_built]]
  from quarantine_targets_exact [OF adj.stable_graph_axioms c] obtain i j steps where
    ij: "key_of adj_ops relay_sg i = Some (pc_entry c)" "key_of adj_ops relay_sg j = Some (pc_objective c)"
    and path: "gated_path adj_ops relay_sg i None i steps j"
    and t: "\<forall>t. t \<in> set (quarantine_targets c) \<longleftrightarrow>
       (\<exists>n p1 p2 w. steps = p1 @ p2 \<and> gated_path adj_ops relay_sg i None i p1 n \<and>
          pg_node_weight adj_ops (sg_graph relay_sg) n = Some (Workload w) \<and>
          (if actively_exploited adj_ops relay_sg n then qt_reason t = ActivelyExploited
           else qt_reason t = RemotelyExploitable \<and> n \<noteq> i \<and> entry_exposed adj_ops relay_sg i \<and>
             compromisable adj_ops relay_sg n \<and> (\<forall>(a, b, e)\<in>set p1. is_network_hop adj_ops relay_sg e)) \<and>
          t = \<lparr>qt_node = key (Workload w), qt_labels = w_labels w, qt_reason = qt_reason t\<rparr>)"
    by (elim exE conjE)
  have "i = 0" "j = 3" using ij relay_index unfolding ends index [symmetric] by simp_all
  then have steps: "steps = [] @ [(0, 2, 0), (2, 3, 2)]" "steps = [(0, 2, 0)] @ [(2, 3, 2)]"
    using path relay_path by simp_all
  let ?web = "ex_workload ''web'' Internet [\<lparr>rs_behavior = Alert ''reverse shell'', rs_provenance = ex_prov\<rparr>]"
  let ?api = "ex_workload ''api'' Internal []"
  have keys: "key (Workload ?web) = ''workload/app/Deployment/web''" "w_labels ?web = [(''app'', ''web'')]"
    "key (Workload ?api) = ''workload/app/Deployment/api''" "w_labels ?api = [(''app'', ''api'')]"
    by (simp_all add: ex_workload_def workload_key_def)
  have hop: "gated_path adj_ops relay_sg 0 None 0 [(0, 2, 0)] 2"
    by (simp add: relay_eval relay_bars eligible_def ex_edge_def is_movement_def)
  have "\<lparr>qt_node = key (Workload ?web), qt_labels = w_labels ?web, qt_reason = ActivelyExploited\<rparr> \<in> set (quarantine_targets c)"
    unfolding t [rule_format] \<open>i = 0\<close>
    by (intro exI [of _ 0] exI [of _ "[]"] exI [of _ "[(0, 2, 0), (2, 3, 2)]"] exI [of _ ?web])
       (simp add: steps(1) relay_eval(4) relay_bars(4))
  moreover have "\<lparr>qt_node = key (Workload ?api), qt_labels = w_labels ?api, qt_reason = RemotelyExploitable\<rparr>
      \<in> set (quarantine_targets c)"
    unfolding t [rule_format] \<open>i = 0\<close>
    by (intro exI [of _ 2] exI [of _ "[(0, 2, 0)]"] exI [of _ "[(2, 3, 2)]"] exI [of _ ?api] conjI hop relay_eval(6) steps(2))
       (simp_all add: relay_bars(1-3,5))
  ultimately show ?thesis using c unfolding keys by (intro exI conjI)
qed

text \<open>
  A boundary break always rests on live evidence of the workload itself: the node is a workload
  with a runtime signal that is an on-host credential read, a ptrace attach or a module load, or a
  root escalation together with an escape edge, or it is actively exploited, named by the model, and
  shares its host with another workload that is also actively exploited and named. The model's word
  alone, or escape potential alone, never suffices.
\<close>

theorem boundary_break_needs_evidence:
  assumes "stable_graph P" and "boundary_break P sg x model_attack"
  shows "(\<exists>s\<in>set (entry_runtime P sg x).
      (\<exists>k. rs_behavior s = SecretRead k HostPath) \<or>
      rs_behavior s = PtraceAttach \<or> rs_behavior s = ModuleLoad \<or>
      (\<exists>uid. rs_behavior s = PrivilegeChange uid 0 \<and> uid \<noteq> 0 \<and> has_outgoing_escape P sg x)) \<or>
    (\<exists>n h. n \<noteq> x \<and> placed_on P sg x h \<and> placed_on P sg n h \<and>
       actively_exploited P sg x \<and> actively_exploited P sg n \<and>
       (\<exists>k\<in>set model_attack. key_of P sg x = Some k) \<and> (\<exists>k\<in>set model_attack. key_of P sg n = Some k))"
proof -
  have decisive: "is_decisive_attack_and_exploited P sg n model_attack \<longleftrightarrow>
      actively_exploited P sg n \<and> (\<exists>k\<in>set model_attack. key_of P sg n = Some k)" for n
    by (auto simp: is_decisive_attack_and_exploited_def split: option.splits)
  consider "host_path_secret_read P sg x" | "root_escalation_with_escape P sg x"
    | "kernel_tamper P sg x" | "co_resident_dual_compromise P sg x model_attack"
    using assms(2) by (auto simp: boundary_break_def)
  then show ?thesis
  proof cases
    case 1
    then show ?thesis unfolding host_path_secret_read_def list_ex_iff case_behavior by blast
  next
    case 2
    then show ?thesis unfolding root_escalation_with_escape_def list_ex_iff case_behavior by blast
  next
    case 3
    then show ?thesis by (auto simp: kernel_tamper_def list_ex_iff)
  next
    case 4
    then obtain h where h: "scheduled_host P sg x = Some h"
      by (auto simp: co_resident_dual_compromise_def split: if_splits option.splits)
    from 4 stable_graph.co_resident_iff [OF assms(1) h] obtain n where
      "is_decisive_attack_and_exploited P sg x model_attack" "n \<noteq> x" "placed_on P sg n h"
      "is_decisive_attack_and_exploited P sg n model_attack" by blast
    with stable_graph.scheduled_host_Some [OF assms(1) h] show ?thesis unfolding decisive by blast
  qed
qed

theorem boundary_break_needs_evidence_witness:
  "\<exists>s\<in>set (entry_runtime adj_ops brk_sg 0). rs_behavior s = PtraceAttach"
proof -
  have "boundary_break adj_ops brk_sg 0 []"
    by (simp add: boundary_break_def kernel_tamper_def entry_runtime_def brk_sg_def adj_eval
        ex_workload_def)
  from boundary_break_needs_evidence [OF adj.stable_graph_axioms this] show ?thesis
    by (simp add: entry_runtime_def brk_sg_def adj_eval ex_workload_def)
qed

text \<open>
  The representative path need not be the first of the listed paths: on the cluster \<open>two_ways\<close>
  the walk of the proof reaches the secret through the identity that was connected last, while the
  list of paths starts with the one through the identity of the smaller index.
\<close>

theorem representative_path_not_first:
  "\<exists>tree. movement_tree adj_ops two_ways 0 None = Some tree \<and>
     path_steps tree 0 3 = Some [(0, 2, 2), (2, 3, 3)] \<and>
     proven_paths adj_ops two_ways 0 3 MAX_PROVEN_PATHS =
       ([[(0, 1, 0), (1, 3, 1)], [(0, 2, 2), (2, 3, 3)]], False)"
proof -
  have edges: "pg_edges adj_ops (sg_graph two_ways) 0 =
      [\<lparr>er_id = 2, er_source = 0, er_target = 2, er_weight = ex_edge RunsAs\<rparr>,
       \<lparr>er_id = 0, er_source = 0, er_target = 1, er_weight = ex_edge RunsAs\<rparr>]"
    "pg_edges adj_ops (sg_graph two_ways) 1 =
      [\<lparr>er_id = 1, er_source = 1, er_target = 3, er_weight = ex_edge CanRead\<rparr>]"
    "pg_edges adj_ops (sg_graph two_ways) 2 =
      [\<lparr>er_id = 3, er_source = 2, er_target = 3, er_weight = ex_edge CanRead\<rparr>]"
    "pg_edges adj_ops (sg_graph two_ways) 3 = []"
    by (simp_all add: two_ways_def adj_eval)
  have free: "\<not> blocked adj_ops two_ways 0 n" if "n < 4" for n
    using that by (auto simp: blocked_def two_ways_def adj_eval numeral_eq_Suc less_Suc_eq)
  note out = out_edges_def edges ex_edge_def is_movement_def
  have "movement_tree adj_ops two_ways 0 None = Some [2 \<mapsto> (0, 2), 1 \<mapsto> (0, 0), 3 \<mapsto> (2, 3)]"
    by (simp add: movement_tree_def movement_loop.simps edges free relax_edge_def ex_edge_def
        is_movement_def del: One_nat_def)
  moreover have "path_steps [2 \<mapsto> (0, 2), 1 \<mapsto> (0, 0), 3 \<mapsto> (2, 3)] 0 3 = Some [(0, 2, 2), (2, 3, 3)]"
    by (simp add: path_steps_def path_back.simps)
  moreover have "proven_paths adj_ops two_ways 0 3 MAX_PROVEN_PATHS =
       ([[(0, 1, 0), (1, 3, 1)], [(0, 2, 2), (2, 3, 3)]], False)"
    by (simp add: proven_paths_def walk_def open_frame_def walk_loop.simps(2) out free
        MAX_PROVEN_PATHS_def PATH_ENUM_BUDGET_def Let_def del: One_nat_def)
  ultimately show ?thesis by blast
qed

end
