(* ===== verification/Respond.thy ===== *)
theory Respond
  imports Prove
begin

text \<open>
  The response layer (\<open>engine/src/engine/respond/mod.rs\<close>): the proposed actions, the containment
  ladder, and the mitigation ledger, whose \<open>reconcile\<close> turns the proven chains and the decisions of
  the model into the active set of mitigations. The decision types are those of
  \<open>reason/adjudicate/incident/mod.rs\<close>. The ledger is a sorted map keyed by the cut signature.
\<close>

section \<open>Actions\<close>

datatype proposed_action =
    DenyNetworkPath
  | RevokeRbacGrant
  | RemoveSecretMount
  | RemoveEscapePrimitive
  | RebindIdentity
  | QuarantineEntry
  | QuarantineWorkload
  | ContainNode
  | Unclassified

definition for_cut :: "link \<Rightarrow> proposed_action" where
  "for_cut lk =
     (let r = l_relation lk
      in if starts_with r ''reaches'' \<or> starts_with r ''can-egress'' then DenyNetworkPath
         else if starts_with r ''can-do'' then RevokeRbacGrant
         else if r = ''can-read'' then RemoveSecretMount
         else if starts_with r ''escapes-to'' then RemoveEscapePrimitive
         else if r = ''runs-as'' then RebindIdentity
         else Unclassified)"

definition is_reversible :: "proposed_action \<Rightarrow> bool" where
  "is_reversible a \<longleftrightarrow> a \<noteq> RemoveEscapePrimitive"

definition is_additive_live :: "proposed_action \<Rightarrow> bool" where
  "is_additive_live a \<longleftrightarrow> a = DenyNetworkPath \<or> a = QuarantineEntry \<or> a = QuarantineWorkload"

fun describe :: "proposed_action \<Rightarrow> string" where
  "describe DenyNetworkPath = ''add a scoped deny NetworkPolicy/AuthorizationPolicy''"
| "describe RevokeRbacGrant = ''remove the RBAC binding granting this verb''"
| "describe RemoveSecretMount = ''remove the secret mount/reference''"
| "describe RemoveEscapePrimitive = ''remove the container-escape primitive''"
| "describe RebindIdentity = ''rebind to a least-privilege ServiceAccount''"
| "describe QuarantineEntry =
     ''quarantine the internet-facing entry with a default-deny NetworkPolicy''"
| "describe QuarantineWorkload =
     ''quarantine the compromised workload with a default-deny NetworkPolicy''"
| "describe ContainNode =
     ''cordon the node and default-deny its co-resident pods (proven pod-boundary break '' @ em_dash @
     '' a pod-scoped policy can no longer contain this workload)''"
| "describe Unclassified = ''manual remediation (no automatic action mapped)''"

section \<open>Justifications and mitigations\<close>

record justification =
  j_entry :: string
  j_objective :: string
  j_attack :: attack_ref
  j_foothold :: bool
  j_corroborated :: bool
  j_adjudicated :: bool
  j_promoted :: bool
  j_breach_relevant :: bool

definition justification_of :: "proven_chain \<Rightarrow> justification" where
  "justification_of c =
     \<lparr>j_entry = pc_entry c, j_objective = pc_objective c, j_attack = pc_attack c,
      j_foothold = (pc_foothold c \<noteq> None), j_corroborated = corroborated c,
      j_adjudicated = adjudicated c, j_promoted = promoted c,
      j_breach_relevant = is_breach_relevant c\<rparr>"

record mitigation =
  m_cut :: link
  m_action :: proposed_action
  m_justifications :: "justification list"

definition cut_signature :: "link \<Rightarrow> string" where
  "cut_signature lk = l_from lk @ '' -['' @ l_relation lk @ '']-> '' @ l_to lk"

definition mitigation_signature :: "mitigation \<Rightarrow> string" where
  "mitigation_signature m = cut_signature (m_cut m)"

definition live_corroborating_entries :: "mitigation \<Rightarrow> string list" where
  "live_corroborating_entries m =
     map j_entry
       (filter (\<lambda>j. (j_corroborated j \<or> j_promoted j) \<and> j_adjudicated j \<and> j_breach_relevant j)
         (m_justifications m))"

definition is_live_corroborated :: "mitigation \<Rightarrow> bool" where
  "is_live_corroborated m \<longleftrightarrow> live_corroborating_entries m \<noteq> []"

section \<open>Links of the quarantine actions\<close>

definition QUARANTINE_RELATION :: string where
  "QUARANTINE_RELATION = ''quarantine-entry''"

definition QUARANTINE_WORKLOAD_RELATION :: string where
  "QUARANTINE_WORKLOAD_RELATION = ''quarantine-workload''"

definition quarantine_link :: "proven_chain \<Rightarrow> link option" where
  "quarantine_link c =
     (case pc_links c of
        [] \<Rightarrow> None
      | first # _ \<Rightarrow>
          if from_labels first = [] then None
          else Some \<lparr>l_from = pc_entry c, l_to = pc_entry c, l_relation = QUARANTINE_RELATION,
                     l_technique = None, from_labels = from_labels first,
                     to_labels = from_labels first\<rparr>)"

definition quarantine_workload_link :: "node_key \<Rightarrow> (string, string) btree \<Rightarrow> link option" where
  "quarantine_workload_link node labels =
     (if labels = [] then None
      else Some \<lparr>l_from = node, l_to = node, l_relation = QUARANTINE_WORKLOAD_RELATION,
                 l_technique = None, from_labels = labels, to_labels = labels\<rparr>)"

definition CONTAIN_NODE_RELATION :: string where
  "CONTAIN_NODE_RELATION = ''contain-node''"

definition contain_node_link :: "'g petgraph \<Rightarrow> 'g security_graph \<Rightarrow> node_key \<Rightarrow> link option" where
  "contain_node_link P sg x =
     do {
       x_idx \<leftarrow> index_of sg x;
       host_idx \<leftarrow> map_option er_target
         (find (\<lambda>r. e_relation (er_weight r) = ScheduledOn) (pg_edges P (sg_graph sg) x_idx));
       h \<leftarrow> key_of P sg host_idx;
       Some \<lparr>l_from = h, l_to = h, l_relation = CONTAIN_NODE_RELATION, l_technique = None,
             from_labels = [], to_labels = []\<rparr>
     }"

definition scheduled_on_host :: "'g petgraph \<Rightarrow> 'g security_graph \<Rightarrow> nat \<Rightarrow> (nat \<times> node) list" where
  "scheduled_on_host P sg host_idx =
     List.map_filter (\<lambda>r. map_option (\<lambda>n. (er_source r, n)) (node_at P sg (er_source r)))
       (filter (\<lambda>r. e_relation (er_weight r) = ScheduledOn)
         (pg_edges_incoming P (sg_graph sg) host_idx))"

definition is_protector_component :: "node \<Rightarrow> bool" where
  "is_protector_component n \<longleftrightarrow>
     (case n of
        Workload w \<Rightarrow>
          bt_get (w_labels w) ''app.kubernetes.io/component'' = Some ''agent'' \<or>
          bt_get (w_labels w) ''app.kubernetes.io/name'' = Some ''protector''
      | _ \<Rightarrow> False)"

definition self_severance :: "'g petgraph \<Rightarrow> 'g security_graph \<Rightarrow> node_key \<Rightarrow> bool" where
  "self_severance P sg h \<longleftrightarrow>
     (case index_of sg h of
        None \<Rightarrow> False
      | Some host_idx \<Rightarrow>
          list_ex (\<lambda>(_, n). is_protector_component n) (scheduled_on_host P sg host_idx))"

definition co_resident_workloads ::
  "'g petgraph \<Rightarrow> 'g security_graph \<Rightarrow> node_key \<Rightarrow> (node_key \<times> (string, string) btree) list" where
  "co_resident_workloads P sg h =
     (case index_of sg h of
        None \<Rightarrow> []
      | Some host_idx \<Rightarrow>
          sort_key fst
            (List.map_filter
              (\<lambda>(idx, n). case n of
                   Workload w \<Rightarrow> map_option (\<lambda>k. (k, w_labels w)) (key_of P sg idx)
                 | _ \<Rightarrow> None)
              (scheduled_on_host P sg host_idx)))"

section \<open>The containment ladder\<close>

definition containment_for :: "proven_chain \<Rightarrow> (link \<times> proposed_action) option" where
  "containment_for c =
     (case find (\<lambda>lk. is_additive_live (for_cut lk) \<and> is_reversible (for_cut lk))
             (single_edge_cuts c) of
        Some lk \<Rightarrow> Some (lk, DenyNetworkPath)
      | None \<Rightarrow>
          (case (if is_breach_relevant c then quarantine_link c else None) of
             Some lk \<Rightarrow> Some (lk, QuarantineEntry)
           | None \<Rightarrow>
               (case single_edge_cuts c of
                  [] \<Rightarrow> None
                | lk # _ \<Rightarrow> Some (lk, for_cut lk))))"

section \<open>Decisions\<close>

datatype assessment = Attack | NoAttack | Uncertain

record chosen_cut =
  cc_node :: node_key
  cc_action :: proposed_action
  cc_cut :: link
  cc_signature :: string

record incident_decision =
  d_assessment :: assessment
  d_reason :: string
  d_cuts :: "chosen_cut list"

definition uncertain :: "string \<Rightarrow> incident_decision" where
  "uncertain reason = \<lparr>d_assessment = Uncertain, d_reason = reason, d_cuts = []\<rparr>"

section \<open>The ledger\<close>

type_synonym ledger = "(string, mitigation) btree"

text \<open>\<open>entry(sig).or_insert_with(..).justifications.push(j)\<close>\<close>

definition push_justification ::
  "string \<Rightarrow> link \<Rightarrow> proposed_action \<Rightarrow> justification \<Rightarrow> ledger \<Rightarrow> ledger" where
  "push_justification sig lk action j desired =
     (let m = (case bt_get desired sig of
                 Some m \<Rightarrow> m
               | None \<Rightarrow> \<lparr>m_cut = lk, m_action = action, m_justifications = []\<rparr>)
      in bt_put sig (m\<lparr>m_justifications := m_justifications m @ [j]\<rparr>) desired)"

definition fallback_proposal :: "proven_chain \<Rightarrow> ledger \<Rightarrow> ledger" where
  "fallback_proposal c desired =
     (case containment_for c of
        None \<Rightarrow> desired
      | Some (lk, action) \<Rightarrow>
          push_justification (cut_signature lk) lk action
            ((justification_of c)\<lparr>j_adjudicated := False\<rparr>) desired)"

definition carry_forward_or_fallback :: "proven_chain \<Rightarrow> ledger \<Rightarrow> ledger \<Rightarrow> ledger" where
  "carry_forward_or_fallback c active desired =
     (let standing = filter (\<lambda>m. list_ex (\<lambda>j. j_entry j = pc_entry c) (m_justifications m))
                       (map snd active)
      in if standing = [] then fallback_proposal c desired
         else fold (\<lambda>m. push_justification (mitigation_signature m) (m_cut m) (m_action m)
                          (justification_of c)) standing desired)"

record ledger_delta =
  proposed :: "mitigation list"
  retired :: "mitigation list"
  unsevered :: "justification list"

definition delta_is_empty :: "ledger_delta \<Rightarrow> bool" where
  "delta_is_empty d \<longleftrightarrow> proposed d = [] \<and> retired d = [] \<and> unsevered d = []"

definition reconcile_breach ::
  "ledger \<Rightarrow> (string, incident_decision) btree \<Rightarrow> proven_chain \<Rightarrow> ledger \<Rightarrow> ledger" where
  "reconcile_breach active decisions c desired =
     (case bt_get decisions (pc_entry c) of
        None \<Rightarrow> carry_forward_or_fallback c active desired
      | Some d \<Rightarrow>
          if d_assessment d = Attack \<and> d_cuts d \<noteq> []
          then fold (\<lambda>lk. push_justification (cc_signature lk) (cc_cut lk) (cc_action lk)
                             (justification_of c)) (d_cuts d) desired
          else if d_assessment d = NoAttack then desired
          else if d_assessment d = Uncertain then carry_forward_or_fallback c active desired
          else fallback_proposal c desired)"

definition reconcile_internal :: "proven_chain \<Rightarrow> ledger \<Rightarrow> ledger" where
  "reconcile_internal c desired =
     (let primary = containment_for c;
          desired1 = (case primary of
                        None \<Rightarrow> desired
                      | Some (lk, action) \<Rightarrow>
                          push_justification (cut_signature lk) lk action (justification_of c) desired);
          contained = (case primary of Some (_, action) \<Rightarrow> is_additive_live action | None \<Rightarrow> False)
      in fold (\<lambda>t d. if qt_node t = pc_entry c \<and> contained then d
                     else (case quarantine_workload_link (qt_node t) (qt_labels t) of
                             None \<Rightarrow> d
                           | Some lk \<Rightarrow>
                               push_justification (cut_signature lk) lk QuarantineWorkload
                                 (justification_of c) d))
           (quarantine_targets c) desired1)"

definition reconcile_chain ::
  "ledger \<Rightarrow> (string, incident_decision) btree \<Rightarrow> proven_chain \<Rightarrow> ledger \<times> justification list \<Rightarrow>
     ledger \<times> justification list" where
  "reconcile_chain active decisions c st =
     (case st of (desired, unsev) \<Rightarrow>
        (if is_breach_relevant c then reconcile_breach active decisions c desired
         else reconcile_internal c desired,
         if containment_for c = None then unsev @ [justification_of c] else unsev))"

definition reconcile ::
  "proven_chain list \<Rightarrow> (string, incident_decision) btree \<Rightarrow> ledger \<Rightarrow> ledger \<times> ledger_delta" where
  "reconcile chs decisions active =
     (case fold (reconcile_chain active decisions) chs ([], []) of
        (desired, unsev) \<Rightarrow>
          (desired,
           \<lparr>proposed = map snd (filter (\<lambda>(k, _). bt_get active k = None) desired),
            retired = map snd (filter (\<lambda>(k, _). bt_get desired k = None) active),
            unsevered = unsev\<rparr>))"

section \<open>The contributions of a chain\<close>

text \<open>
  What one chain writes into the desired set, as a list of entries; \<open>reconcile\<close> is the fold of
  \<open>push\<close> over the contributions of all chains.
\<close>

type_synonym contribution = "string \<times> link \<times> proposed_action \<times> justification"

definition push :: "contribution \<Rightarrow> ledger \<Rightarrow> ledger" where
  "push x = (case x of (sig, lk, a, j) \<Rightarrow> push_justification sig lk a j)"

definition fallback_contrib :: "proven_chain \<Rightarrow> contribution list" where
  "fallback_contrib c =
     (case containment_for c of
        None \<Rightarrow> []
      | Some (lk, a) \<Rightarrow> [(cut_signature lk, lk, a, (justification_of c)\<lparr>j_adjudicated := False\<rparr>)])"

definition standing :: "string \<Rightarrow> ledger \<Rightarrow> mitigation list" where
  "standing entry active =
     filter (\<lambda>m. list_ex (\<lambda>j. j_entry j = entry) (m_justifications m)) (map snd active)"

definition carry_contrib :: "proven_chain \<Rightarrow> ledger \<Rightarrow> contribution list" where
  "carry_contrib c active =
     (if standing (pc_entry c) active = [] then fallback_contrib c
      else map (\<lambda>m. (mitigation_signature m, m_cut m, m_action m, justification_of c))
             (standing (pc_entry c) active))"

definition breach_contrib ::
  "ledger \<Rightarrow> (string, incident_decision) btree \<Rightarrow> proven_chain \<Rightarrow> contribution list" where
  "breach_contrib active decisions c =
     (case bt_get decisions (pc_entry c) of
        None \<Rightarrow> carry_contrib c active
      | Some d \<Rightarrow>
          (case d_assessment d of
             Attack \<Rightarrow>
               if d_cuts d = [] then fallback_contrib c
               else map (\<lambda>x. (cc_signature x, cc_cut x, cc_action x, justification_of c)) (d_cuts d)
           | NoAttack \<Rightarrow> []
           | Uncertain \<Rightarrow> carry_contrib c active))"

definition internal_contrib :: "proven_chain \<Rightarrow> contribution list" where
  "internal_contrib c =
     (case containment_for c of
        None \<Rightarrow> []
      | Some (lk, a) \<Rightarrow> [(cut_signature lk, lk, a, justification_of c)]) @
     List.map_filter
       (\<lambda>t. if qt_node t = pc_entry c \<and>
               (case containment_for c of Some (_, a) \<Rightarrow> is_additive_live a | None \<Rightarrow> False)
            then None
            else map_option (\<lambda>lk. (cut_signature lk, lk, QuarantineWorkload, justification_of c))
                   (quarantine_workload_link (qt_node t) (qt_labels t)))
       (quarantine_targets c)"

definition chain_contrib ::
  "ledger \<Rightarrow> (string, incident_decision) btree \<Rightarrow> proven_chain \<Rightarrow> contribution list" where
  "chain_contrib active decisions c =
     (if is_breach_relevant c then breach_contrib active decisions c else internal_contrib c)"

lemma fold_map_push:
  "fold (\<lambda>x. push_justification (f x) (g x) (h x) (k x)) xs d =
     fold push (map (\<lambda>x. (f x, g x, h x, k x)) xs) d"
  by (induction xs arbitrary: d) (simp_all add: push_def)

lemma fallback_push: "fallback_proposal c d = fold push (fallback_contrib c) d"
  by (simp add: fallback_proposal_def fallback_contrib_def push_def split: option.split)

lemma carry_push: "carry_forward_or_fallback c active d = fold push (carry_contrib c active) d"
  by (simp add: carry_forward_or_fallback_def carry_contrib_def standing_def fallback_push
      fold_map_push Let_def)

lemma breach_push: "reconcile_breach active decisions c d = fold push (breach_contrib active decisions c) d"
  by (simp add: reconcile_breach_def breach_contrib_def carry_push fallback_push fold_map_push
      split: option.split assessment.split)

lemma fold_option_push:
  "fold (\<lambda>t d. if P t then d else (case f t of None \<Rightarrow> d | Some lk \<Rightarrow> push_justification (s lk) lk a j d)) ts d =
     fold push (List.map_filter (\<lambda>t. if P t then None else map_option (\<lambda>lk. (s lk, lk, a, j)) (f t)) ts) d"
  by (induction ts arbitrary: d) (auto simp: List.map_filter_simps push_def split: option.split)

lemma internal_push: "reconcile_internal c d = fold push (internal_contrib c) d"
  unfolding reconcile_internal_def internal_contrib_def Let_def fold_option_push fold_append o_def
  by (simp add: push_def split: option.split)

lemma reconcile_fold:
  "fst (fold (reconcile_chain active decisions) chs (d, u)) =
     fold push (concat (map (chain_contrib active decisions) chs)) d"
  by (induction chs arbitrary: d u)
     (simp_all add: reconcile_chain_def chain_contrib_def breach_push internal_push)

lemma reconcile_desired:
  "fst (reconcile chs decisions active) =
     fold push (concat (map (chain_contrib active decisions) chs)) []"
  unfolding reconcile_fold [of active decisions chs "[]" "[]", symmetric]
  by (simp add: reconcile_def split: prod.split)

section \<open>The desired set\<close>

definition contrib_sig :: "contribution \<Rightarrow> string" where
  "contrib_sig x = fst x"

definition collected :: "contribution list \<Rightarrow> string \<Rightarrow> mitigation option" where
  "collected xs k =
     (case filter (\<lambda>x. contrib_sig x = k) xs of
        [] \<Rightarrow> None
      | (sig, lk, a, j) # ys \<Rightarrow>
          Some \<lparr>m_cut = lk, m_action = a, m_justifications = j # map (\<lambda>(_, _, _, j). j) ys\<rparr>)"

lemma push_eq: "push (sig, lk, a, j) d = push_justification sig lk a j d"
  by (simp add: push_def)

lemma collected_snoc:
  "collected (xs @ [(sig, lk, a, j)]) k =
     (if k = sig
      then (case collected xs sig of
              None \<Rightarrow> Some \<lparr>m_cut = lk, m_action = a, m_justifications = [j]\<rparr>
            | Some m \<Rightarrow> Some (m\<lparr>m_justifications := m_justifications m @ [j]\<rparr>))
      else collected xs k)"
  by (auto simp: collected_def contrib_sig_def split: list.split)

lemma push_all: "bt_ok (fold push xs []) \<and> bt_get (fold push xs []) k = collected xs k"
proof (induction xs arbitrary: k rule: rev_induct)
  case Nil
  then show ?case by (simp add: collected_def bt_get_def)
next
  case (snoc x xs)
  obtain sig lk a j where x: "x = (sig, lk, a, j)" by (cases x)
  have ok: "bt_ok (fold push xs [])" using snoc by blast
  have "bt_ok (push x (fold push xs [])) \<and>
      bt_get (push x (fold push xs [])) k = collected (xs @ [x]) k"
    unfolding x push_eq push_justification_def Let_def bt.get_put [OF ok] collected_snoc
    using ok snoc [of sig] snoc [of k] by (simp split: option.split)
  then show ?case by simp
qed

lemma collected_mem:
  "collected xs k = Some m \<Longrightarrow> j \<in> set (m_justifications m) \<longleftrightarrow> (\<exists>lk a. (k, lk, a, j) \<in> set xs)"
proof (induction xs arbitrary: m rule: rev_induct)
  case (snoc x xs)
  obtain sig lk a j' where x: "x = (sig, lk, a, j')" by (cases x)
  show ?case
  proof (cases "collected xs k")
    case None
    then have "\<nexists>lk a j. (k, lk, a, j) \<in> set xs"
      by (auto simp: collected_def contrib_sig_def filter_empty_conv split: list.splits)
    with None snoc.prems show ?thesis by (auto simp: x collected_snoc split: if_splits)
  next
    case (Some m')
    with snoc.IH [of m'] snoc.prems show ?thesis by (auto simp: x collected_snoc split: if_splits)
  qed
qed (simp add: collected_def)

lemma collected_None: "collected xs k = None \<longleftrightarrow> k \<notin> contrib_sig ` set xs"
proof -
  have "collected xs k = None \<longleftrightarrow> filter (\<lambda>x. contrib_sig x = k) xs = []"
    by (simp add: collected_def split: list.split prod.split)
  then show ?thesis by (auto simp: filter_empty_conv)
qed

lemma collected_cut:
  "collected xs k = Some m \<Longrightarrow> m_justifications m \<noteq> [] \<and> (\<exists>j. (k, m_cut m, m_action m, j) \<in> set xs)"
proof (induction xs arbitrary: m rule: rev_induct)
  case (snoc x xs)
  obtain sig lk a j where x: "x = (sig, lk, a, j)" by (cases x)
  from snoc show ?case
    by (cases "collected xs k") (auto simp: x collected_snoc split: if_splits)
qed (simp add: collected_def)

section \<open>The active set after a reconcile\<close>

abbreviation all_contrib ::
  "proven_chain list \<Rightarrow> (string, incident_decision) btree \<Rightarrow> ledger \<Rightarrow> contribution list" where
  "all_contrib chs decisions active \<equiv> concat (map (chain_contrib active decisions) chs)"

lemma ledger_get:
  "bt_ok (fst (reconcile chs decisions active))"
  "bt_get (fst (reconcile chs decisions active)) k = collected (all_contrib chs decisions active) k"
  unfolding reconcile_desired using push_all by auto

definition stamped_off :: "justification \<Rightarrow> justification" where
  "stamped_off j = j\<lparr>j_adjudicated := False\<rparr>"

lemma stamped_off_adjudicated [simp]: "\<not> j_adjudicated (stamped_off j)"
  by (simp add: stamped_off_def)

text \<open>Where a contribution can come from.\<close>

lemma fallback_contrib_mem:
  "(k, lk, a, j) \<in> set (fallback_contrib c) \<longleftrightarrow>
     containment_for c = Some (lk, a) \<and> k = cut_signature lk \<and> j = stamped_off (justification_of c)"
  by (auto simp: fallback_contrib_def stamped_off_def split: option.splits)

lemma standing_mem:
  "bt_ok active \<Longrightarrow> m \<in> set (standing e active) \<longleftrightarrow>
     (\<exists>k. bt_get active k = Some m) \<and> (\<exists>j\<in>set (m_justifications m). j_entry j = e)"
  by (auto simp: standing_def list_ex_iff bt_entries [symmetric] image_iff) force+

lemma carry_contrib_mem:
  "(k, lk, a, j) \<in> set (carry_contrib c active) \<longleftrightarrow>
     (if standing (pc_entry c) active = [] then (k, lk, a, j) \<in> set (fallback_contrib c)
      else j = justification_of c \<and>
        (\<exists>m\<in>set (standing (pc_entry c) active).
           k = mitigation_signature m \<and> lk = m_cut m \<and> a = m_action m))"
  by (auto simp: carry_contrib_def)

lemma internal_contrib_mem:
  "(k, lk, a, j) \<in> set (internal_contrib c) \<Longrightarrow> k = cut_signature lk \<and> j = justification_of c"
  by (auto simp: internal_contrib_def set_map_filter split: option.splits if_splits)

lemma chain_contrib_justification:
  "(k, lk, a, j) \<in> set (chain_contrib active decisions c) \<Longrightarrow>
     j = justification_of c \<or> j = stamped_off (justification_of c)"
  by (auto simp: chain_contrib_def breach_contrib_def carry_contrib_mem fallback_contrib_mem
      internal_contrib_mem split: if_splits option.splits assessment.splits)

definition ledger_ok :: "ledger \<Rightarrow> bool" where
  "ledger_ok active \<longleftrightarrow> bt_ok active \<and>
     (\<forall>(k, m)\<in>set active. k = mitigation_signature m \<and> m_justifications m \<noteq> [])"

definition decisions_ok :: "(string, incident_decision) btree \<Rightarrow> bool" where
  "decisions_ok decisions \<longleftrightarrow>
     (\<forall>(e, d)\<in>set decisions. \<forall>x\<in>set (d_cuts d). cc_signature x = cut_signature (cc_cut x))"

lemma decisions_okD:
  "decisions_ok decisions \<Longrightarrow> bt_get decisions e = Some d \<Longrightarrow> x \<in> set (d_cuts d) \<Longrightarrow>
     cc_signature x = cut_signature (cc_cut x)"
  by (auto simp: decisions_ok_def bt_get_def dest!: map_of_SomeD)

lemma chain_contrib_signature:
  assumes "decisions_ok decisions"
  shows "(k, lk, a, j) \<in> set (chain_contrib active decisions c) \<Longrightarrow> k = cut_signature lk"
  using decisions_okD [OF assms]
  by (auto simp: chain_contrib_def breach_contrib_def carry_contrib_mem fallback_contrib_mem
      mitigation_signature_def internal_contrib_mem split: if_splits option.splits assessment.splits)

section \<open>An example chain\<close>

definition web_key :: node_key where
  "web_key = ''workload/app/Deployment/web''"

definition web_read :: link where
  "web_read = \<lparr>l_from = web_key, l_to = ''secret/app/db-creds'', l_relation = ''can-read'',
     l_technique = Some CREDENTIAL_ACCESS, from_labels = [(''app'', ''web'')], to_labels = []\<rparr>"

definition web_chain :: proven_chain where
  "web_chain = \<lparr>pc_entry = web_key, pc_objective = ''secret/app/db-creds'', pc_attack = CREDENTIAL_ACCESS,
     pc_foothold = Some EXPLOIT_PUBLIC_FACING, corroborated = True, adjudicated = True, promoted = False,
     exposed_entry = True, verdict = None, pc_links = [web_read], pc_paths = [[web_read]],
     paths_truncated = False, single_edge_cuts = [web_read], quarantine_targets = []\<rparr>"

definition web_quarantine :: link where
  "web_quarantine = \<lparr>l_from = web_key, l_to = web_key, l_relation = QUARANTINE_RELATION,
     l_technique = None, from_labels = [(''app'', ''web'')], to_labels = [(''app'', ''web'')]\<rparr>"

definition web_cut :: chosen_cut where
  "web_cut = \<lparr>cc_node = web_key, cc_action = QuarantineEntry, cc_cut = web_quarantine,
     cc_signature = cut_signature web_quarantine\<rparr>"

definition web_attack :: "(string, incident_decision) btree" where
  "web_attack = [(web_key, \<lparr>d_assessment = Attack, d_reason = ''live shell'', d_cuts = [web_cut]\<rparr>)]"

definition web_mitigation :: mitigation where
  "web_mitigation = \<lparr>m_cut = web_quarantine, m_action = QuarantineEntry,
     m_justifications = [justification_of web_chain]\<rparr>"

lemma web_containment: "containment_for web_chain = Some (web_quarantine, QuarantineEntry)"
  by (simp add: containment_for_def web_chain_def web_read_def web_quarantine_def for_cut_def
      is_additive_live_def is_breach_relevant_def quarantine_link_def Let_def starts_with_def)

lemma web_decided:
  "fst (reconcile [web_chain] web_attack []) = [(cut_signature web_quarantine, web_mitigation)]"
  by (simp add: reconcile_desired chain_contrib_def breach_contrib_def web_attack_def web_mitigation_def
      web_cut_def bt_get_def push_eq push_justification_def Let_def is_breach_relevant_def)
     (simp add: web_chain_def)

lemma web_mitigation_live: "is_live_corroborated web_mitigation"
  by (simp add: is_live_corroborated_def live_corroborating_entries_def web_mitigation_def
      justification_of_def web_chain_def is_breach_relevant_def)

section \<open>Properties\<close>

text \<open>
  C23. Every reconcile over decisions whose cuts carry the signature of their own edge establishes the
  ledger invariant, whatever the ledger held before: the active set is a sorted map, every
  mitigation is stored under the signature of the edge it cuts, and every mitigation is justified by
  at least one chain of this very pass. No chain, no mitigation.
\<close>

theorem reconcile_ledger_invariant:
  assumes "decisions_ok decisions"
  shows "ledger_ok (fst (reconcile chs decisions active)) \<and>
    (\<forall>k m. bt_get (fst (reconcile chs decisions active)) k = Some m \<longrightarrow>
       (\<forall>j\<in>set (m_justifications m). \<exists>c\<in>set chs.
          j_entry j = pc_entry c \<and> j_objective j = pc_objective c \<and> j_attack j = pc_attack c \<and>
          j_breach_relevant j = exposed_entry c))"
proof -
  have "k = mitigation_signature m \<and> m_justifications m \<noteq> []"
    if "collected (all_contrib chs decisions active) k = Some m" for k m
    using collected_cut [OF that] chain_contrib_signature [OF assms]
    by (auto simp: mitigation_signature_def)
  then have ok: "ledger_ok (fst (reconcile chs decisions active))"
    unfolding ledger_ok_def using ledger_get by (auto simp: bt_entries)
  have "\<exists>c\<in>set chs. j_entry j = pc_entry c \<and> j_objective j = pc_objective c \<and>
      j_attack j = pc_attack c \<and> j_breach_relevant j = exposed_entry c"
    if "collected (all_contrib chs decisions active) k = Some m" "j \<in> set (m_justifications m)" for k m j
  proof -
    from that collected_mem obtain lk a where "(k, lk, a, j) \<in> set (all_contrib chs decisions active)"
      by metis
    then obtain c where c: "c \<in> set chs" "(k, lk, a, j) \<in> set (chain_contrib active decisions c)" by auto
    from chain_contrib_justification [OF c(2)] c(1) show ?thesis
      by (auto simp: justification_of_def stamped_off_def is_breach_relevant_def)
  qed
  with ok show ?thesis unfolding ledger_get(2) by blast
qed

theorem reconcile_ledger_invariant_witness:
  "ledger_ok (fst (reconcile [web_chain] web_attack []))"
  using reconcile_ledger_invariant [of web_attack "[web_chain]" "[]"]
  by (simp add: decisions_ok_def web_attack_def web_cut_def)

text \<open>
  The delta of a reconcile is exact: over a sorted active set the proposed mitigations are those
  of the new set whose signature was not active, the retired ones are those of the old set whose
  signature is no longer desired, and a chain is reported unsevered exactly when the ladder finds no
  containment for it.
\<close>

theorem reconcile_delta_exact:
  assumes "bt_ok active" and "reconcile chs decisions active = (active', delta)"
  shows "set (proposed delta) = {m. \<exists>k. bt_get active' k = Some m \<and> bt_get active k = None} \<and>
    set (retired delta) = {m. \<exists>k. bt_get active k = Some m \<and> bt_get active' k = None} \<and>
    set (unsevered delta) = justification_of ` {c \<in> set chs. containment_for c = None}"
proof -
  obtain u where u: "fold (reconcile_chain active decisions) chs ([], []) = (active', u)"
    and delta: "delta = \<lparr>proposed = map snd (filter (\<lambda>(k, _). bt_get active k = None) active'),
      retired = map snd (filter (\<lambda>(k, _). bt_get active' k = None) active), unsevered = u\<rparr>"
    using assms(2) by (auto simp: reconcile_def split: prod.splits)
  have ok: "bt_ok active'" using ledger_get(1) [of chs decisions active] assms(2) by simp
  have "set (snd (fold (reconcile_chain active decisions) chs (d, v))) =
      set v \<union> justification_of ` {c \<in> set chs. containment_for c = None}" for d v
    by (induction chs arbitrary: d v) (auto simp: reconcile_chain_def)
  from this [of "[]" "[]"] u have "set u = justification_of ` {c \<in> set chs. containment_for c = None}"
    by simp
  then show ?thesis
    unfolding delta by (auto simp: image_iff bt_entries [OF ok, symmetric] bt_entries [OF assms(1), symmetric])
qed

theorem reconcile_delta_exact_witness:
  "set (proposed (snd (reconcile [web_chain] web_attack []))) = {web_mitigation}"
proof -
  obtain delta where d: "reconcile [web_chain] web_attack [] =
      ([(cut_signature web_quarantine, web_mitigation)], delta)"
    using web_decided by (cases "reconcile [web_chain] web_attack []") auto
  from reconcile_delta_exact [OF bt_ok_Nil d] show ?thesis
    by (auto simp: d bt_get_def split: if_splits)
qed

text \<open>
  C4. No auto-action without the model: a mitigation of the new active set that clears the
  live-corroboration gate has a chain of this pass from an internet-facing entry that is corroborated
  or promoted and not vetoed, and either the model decided an attack on that entry and named exactly
  this cut, or there is no decisive decision on the entry and the cut was already standing for it.
\<close>

theorem live_cut_needs_model_or_standing:
  assumes "bt_ok active" and "bt_get (fst (reconcile chs decisions active)) k = Some m"
    and "is_live_corroborated m"
  shows "\<exists>c\<in>set chs. exposed_entry c \<and> (corroborated c \<or> promoted c) \<and> adjudicated c \<and>
    ((\<exists>d x. bt_get decisions (pc_entry c) = Some d \<and> d_assessment d = Attack \<and>
        x \<in> set (d_cuts d) \<and> cc_signature x = k) \<or>
     (bt_get decisions (pc_entry c) = None \<or>
        (\<exists>d. bt_get decisions (pc_entry c) = Some d \<and> d_assessment d = Uncertain)) \<and>
       (\<exists>k' m'. bt_get active k' = Some m' \<and> mitigation_signature m' = k \<and>
          (\<exists>j\<in>set (m_justifications m'). j_entry j = pc_entry c)))"
proof -
  from assms(3) obtain j where j: "j \<in> set (m_justifications m)" "j_corroborated j \<or> j_promoted j"
    "j_adjudicated j" "j_breach_relevant j"
    by (auto simp: is_live_corroborated_def live_corroborating_entries_def filter_empty_conv)
  from assms(2) j(1) obtain lk a where "(k, lk, a, j) \<in> set (all_contrib chs decisions active)"
    unfolding ledger_get(2) using collected_mem by metis
  then obtain c where c: "c \<in> set chs" and mem: "(k, lk, a, j) \<in> set (chain_contrib active decisions c)"
    by auto
  have just: "j = justification_of c"
    using chain_contrib_justification [OF mem] j(3) by (auto simp: stamped_off_def)
  have off: "j \<noteq> stamped_off (justification_of c)" using j(3) stamped_off_adjudicated by metis
  have breach: "is_breach_relevant c" using just j(4) by (simp add: justification_of_def)
  then have "(k, lk, a, j) \<in> set (breach_contrib active decisions c)"
    using mem by (simp add: chain_contrib_def)
  then have "(\<exists>d x. bt_get decisions (pc_entry c) = Some d \<and> d_assessment d = Attack \<and>
        x \<in> set (d_cuts d) \<and> cc_signature x = k) \<or>
     (bt_get decisions (pc_entry c) = None \<or>
        (\<exists>d. bt_get decisions (pc_entry c) = Some d \<and> d_assessment d = Uncertain)) \<and>
       (k, lk, a, j) \<in> set (carry_contrib c active)"
    using off by (auto simp: breach_contrib_def fallback_contrib_mem split: option.splits assessment.splits if_splits)
  then show ?thesis
    using c j just breach off standing_mem [OF assms(1), of _ "pc_entry c"]
    by (fastforce simp: carry_contrib_mem fallback_contrib_mem justification_of_def is_breach_relevant_def
        split: if_splits)
qed

theorem live_cut_needs_model_or_standing_witness:
  "bt_get (fst (reconcile [web_chain] web_attack [])) (cut_signature web_quarantine) = Some web_mitigation \<and>
   (\<exists>d x. bt_get web_attack web_key = Some d \<and> d_assessment d = Attack \<and> x \<in> set (d_cuts d) \<and>
      cc_signature x = cut_signature web_quarantine)"
proof -
  have get: "bt_get (fst (reconcile [web_chain] web_attack [])) (cut_signature web_quarantine) =
      Some web_mitigation" by (simp add: web_decided bt_get_def)
  from live_cut_needs_model_or_standing [OF bt_ok_Nil get web_mitigation_live] get show ?thesis
    by (auto simp: bt_get_def web_chain_def)
qed

text \<open>
  A decisive all-clear retires: after a reconcile in which the model decided that there is no
  attack on an entry, no active mitigation is justified by a breach path from that entry.
\<close>

theorem no_attack_retires:
  assumes "bt_get decisions e = Some d" and "d_assessment d = NoAttack"
    and "bt_get (fst (reconcile chs decisions active)) k = Some m" and "j \<in> set (m_justifications m)"
  shows "\<not> (j_entry j = e \<and> j_breach_relevant j)"
proof
  assume e: "j_entry j = e \<and> j_breach_relevant j"
  from assms(3,4) obtain lk a where "(k, lk, a, j) \<in> set (all_contrib chs decisions active)"
    unfolding ledger_get(2) using collected_mem by metis
  then obtain c where mem: "(k, lk, a, j) \<in> set (chain_contrib active decisions c)" by auto
  with chain_contrib_justification [OF mem] e have "pc_entry c = e" "is_breach_relevant c"
    by (auto simp: justification_of_def stamped_off_def)
  with mem assms(1,2) show False by (simp add: chain_contrib_def breach_contrib_def)
qed

theorem no_attack_retires_witness:
  "let decisions = [(web_key, \<lparr>d_assessment = NoAttack, d_reason = ''benign'', d_cuts = []\<rparr>)];
       inner = web_chain\<lparr>exposed_entry := False\<rparr>
   in \<exists>m. bt_get (fst (reconcile [web_chain, inner] decisions [])) (cut_signature web_read) = Some m \<and>
        justification_of inner \<in> set (m_justifications m) \<and>
        \<not> (j_entry (justification_of inner) = web_key \<and> j_breach_relevant (justification_of inner))"
proof -
  let ?d = "\<lparr>d_assessment = NoAttack, d_reason = ''benign'', d_cuts = []\<rparr>"
  let ?inner = "web_chain\<lparr>exposed_entry := False\<rparr>"
  let ?m = "\<lparr>m_cut = web_read, m_action = RemoveSecretMount, m_justifications = [justification_of ?inner]\<rparr>"
  have inner: "containment_for ?inner = Some (web_read, RemoveSecretMount)"
    by (simp add: containment_for_def web_chain_def web_read_def for_cut_def is_additive_live_def
        is_breach_relevant_def Let_def starts_with_def)
  have "is_breach_relevant web_chain" "\<not> is_breach_relevant ?inner" "pc_entry web_chain = web_key"
    "quarantine_targets ?inner = []"
    by (simp_all add: is_breach_relevant_def web_chain_def)
  then have get: "bt_get (fst (reconcile [web_chain, ?inner] [(web_key, ?d)] [])) (cut_signature web_read) = Some ?m"
    by (simp add: reconcile_desired chain_contrib_def breach_contrib_def internal_contrib_def inner
        bt_get_def push_eq push_justification_def Let_def List.map_filter_simps)
  have "bt_get [(web_key, ?d)] web_key = Some ?d" by (simp add: bt_get_def)
  from no_attack_retires [OF this _ get, of "justification_of ?inner"] get show ?thesis
    by (simp add: Let_def)
qed

text \<open>
  C27. An absent or uncertain judgement is inert: while a breach path from the entry is still proven
  and the model has no decisive decision on it, a cut that was standing for that entry stays in the
  active set. A model outage never retires a live control.
\<close>

theorem standing_cut_is_carried_forward:
  assumes "ledger_ok active" and "c \<in> set chs" and "exposed_entry c"
    and "case bt_get decisions (pc_entry c) of None \<Rightarrow> True | Some d \<Rightarrow> d_assessment d = Uncertain"
    and "bt_get active k = Some m" and "\<exists>j\<in>set (m_justifications m). j_entry j = pc_entry c"
  shows "\<exists>m'. bt_get (fst (reconcile chs decisions active)) k = Some m' \<and>
    (\<exists>j\<in>set (m_justifications m'). j_entry j = pc_entry c)"
proof -
  have k: "k = mitigation_signature m"
    using assms(1,5) by (auto simp: ledger_ok_def bt_entries [symmetric])
  have "m \<in> set (standing (pc_entry c) active)"
    using assms(1,5,6) by (auto simp: standing_mem ledger_ok_def)
  then have "(k, m_cut m, m_action m, justification_of c) \<in> set (carry_contrib c active)"
    using k by (auto simp: carry_contrib_mem)
  then have "(k, m_cut m, m_action m, justification_of c) \<in> set (chain_contrib active decisions c)"
    using assms(3,4)
    by (auto simp: chain_contrib_def breach_contrib_def is_breach_relevant_def split: option.splits)
  with assms(2) have mem: "(k, m_cut m, m_action m, justification_of c) \<in> set (all_contrib chs decisions active)"
    by auto
  then have "collected (all_contrib chs decisions active) k \<noteq> None"
    unfolding collected_None by (force simp: contrib_sig_def)
  then obtain m' where m': "collected (all_contrib chs decisions active) k = Some m'" by blast
  with collected_mem [OF m', of "justification_of c"] mem
  have "justification_of c \<in> set (m_justifications m')" by blast
  moreover have "j_entry (justification_of c) = pc_entry c" by (simp add: justification_of_def)
  ultimately show ?thesis unfolding ledger_get(2) using m' by blast
qed

theorem standing_cut_is_carried_forward_witness:
  "\<exists>m'. bt_get (fst (reconcile [web_chain] [] [(cut_signature web_quarantine, web_mitigation)]))
     (cut_signature web_quarantine) = Some m'"
proof -
  have "ledger_ok [(cut_signature web_quarantine, web_mitigation)]"
    by (simp add: ledger_ok_def bt_ok_def mitigation_signature_def web_mitigation_def)
  from standing_cut_is_carried_forward [OF this, of web_chain "[web_chain]" "[]"
      "cut_signature web_quarantine" web_mitigation]
  show ?thesis
    by (auto simp: bt_get_def web_mitigation_def justification_of_def web_chain_def)
qed

text \<open>
  The containment ladder: a network deny is chosen whenever some single-edge cut is one; otherwise
  an internet-facing labelled entry is quarantined; otherwise the first cut is proposed with its own
  action, which is then never one that could be applied live. A chain has no containment exactly when
  it has no single-edge cut and cannot be quarantined at its entry.
\<close>

theorem containment_ladder:
  "case containment_for c of
     None \<Rightarrow> single_edge_cuts c = [] \<and> (\<not> exposed_entry c \<or> quarantine_link c = None)
   | Some (lk, a) \<Rightarrow>
       if \<exists>x\<in>set (single_edge_cuts c). for_cut x = DenyNetworkPath
       then a = DenyNetworkPath \<and> lk \<in> set (single_edge_cuts c) \<and> for_cut lk = DenyNetworkPath
       else if exposed_entry c \<and> quarantine_link c \<noteq> None
       then a = QuarantineEntry \<and> quarantine_link c = Some lk
       else a = for_cut lk \<and> lk \<in> set (single_edge_cuts c) \<and> \<not> is_additive_live a"
proof -
  have deny: "is_additive_live (for_cut x) \<and> is_reversible (for_cut x) \<longleftrightarrow> for_cut x = DenyNetworkPath" for x
    by (auto simp: for_cut_def is_additive_live_def is_reversible_def Let_def)
  have live: "is_additive_live (for_cut x) \<longleftrightarrow> for_cut x = DenyNetworkPath" for x
    by (auto simp: for_cut_def is_additive_live_def Let_def)
  show ?thesis
    unfolding containment_for_def deny
    by (cases "find (\<lambda>x. for_cut x = DenyNetworkPath) (single_edge_cuts c)")
       (auto simp: find_None_iff live is_breach_relevant_def dest: find_SomeD
         split: option.split list.split)
qed

theorem containment_ladder_witness:
  "quarantine_link web_chain = Some web_quarantine \<and>
   containment_for web_chain = Some (web_quarantine, QuarantineEntry)"
proof -
  have none: "\<not> (\<exists>x\<in>set (single_edge_cuts web_chain). for_cut x = DenyNetworkPath)"
    by (simp add: web_chain_def web_read_def for_cut_def Let_def starts_with_def)
  have "exposed_entry web_chain" and "quarantine_link web_chain \<noteq> None"
    by (simp_all add: web_chain_def web_read_def quarantine_link_def)
  with containment_ladder [of web_chain] none show ?thesis by (simp add: web_containment)
qed

text \<open>
  C29. The stamp of a fallback proposal does not survive the next pass. A fallback proposal is entered
  with the adjudication flag off so that it can never clear the live-corroboration gate; but when the
  next pass still has no decision on the entry, the proposal is carried forward as a standing cut
  with the flag of the chain, and for a corroborated breach path it then clears the gate although the
  model never judged the entry.
\<close>

theorem fallback_stamp_lost_on_carry_forward:
  assumes "exposed_entry c" and "corroborated c" and "adjudicated c"
    and "containment_for c = Some (lk, a)" and "bt_get decisions (pc_entry c) = None"
  shows "let l1 = fst (reconcile [c] decisions []); l2 = fst (reconcile [c] decisions l1)
    in \<exists>m1 m2. bt_get l1 (cut_signature lk) = Some m1 \<and> \<not> is_live_corroborated m1 \<and>
         bt_get l2 (cut_signature lk) = Some m2 \<and> is_live_corroborated m2"
proof -
  let ?m = "\<lambda>j. \<lparr>m_cut = lk, m_action = a, m_justifications = [j]\<rparr>"
  let ?j1 = "stamped_off (justification_of c)" and ?j2 = "justification_of c"
  have l1: "fst (reconcile [c] decisions []) = [(cut_signature lk, ?m ?j1)]"
    using assms by (simp add: reconcile_desired chain_contrib_def breach_contrib_def carry_contrib_def
        standing_def fallback_contrib_def push_eq push_justification_def bt_get_def Let_def
        is_breach_relevant_def stamped_off_def)
  have "j_entry ?j1 = pc_entry c" by (simp add: justification_of_def stamped_off_def)
  then have l2: "fst (reconcile [c] decisions [(cut_signature lk, ?m ?j1)]) = [(cut_signature lk, ?m ?j2)]"
    using assms by (simp add: reconcile_desired chain_contrib_def breach_contrib_def carry_contrib_def
        standing_def push_eq push_justification_def bt_get_def Let_def
        is_breach_relevant_def mitigation_signature_def)
  have "\<not> is_live_corroborated (?m ?j1)" "is_live_corroborated (?m ?j2)"
    using assms by (simp_all add: is_live_corroborated_def live_corroborating_entries_def
        justification_of_def is_breach_relevant_def)
  then show ?thesis unfolding l1 l2 Let_def by (simp add: bt_get_def)
qed

theorem fallback_stamp_lost_on_carry_forward_witness:
  "\<exists>m2. bt_get (fst (reconcile [web_chain] [] (fst (reconcile [web_chain] [] []))))
     (cut_signature web_quarantine) = Some m2 \<and> is_live_corroborated m2"
  using fallback_stamp_lost_on_carry_forward [OF _ _ _ web_containment, of "[]"]
  by (auto simp: Let_def web_chain_def bt_get_def)

end
