(* ===== verification/Health.thy ===== *)
theory Health
  imports Graph
begin

text \<open>
  The health port (\<open>engine/src/engine/observe/health.rs\<close>): the serving state of a workload, the report
  keyed by workload node key, and the default source, which reads the pod status. The Kubernetes pod
  is a third-party type; the records below hold the public fields the source reads, with the
  optional fields as options.
\<close>

section \<open>The report\<close>

datatype health = Alive | Degraded | Halted

fun health_label :: "health \<Rightarrow> string" where
  "health_label Alive = ''alive''"
| "health_label Degraded = ''degraded''"
| "health_label Halted = ''halted''"

type_synonym health_report = "(node_key, health) btree"

definition health_of :: "health_report \<Rightarrow> node_key \<Rightarrow> health" where
  "health_of states k = (case bt_get states k of Some h \<Rightarrow> h | None \<Rightarrow> Alive)"

fun health_count :: "health \<Rightarrow> nat \<times> nat \<times> nat \<Rightarrow> nat \<times> nat \<times> nat" where
  "health_count Alive (a, d, h) = (a + 1, d, h)"
| "health_count Degraded (a, d, h) = (a, d + 1, h)"
| "health_count Halted (a, d, h) = (a, d, h + 1)"

definition health_counts :: "health_report \<Rightarrow> nat \<times> nat \<times> nat" where
  "health_counts states = fold (\<lambda>(_, h). health_count h) states (0, 0, 0)"

definition health_insert :: "node_key \<Rightarrow> health \<Rightarrow> health_report \<Rightarrow> health_report" where
  "health_insert k h states = bt_put k h states"

definition alive_workloads :: "health_report \<Rightarrow> string list" where
  "alive_workloads states = map fst (filter (\<lambda>(_, h). h = Alive) states)"

section \<open>Pod status\<close>

record pod_condition =
  cond_type :: string
  cond_status :: string

text \<open>A container's state carries an optional waiting state with an optional reason.\<close>

record container_status =
  cs_state :: "string option option option"

record pod_status =
  ps_phase :: "string option"
  ps_container_statuses :: "container_status list option"
  ps_conditions :: "pod_condition list option"

record pod =
  pod_name :: "string option"
  pod_namespace :: "string option"
  pod_status :: "pod_status option"

definition flat :: "'a list option \<Rightarrow> 'a list" where
  "flat xs = (case xs of None \<Rightarrow> [] | Some ys \<Rightarrow> ys)"

definition waiting_reason :: "container_status \<Rightarrow> string option" where
  "waiting_reason cs =
     do { state \<leftarrow> cs_state cs; waiting \<leftarrow> state; reason \<leftarrow> waiting; Some reason }"

definition pod_health :: "pod \<Rightarrow> health" where
  "pod_health p =
     (case pod_status p of
        None \<Rightarrow> Halted
      | Some status \<Rightarrow>
          (case ps_phase status of
             None \<Rightarrow> Halted
           | Some phase \<Rightarrow>
               if phase \<in> {''Failed'', ''Pending'', ''Unknown''} then Halted
               else if phase = ''Succeeded'' then Alive
               else if phase = ''Running'' then
                 (if list_ex (\<lambda>r. r = ''CrashLoopBackOff'')
                       (List.map_filter waiting_reason (flat (ps_container_statuses status)))
                  then Degraded
                  else if list_ex (\<lambda>c. cond_type c = ''Ready'' \<and> cond_status c = ''True'')
                       (flat (ps_conditions status))
                  then Alive else Degraded)
               else Degraded))"

definition assess_pod :: "pod \<Rightarrow> health_report \<Rightarrow> health_report" where
  "assess_pod p report =
     (case pod_name p of
        None \<Rightarrow> report
      | Some name \<Rightarrow>
          let ns = (case pod_namespace p of Some n \<Rightarrow> n | None \<Rightarrow> ''default'')
          in health_insert (workload_key ns ''Pod'' name) (pod_health p) report)"

definition assess :: "pod list \<Rightarrow> health_report" where
  "assess pods = fold assess_pod pods []"

section \<open>Facts about the report\<close>

lemma assess_pod_ok: "bt_ok r \<Longrightarrow> bt_ok (assess_pod p r)"
  by (simp add: assess_pod_def health_insert_def Let_def split: option.split)

lemma fold_assess_ok: "bt_ok r \<Longrightarrow> bt_ok (fold assess_pod pods r)"
  by (induction pods arbitrary: r) (simp_all add: assess_pod_ok)

lemma assess_ok: "bt_ok (assess pods)"
  by (simp add: assess_def fold_assess_ok)

lemma alive_workloads_iff:
  "bt_ok r \<Longrightarrow> k \<in> set (alive_workloads r) \<longleftrightarrow> bt_get r k = Some Alive"
  by (force simp: alive_workloads_def bt_entries [symmetric])

lemma alive_workloads_health: "bt_ok r \<Longrightarrow> k \<in> set (alive_workloads r) \<Longrightarrow> health_of r k = Alive"
  by (simp add: alive_workloads_iff health_of_def)

lemma health_of_insert:
  "bt_ok r \<Longrightarrow> health_of (health_insert k h r) k' = (if k' = k then h else health_of r k')"
  by (simp add: health_of_def health_insert_def bt_get_put)

lemma fold_health_count:
  "fold (\<lambda>(_, h). health_count h) states (a, d, c) =
     (a + length (filter (\<lambda>(_, h). h = Alive) states),
      d + length (filter (\<lambda>(_, h). h = Degraded) states),
      c + length (filter (\<lambda>(_, h). h = Halted) states))"
proof (induction states arbitrary: a d c)
  case Nil
  then show ?case by simp
next
  case (Cons e states)
  then show ?case by (cases e; cases "snd e") auto
qed

lemma health_counts_eq:
  "health_counts states =
     (length (filter (\<lambda>(_, h). h = Alive) states), length (filter (\<lambda>(_, h). h = Degraded) states),
      length (filter (\<lambda>(_, h). h = Halted) states))"
  by (simp add: health_counts_def fold_health_count)

end
