(* ===== verification/Actuator.thy ===== *)
theory Actuator
  imports Respond Health
begin

text \<open>
  The gate in front of every live cut (\<open>engine/src/engine/respond/actuator/mod.rs\<close>,
  \<open>arming_ladder.rs\<close>): which action classes are armed, where a cut may be written, what it would take
  down, and the decision. \<open>workload_namespace\<close> is that of \<open>render.rs\<close>. The hash sets are sets; a
  mitigation whose cut touches no workload is not constrained by the scope.
\<close>

section \<open>Armed classes\<close>

record enabled_actions =
  enabled :: "proposed_action set"
  judgement :: bool

definition actions_from_name :: "string \<Rightarrow> proposed_action list" where
  "actions_from_name name =
     (if trim name = ''network'' then [DenyNetworkPath, QuarantineEntry, QuarantineWorkload] else [])"

definition enabled_none :: enabled_actions where
  "enabled_none = \<lparr>enabled = {}, judgement = False\<rparr>"

definition enable :: "proposed_action \<Rightarrow> enabled_actions \<Rightarrow> enabled_actions" where
  "enable a p = p\<lparr>enabled := insert a (enabled p)\<rparr>"

definition from_names :: "string list \<Rightarrow> enabled_actions" where
  "from_names names =
     fold (\<lambda>name policy.
         if trim name = ''judgement'' then policy\<lparr>judgement := True\<rparr>
         else fold enable (actions_from_name name) policy)
       names enabled_none"

definition is_enabled :: "enabled_actions \<Rightarrow> proposed_action \<Rightarrow> bool" where
  "is_enabled p a \<longleftrightarrow> a \<in> enabled p"

definition judgement_enabled :: "enabled_actions \<Rightarrow> bool" where
  "judgement_enabled p \<longleftrightarrow> judgement p"

definition enabled_is_empty :: "enabled_actions \<Rightarrow> bool" where
  "enabled_is_empty p \<longleftrightarrow> enabled p = {}"

section \<open>The arming ladder\<close>

datatype arming_rung = EdgeCut | QuarantineRung | NodeRung

definition rung_from_name :: "string \<Rightarrow> arming_rung" where
  "rung_from_name name =
     (if trim name = ''quarantine'' then QuarantineRung
      else if trim name = ''node'' then NodeRung
      else EdgeCut)"

definition rung_actions :: "arming_rung \<Rightarrow> enabled_actions" where
  "rung_actions r =
     (let armed = enable DenyNetworkPath enabled_none;
          quarantines = (\<lambda>armed. enable QuarantineWorkload (enable QuarantineEntry armed))
      in case r of
           EdgeCut \<Rightarrow> armed
         | QuarantineRung \<Rightarrow> quarantines armed
         | NodeRung \<Rightarrow> enable ContainNode (quarantines armed))"

section \<open>Scope\<close>

definition workload_namespace :: "node_key \<Rightarrow> string option" where
  "workload_namespace k = (if kind_of k = ''workload'' then key_namespace k else None)"

record actuation_scope =
  sc_namespaces :: "string set"
  sc_labels :: "(string \<times> string) list"

definition unscoped :: actuation_scope where
  "unscoped = \<lparr>sc_namespaces = {}, sc_labels = []\<rparr>"

definition enforce_namespaces :: "string list \<Rightarrow> actuation_scope" where
  "enforce_namespaces nss = \<lparr>sc_namespaces = set nss, sc_labels = []\<rparr>"

definition scope_new :: "string set \<Rightarrow> (string \<times> string) list \<Rightarrow> actuation_scope" where
  "scope_new nss ls = \<lparr>sc_namespaces = nss, sc_labels = ls\<rparr>"

definition is_unscoped :: "actuation_scope \<Rightarrow> bool" where
  "is_unscoped s \<longleftrightarrow> sc_namespaces s = {} \<and> sc_labels s = []"

definition endpoint_in_scope :: "actuation_scope \<Rightarrow> string \<Rightarrow> (string, string) btree \<Rightarrow> bool" where
  "endpoint_in_scope s ns labels \<longleftrightarrow>
     (if ns \<in> sc_namespaces s then True
      else list_ex (\<lambda>(k, v). bt_get labels k = Some v) (sc_labels s))"

definition endpoints_within :: "actuation_scope \<Rightarrow> mitigation \<Rightarrow> bool" where
  "endpoints_within s m \<longleftrightarrow>
     list_all (\<lambda>(ns, labels). endpoint_in_scope s ns labels)
       (List.map_filter (\<lambda>(k, labels). map_option (\<lambda>ns. (ns, labels)) (workload_namespace k))
         [(l_from (m_cut m), from_labels (m_cut m)), (l_to (m_cut m), to_labels (m_cut m))])"

definition in_scope :: "actuation_scope \<Rightarrow> mitigation \<Rightarrow> bool" where
  "in_scope s m \<longleftrightarrow> (if sc_namespaces s = {} \<and> sc_labels s = [] then True else endpoints_within s m)"

section \<open>Blast radius\<close>

record blast_radius =
  alive_collateral :: "string list"
  br_incomplete :: bool

definition predict_blast_radius ::
  "'g petgraph \<Rightarrow> 'g security_graph \<Rightarrow> mitigation \<Rightarrow> health_report \<Rightarrow> blast_radius" where
  "predict_blast_radius P sg m health =
     (case index_of sg (l_from (m_cut m)) of
        None \<Rightarrow> \<lparr>alive_collateral = [], br_incomplete = reachability_incomplete sg\<rparr>
      | Some src_idx \<Rightarrow>
          \<lparr>alive_collateral =
             bs_of_list
               (filter (\<lambda>peer. health_of health peer = Alive)
                 (filter (\<lambda>peer. peer \<noteq> l_to (m_cut m))
                   (List.map_filter (\<lambda>e. key_of P sg (er_target e))
                     (filter (\<lambda>e. case node_at P sg (er_target e) of
                                    Some (Workload _) \<Rightarrow> True | _ \<Rightarrow> False)
                       (filter (\<lambda>e. case e_relation (er_weight e) of Reaches _ _ \<Rightarrow> True | _ \<Rightarrow> False)
                         (pg_edges P (sg_graph sg) src_idx)))))),
           br_incomplete = reachability_incomplete sg\<rparr>)"

section \<open>The decision\<close>

datatype decision = AutoApply | Propose string | Forbidden string

definition decide ::
  "mitigation \<Rightarrow> enabled_actions \<Rightarrow> actuation_scope \<Rightarrow> blast_radius \<Rightarrow> decision" where
  "decide m active scope blast =
     (if \<not> is_reversible (m_action m) then
        Forbidden ''irreversible action is never auto-enabled''
      else if \<not> is_additive_live (m_action m) then
        Forbidden (''subtractive remediation '' @ em_dash @ '' durable-fix PR only, not live-actuatable'')
      else if br_incomplete blast then
        Propose (''reachability is not fully modeled (unmodeled NetworkPolicy peers/selectors), so '' @
                 ''blast radius may be under-counted; needs approval'')
      else if alive_collateral blast \<noteq> [] then
        Propose (''would affect '' @ show_nat (length (alive_collateral blast)) @
                 '' currently-alive workload(s); needs approval'')
      else if \<not> is_live_corroborated m then
        Propose ''no justifying chain is live-corroborated and adjudicator-confirmed''
      else if \<not> is_enabled active (m_action m) then
        Propose ''action class not enabled''
      else if \<not> in_scope scope m then
        Propose (''cut's namespace is outside the engine actuation allowlist '' @
                 ''(PROTECTOR_ENGINE_ENFORCE_NAMESPACES); needs approval'')
      else AutoApply)"

datatype measured = Hold | Revert string

fun verify :: "string list \<Rightarrow> health_report \<Rightarrow> measured" where
  "verify [] observed = Hold"
| "verify (k # ks) observed =
     (if health_of observed k \<noteq> Alive
      then Revert (''workload '' @ k @ '' is no longer alive after the action'')
      else verify ks observed)"

datatype actuation = DryRun | Applied | Reverted

text \<open>The dry-run actuator only logs.\<close>

definition dry_apply :: "mitigation \<Rightarrow> actuation" where
  "dry_apply m = DryRun"

definition dry_revert :: "mitigation \<Rightarrow> actuation" where
  "dry_revert m = DryRun"

section \<open>Facts about the gate\<close>

lemma decide_auto:
  "decide m active scope blast = AutoApply \<longleftrightarrow>
     is_additive_live (m_action m) \<and> \<not> br_incomplete blast \<and> alive_collateral blast = [] \<and>
     is_live_corroborated m \<and> is_enabled active (m_action m) \<and> in_scope scope m"
  by (auto simp: decide_def is_reversible_def is_additive_live_def)

lemma decide_forbids:
  "\<not> is_additive_live (m_action m) \<Longrightarrow> \<exists>why. decide m active scope blast = Forbidden why"
  by (simp add: decide_def)

lemma rung_enabled:
  "enabled (rung_actions EdgeCut) = {DenyNetworkPath}"
  "enabled (rung_actions QuarantineRung) = {DenyNetworkPath, QuarantineEntry, QuarantineWorkload}"
  "enabled (rung_actions NodeRung) = {DenyNetworkPath, QuarantineEntry, QuarantineWorkload, ContainNode}"
  by (auto simp: rung_actions_def enable_def enabled_none_def Let_def)

text \<open>The workloads that the source of a cut reaches and that the cut does not mean to sever.\<close>

definition bystander ::
  "'g petgraph \<Rightarrow> 'g security_graph \<Rightarrow> mitigation \<Rightarrow> node_key \<Rightarrow> bool" where
  "bystander P sg m peer \<longleftrightarrow>
     peer \<noteq> l_to (m_cut m) \<and>
     (\<exists>src e port proto w. index_of sg (l_from (m_cut m)) = Some src \<and>
        e \<in> set (pg_edges P (sg_graph sg) src) \<and> e_relation (er_weight e) = Reaches port proto \<and>
        node_at P sg (er_target e) = Some (Workload w) \<and> key_of P sg (er_target e) = Some peer)"

lemma alive_collateral_iff:
  "peer \<in> set (alive_collateral (predict_blast_radius P sg m health)) \<longleftrightarrow>
     bystander P sg m peer \<and> health_of health peer = Alive"
proof (cases "index_of sg (l_from (m_cut m))")
  case None
  then show ?thesis by (simp add: predict_blast_radius_def bystander_def)
next
  case (Some src)
  have reaches: "(case e_relation (er_weight e) of Reaches _ _ \<Rightarrow> True | _ \<Rightarrow> False) \<longleftrightarrow>
      (\<exists>port proto. e_relation (er_weight e) = Reaches port proto)" for e
    by (simp split: relation.split)
  have workload: "(case node_at P sg (er_target e) of Some (Workload _) \<Rightarrow> True | _ \<Rightarrow> False) \<longleftrightarrow>
      (\<exists>w. node_at P sg (er_target e) = Some (Workload w))" for e
    by (simp split: option.split node.split)
  show ?thesis
    unfolding predict_blast_radius_def bystander_def Some option.case reaches workload
    by (auto simp: set_map_filter)
qed

lemma blast_incomplete [simp]:
  "br_incomplete (predict_blast_radius P sg m health) = reachability_incomplete sg"
  by (simp add: predict_blast_radius_def split: option.split)

lemma alive_collateral_empty:
  "alive_collateral (predict_blast_radius P sg m health) = [] \<longleftrightarrow>
     (\<forall>peer. bystander P sg m peer \<longrightarrow> health_of health peer \<noteq> Alive)"
  using alive_collateral_iff [of _ P sg m health] by (metis list.set_intros(1) neq_Nil_conv empty_iff empty_set)

lemma alive_collateral_sorted:
  "sorted_wrt (<) (alive_collateral (predict_blast_radius P sg m health))"
  by (simp add: predict_blast_radius_def split: option.split)

lemma verify_Hold: "verify ks observed = Hold \<longleftrightarrow> (\<forall>k\<in>set ks. health_of observed k = Alive)"
  by (induction ks) auto

lemma verify_cases: "verify ks observed = Hold \<or> (\<exists>why. verify ks observed = Revert why)"
  by (cases "verify ks observed") auto

text \<open>Scope, endpoint by endpoint.\<close>

definition endpoint_covered :: "actuation_scope \<Rightarrow> node_key \<Rightarrow> (string, string) btree \<Rightarrow> bool" where
  "endpoint_covered s k labels \<longleftrightarrow>
     (case workload_namespace k of None \<Rightarrow> True
      | Some ns \<Rightarrow> ns \<in> sc_namespaces s \<or> (\<exists>(lk, lv)\<in>set (sc_labels s). bt_get labels lk = Some lv))"

lemma endpoints_within_iff:
  "endpoints_within s m \<longleftrightarrow>
     endpoint_covered s (l_from (m_cut m)) (from_labels (m_cut m)) \<and>
     endpoint_covered s (l_to (m_cut m)) (to_labels (m_cut m))"
  by (auto simp: endpoints_within_def endpoint_covered_def endpoint_in_scope_def map_filter_def
      list_ex_iff split: option.splits)

lemma in_scope_iff:
  "in_scope s m \<longleftrightarrow> is_unscoped s \<or>
     (endpoint_covered s (l_from (m_cut m)) (from_labels (m_cut m)) \<and>
      endpoint_covered s (l_to (m_cut m)) (to_labels (m_cut m)))"
  by (auto simp: in_scope_def is_unscoped_def endpoints_within_iff)

end
