(* ===== verification/Action_Log.thy ===== *)
theory Action_Log
  imports Actuator
begin

text \<open>
  The applied-action ledger and the self-revert lifecycle (\<open>respond/actuator/log.rs\<close>): the actions the
  engine has applied, each with the workloads it promised to keep alive, and the reconcile that
  decides each pass which of them to lift.
\<close>

record active_action =
  aa_mitigation :: mitigation
  baseline_alive :: "string list"

record reversion =
  rv_mitigation :: mitigation
  rv_reason :: string

type_synonym action_log = "active_action list"

abbreviation action_signature :: "active_action \<Rightarrow> string" where
  "action_signature a \<equiv> mitigation_signature (aa_mitigation a)"

definition log_record :: "mitigation \<Rightarrow> string list \<Rightarrow> action_log \<Rightarrow> action_log" where
  "log_record m baseline log =
     filter (\<lambda>a. action_signature a \<noteq> mitigation_signature m) log @
     [\<lparr>aa_mitigation = m, baseline_alive = baseline\<rparr>]"

definition log_is_active :: "action_log \<Rightarrow> mitigation \<Rightarrow> bool" where
  "log_is_active log m \<longleftrightarrow> list_ex (\<lambda>a. action_signature a = mitigation_signature m) log"

definition active_count :: "action_log \<Rightarrow> nat" where
  "active_count log = length log"

definition not_armed_reason :: string where
  "not_armed_reason =
     ''action class no longer armed (mode/enforceScope narrowed, '' @ ''or break-glass engaged)''"

definition log_step ::
  "health_report \<Rightarrow> string set \<Rightarrow> enabled_actions \<Rightarrow> active_action \<Rightarrow>
   reversion list \<times> action_log \<Rightarrow> reversion list \<times> action_log" where
  "log_step health justified active a acc =
     (case verify (baseline_alive a) health of
        Revert reason \<Rightarrow>
          (fst acc @ [\<lparr>rv_mitigation = aa_mitigation a, rv_reason = reason\<rparr>], snd acc)
      | Hold \<Rightarrow>
          if \<not> is_enabled active (m_action (aa_mitigation a)) then
            (fst acc @ [\<lparr>rv_mitigation = aa_mitigation a, rv_reason = not_armed_reason\<rparr>], snd acc)
          else if action_signature a \<notin> justified then
            (fst acc @ [\<lparr>rv_mitigation = aa_mitigation a,
                         rv_reason = ''no proven chain still justifies this control''\<rparr>], snd acc)
          else (fst acc, snd acc @ [a]))"

definition log_reconcile ::
  "health_report \<Rightarrow> string set \<Rightarrow> enabled_actions \<Rightarrow> action_log \<Rightarrow> reversion list \<times> action_log" where
  "log_reconcile health justified active log = fold (log_step health justified active) log ([], [])"

section \<open>What a reconcile keeps\<close>

text \<open>An applied action is kept while its promise holds, its class is armed and a proven chain needs it.\<close>

definition keeps :: "health_report \<Rightarrow> string set \<Rightarrow> enabled_actions \<Rightarrow> active_action \<Rightarrow> bool" where
  "keeps health justified active a \<longleftrightarrow>
     (\<forall>k\<in>set (baseline_alive a). health_of health k = Alive) \<and>
     is_enabled active (m_action (aa_mitigation a)) \<and> action_signature a \<in> justified"

lemma log_step_keeps:
  "keeps health justified active a \<Longrightarrow>
     log_step health justified active a acc = (fst acc, snd acc @ [a])"
  by (simp add: log_step_def keeps_def verify_Hold [symmetric])

lemma log_step_reverts:
  assumes "\<not> keeps health justified active a"
  shows "\<exists>why. log_step health justified active a acc =
    (fst acc @ [\<lparr>rv_mitigation = aa_mitigation a, rv_reason = why\<rparr>], snd acc)"
  using assms verify_Hold [of "baseline_alive a" health]
  by (cases "verify (baseline_alive a) health") (auto simp: log_step_def keeps_def)

lemma fold_log_step:
  "\<exists>revs. fold (log_step health justified active) log acc =
      (fst acc @ revs, snd acc @ filter (keeps health justified active) log) \<and>
    map rv_mitigation revs = map aa_mitigation (filter (\<lambda>a. \<not> keeps health justified active a) log)"
proof (induction log arbitrary: acc)
  case Nil
  then show ?case by simp
next
  case (Cons a log)
  show ?case
  proof (cases "keeps health justified active a")
    case True
    then show ?thesis
      using Cons.IH [of "(fst acc, snd acc @ [a])"] by (simp add: log_step_keeps)
  next
    case False
    then obtain why where step: "log_step health justified active a acc =
        (fst acc @ [\<lparr>rv_mitigation = aa_mitigation a, rv_reason = why\<rparr>], snd acc)"
      using log_step_reverts by blast
    from Cons.IH [of "log_step health justified active a acc"] obtain revs where
      revs: "fold (log_step health justified active) log (log_step health justified active a acc) =
        (fst (log_step health justified active a acc) @ revs,
         snd (log_step health justified active a acc) @ filter (keeps health justified active) log)"
      "map rv_mitigation revs =
        map aa_mitigation (filter (\<lambda>a. \<not> keeps health justified active a) log)"
      by blast
    show ?thesis
      using revs False
      by (intro exI [of _ "\<lparr>rv_mitigation = aa_mitigation a, rv_reason = why\<rparr> # revs"])
         (simp add: step)
  qed
qed

lemma log_reconcile_kept:
  "snd (log_reconcile health justified active log) = filter (keeps health justified active) log"
  using fold_log_step [of health justified active log "([], [])"] by (auto simp: log_reconcile_def)

lemma log_reconcile_reverted:
  "map rv_mitigation (fst (log_reconcile health justified active log)) =
     map aa_mitigation (filter (\<lambda>a. \<not> keeps health justified active a) log)"
  using fold_log_step [of health justified active log "([], [])"] by (auto simp: log_reconcile_def)

section \<open>The log as a set of live cuts\<close>

text \<open>At most one record per cut: re-applies replace, they do not stack.\<close>

definition log_ok :: "action_log \<Rightarrow> bool" where
  "log_ok log \<longleftrightarrow> distinct (map action_signature log)"

definition live_cuts :: "action_log \<Rightarrow> string set" where
  "live_cuts log = set (map action_signature log)"

lemma log_ok_Nil [simp]: "log_ok []"
  by (simp add: log_ok_def)

lemma log_record_ok: "log_ok log \<Longrightarrow> log_ok (log_record m b log)"
  by (auto simp: log_ok_def log_record_def distinct_map_filter)

lemma live_cuts_record: "live_cuts (log_record m b log) = insert (mitigation_signature m) (live_cuts log)"
  by (auto simp: live_cuts_def log_record_def)

lemma log_is_active_iff: "log_is_active log m \<longleftrightarrow> mitigation_signature m \<in> live_cuts log"
  by (force simp: log_is_active_def live_cuts_def list_ex_iff)

lemma log_reconcile_ok: "log_ok log \<Longrightarrow> log_ok (snd (log_reconcile health justified active log))"
  by (simp add: log_reconcile_kept log_ok_def distinct_map_filter)

lemma reverted_signatures:
  "map (\<lambda>r. mitigation_signature (rv_mitigation r)) (fst (log_reconcile health justified active log)) =
     map action_signature (filter (\<lambda>a. \<not> keeps health justified active a) log)"
  using arg_cong [OF log_reconcile_reverted, of "map mitigation_signature"]
  by (simp add: o_def)

lemma live_cuts_reconcile:
  assumes "log_ok log"
  shows "live_cuts (snd (log_reconcile health justified active log)) =
    live_cuts log -
    set (map (\<lambda>r. mitigation_signature (rv_mitigation r)) (fst (log_reconcile health justified active log)))"
  unfolding reverted_signatures log_reconcile_kept
  using assms by (auto simp: live_cuts_def log_ok_def distinct_map dest: inj_onD)

lemma reverted_were_live:
  "set (map (\<lambda>r. mitigation_signature (rv_mitigation r)) (fst (log_reconcile health justified active log)))
     \<subseteq> live_cuts log"
  unfolding reverted_signatures by (auto simp: live_cuts_def)

end
