(* ===== verification/Json.thy ===== *)
theory Json
  imports Prelude
begin

text \<open>
  JSON values. A \<open>serde_json\<close> value is the datatype \<open>json\<close>, its objects sorted by key as that
  library keeps them; numbers are the integers the program writes. Text is parsed by the library, so
  the parser is a parameter of the definitions that read a reply.
\<close>

datatype json =
    JNull
  | JBool bool
  | JInt int
  | JStr string
  | JArr "json list"
  | JObj "(string \<times> json) list"

definition jobj :: "(string \<times> json) list \<Rightarrow> json" where
  "jobj fs = JObj (bt_of_list fs)"

definition jlabels :: "(string, string) btree \<Rightarrow> json" where
  "jlabels labels = JObj (map (\<lambda>(k, v). (k, JStr v)) labels)"

text \<open>Field access on a value, \<open>None\<close> for an absent field or a value that is no object.\<close>

fun jget :: "json \<Rightarrow> string \<Rightarrow> json option" where
  "jget (JObj fs) k = bt_get fs k"
| "jget _ k = None"

fun jpath :: "json \<Rightarrow> string list \<Rightarrow> json option" where
  "jpath j [] = Some j"
| "jpath j (k # ks) = (case jget j k of None \<Rightarrow> None | Some j' \<Rightarrow> jpath j' ks)"

definition jstr :: "json option \<Rightarrow> string option" where
  "jstr j = (case j of Some (JStr s) \<Rightarrow> Some s | _ \<Rightarrow> None)"

end
