(* ===== verification/Render.thy ===== *)
theory Render
  imports Actuator Json
begin

text \<open>
  The manifests of the live cuts (\<open>respond/actuator/render.rs\<close> and the renderers of
  \<open>node_containment.rs\<close>). The hash of the object name is the 64-bit hasher of the standard library,
  whose algorithm is unspecified: a parameter.
\<close>

section \<open>Object names\<close>

definition hex_digit :: "nat \<Rightarrow> char" where
  "hex_digit n = (if n < 10 then char_of (48 + n) else char_of (87 + n))"

fun hex_fixed :: "nat \<Rightarrow> nat \<Rightarrow> string" where
  "hex_fixed 0 n = []"
| "hex_fixed (Suc w) n = hex_fixed w (n div 16) @ [hex_digit (n mod 16)]"

type_synonym hasher = "string \<Rightarrow> u64"

definition object_name :: "hasher \<Rightarrow> string \<Rightarrow> mitigation \<Rightarrow> string" where
  "object_name hash prefix m = prefix @ ''-'' @ hex_fixed 16 (unat (hash (mitigation_signature m)))"

section \<open>Network policies\<close>

definition selector :: "string \<Rightarrow> (string, string) btree \<Rightarrow> json" where
  "selector namespace labels =
     (let namespace_selector =
        jobj [(''matchLabels'', jobj [(''kubernetes.io/metadata.name'', JStr namespace)])]
      in if labels = [] then jobj [(''namespaces'', namespace_selector)]
         else jobj [(''pods'',
                jobj [(''namespaceSelector'', namespace_selector),
                      (''podSelector'', jobj [(''matchLabels'', jlabels labels)])])])"

definition render_deny :: "hasher \<Rightarrow> mitigation \<Rightarrow> json option" where
  "render_deny hash m =
     (if m_action m \<noteq> DenyNetworkPath then None
      else do {
        source_ns \<leftarrow> workload_namespace (l_from (m_cut m));
        target_ns \<leftarrow> workload_namespace (l_to (m_cut m));
        Some (jobj [
          (''apiVersion'', JStr ''policy.networking.k8s.io/v1alpha1''),
          (''kind'', JStr ''AdminNetworkPolicy''),
          (''metadata'', jobj [
            (''name'', JStr (object_name hash ''protector-deny'' m)),
            (''labels'', jobj [(''app.kubernetes.io/managed-by'', JStr ''protector'')])]),
          (''spec'', jobj [
            (''priority'', JInt 1000),
            (''subject'', selector target_ns (to_labels (m_cut m))),
            (''ingress'', JArr [jobj [
              (''action'', JStr ''Deny''),
              (''from'', JArr [selector source_ns (from_labels (m_cut m))])]])])])
      })"

definition render_isolation :: "hasher \<Rightarrow> mitigation \<Rightarrow> json option" where
  "render_isolation hash m =
     (if m_action m \<notin> {DenyNetworkPath, QuarantineEntry, QuarantineWorkload} then None
      else do {
        source_ns \<leftarrow> workload_namespace (l_from (m_cut m));
        if from_labels (m_cut m) = [] then None
        else Some (jobj [
          (''apiVersion'', JStr ''networking.k8s.io/v1''),
          (''kind'', JStr ''NetworkPolicy''),
          (''metadata'', jobj [
            (''name'', JStr (object_name hash ''protector-isolate'' m)),
            (''namespace'', JStr source_ns),
            (''labels'', jobj [(''app.kubernetes.io/managed-by'', JStr ''protector'')])]),
          (''spec'', jobj [
            (''podSelector'', jobj [(''matchLabels'', jlabels (from_labels (m_cut m)))]),
            (''policyTypes'', JArr [JStr ''Ingress'', JStr ''Egress''])])])
      })"

section \<open>Node patches\<close>

definition CORDON_OWNER_ANNOTATION :: string where
  "CORDON_OWNER_ANNOTATION = ''protector.jeffl.es/cordoned-by''"

definition CORDON_OWNER_VALUE :: string where
  "CORDON_OWNER_VALUE = ''protector''"

definition render_cordon :: "mitigation \<Rightarrow> json option" where
  "render_cordon m =
     (if m_action m \<noteq> ContainNode then None
      else Some (jobj [
        (''apiVersion'', JStr ''v1''),
        (''kind'', JStr ''Node''),
        (''metadata'', jobj [
          (''name'', JStr (short_of (l_from (m_cut m)))),
          (''annotations'', jobj [(CORDON_OWNER_ANNOTATION, JStr CORDON_OWNER_VALUE)])]),
        (''spec'', jobj [(''unschedulable'', JBool True)])]))"

definition render_uncordon :: "mitigation \<Rightarrow> json option" where
  "render_uncordon m =
     (if m_action m \<noteq> ContainNode then None
      else Some (jobj [
        (''apiVersion'', JStr ''v1''),
        (''kind'', JStr ''Node''),
        (''metadata'', jobj [(''name'', JStr (short_of (l_from (m_cut m))))]),
        (''spec'', jobj [(''unschedulable'', JBool False)])]))"

section \<open>Facts about the manifests\<close>

lemma hex_fixed_length [simp]: "length (hex_fixed w n) = w"
  by (induction w arbitrary: n) simp_all

lemma jget_jobj: "jget (jobj fs) k = bt_get (bt_of_list fs) k"
  by (simp add: jobj_def)

lemma render_isolation_Some:
  "(\<exists>j. render_isolation hash m = Some j) \<longleftrightarrow>
     is_additive_live (m_action m) \<and> workload_namespace (l_from (m_cut m)) \<noteq> None \<and>
     from_labels (m_cut m) \<noteq> []"
  by (cases "workload_namespace (l_from (m_cut m))")
     (auto simp: render_isolation_def is_additive_live_def)

lemma render_deny_Some:
  "(\<exists>j. render_deny hash m = Some j) \<longleftrightarrow>
     m_action m = DenyNetworkPath \<and> workload_namespace (l_from (m_cut m)) \<noteq> None \<and>
     workload_namespace (l_to (m_cut m)) \<noteq> None"
  by (cases "workload_namespace (l_from (m_cut m))"; cases "workload_namespace (l_to (m_cut m))")
     (auto simp: render_deny_def)

lemma render_isolation_fields:
  assumes "render_isolation hash m = Some j"
  shows "jpath j [''metadata'', ''namespace''] = map_option JStr (workload_namespace (l_from (m_cut m)))"
    and "jpath j [''metadata'', ''name''] = Some (JStr (object_name hash ''protector-isolate'' m))"
    and "jpath j [''spec'', ''podSelector'', ''matchLabels''] = Some (jlabels (from_labels (m_cut m)))"
    and "jpath j [''spec'', ''ingress''] = None" and "jpath j [''spec'', ''egress''] = None"
  using assms
  by (cases "workload_namespace (l_from (m_cut m))";
      auto simp: render_isolation_def jget_jobj bt_of_list_def bt_get_def split: if_splits)+

end
