(* ===== verification/Node_Containment.thy ===== *)
theory Node_Containment
  imports Render
begin

text \<open>
  The node-scoped containment rung (\<open>respond/actuator/node_containment.rs\<close>): the co-resident deny
  sweep and its scope, the deterministic rails of a cordon, and the proposal-side decision; with the
  observation of the fleet (\<open>observe/adapter/node_fact.rs\<close>). The Kubernetes node is a third-party
  type, represented by the fields the observation reads.
\<close>

section \<open>Observing the fleet\<close>

record node_fact =
  nf_name :: string
  control_plane :: bool
  schedulable :: bool
  owned_by_protector :: bool

record k8s_node_spec =
  taint_keys :: "string list option"
  unschedulable :: "bool option"

record k8s_node =
  kn_name :: "string option"
  kn_labels :: "(string, string) btree option"
  kn_annotations :: "(string, string) btree option"
  kn_spec :: "k8s_node_spec option"

definition CONTROL_PLANE_LABEL :: string where
  "CONTROL_PLANE_LABEL = ''node-role.kubernetes.io/control-plane''"

definition LEGACY_CONTROL_PLANE_LABEL :: string where
  "LEGACY_CONTROL_PLANE_LABEL = ''node-role.kubernetes.io/master''"

definition is_control_plane :: "k8s_node \<Rightarrow> bool" where
  "is_control_plane n =
     (let labelled =
        (case kn_labels n of None \<Rightarrow> False
         | Some labels \<Rightarrow> bt_get labels CONTROL_PLANE_LABEL \<noteq> None \<or>
                         bt_get labels LEGACY_CONTROL_PLANE_LABEL \<noteq> None);
        tainted =
        (case Option.bind (kn_spec n) taint_keys of None \<Rightarrow> False
         | Some taints \<Rightarrow>
             list_ex (\<lambda>k. k = CONTROL_PLANE_LABEL \<or> k = LEGACY_CONTROL_PLANE_LABEL) taints)
      in labelled \<or> tainted)"

definition observe_node_fact :: "k8s_node \<Rightarrow> node_fact option" where
  "observe_node_fact n =
     do {
       name \<leftarrow> kn_name n;
       Some \<lparr>nf_name = name,
             control_plane = is_control_plane n,
             schedulable = (case Option.bind (kn_spec n) unschedulable of Some u \<Rightarrow> \<not> u | None \<Rightarrow> True),
             owned_by_protector =
               (Option.bind (kn_annotations n) (\<lambda>as. bt_get as CORDON_OWNER_ANNOTATION) =
                Some CORDON_OWNER_VALUE)\<rparr>
     }"

definition observe_node_facts :: "k8s_node list \<Rightarrow> node_fact list" where
  "observe_node_facts nodes = List.map_filter observe_node_fact nodes"

section \<open>The co-resident sweep\<close>

definition co_resident_denies :: "'g petgraph \<Rightarrow> 'g security_graph \<Rightarrow> node_key \<Rightarrow> mitigation list" where
  "co_resident_denies P sg h =
     map (\<lambda>lk. \<lparr>m_cut = lk, m_action = QuarantineWorkload, m_justifications = []\<rparr>)
       (List.map_filter (\<lambda>(node, labels). quarantine_workload_link node labels)
         (co_resident_workloads P sg h))"

datatype scoped_denies = ScopedDenies "mitigation list"

fun as_slice :: "scoped_denies \<Rightarrow> mitigation list" where
  "as_slice (ScopedDenies ms) = ms"

definition scoped_is_empty :: "scoped_denies \<Rightarrow> bool" where
  "scoped_is_empty d \<longleftrightarrow> as_slice d = []"

definition co_resident_denies_in_scope ::
  "'g petgraph \<Rightarrow> 'g security_graph \<Rightarrow> node_key \<Rightarrow> actuation_scope \<Rightarrow> scoped_denies" where
  "co_resident_denies_in_scope P sg h scope =
     (let denies = co_resident_denies P sg h
      in ScopedDenies (if is_unscoped scope then denies else filter (in_scope scope) denies))"

definition contain_node_in_scope ::
  "'g petgraph \<Rightarrow> 'g security_graph \<Rightarrow> node_key \<Rightarrow> actuation_scope \<Rightarrow> bool" where
  "contain_node_in_scope P sg h scope \<longleftrightarrow>
     is_unscoped scope \<or> \<not> scoped_is_empty (co_resident_denies_in_scope P sg h scope)"

section \<open>The rails\<close>

datatype rail_refusal =
    ControlPlane | OneNodeCap | WorkerFloor | Unlabelled | NotOwned | UnknownNode

fun metric_reason :: "rail_refusal \<Rightarrow> string" where
  "metric_reason ControlPlane = ''control-plane''"
| "metric_reason OneNodeCap = ''one-node-cap''"
| "metric_reason WorkerFloor = ''worker-floor''"
| "metric_reason Unlabelled = ''unlabelled''"
| "metric_reason NotOwned = ''not-owned''"
| "metric_reason UnknownNode = ''unknown-node''"

definition WORKER_FLOOR :: nat where
  "WORKER_FLOOR = 2"

definition cordon_decision :: "node_fact \<Rightarrow> node_fact list \<Rightarrow> rail_refusal + unit" where
  "cordon_decision target fleet =
     (if control_plane target then Inl ControlPlane
      else if list_ex (\<lambda>n. nf_name n \<noteq> nf_name target \<and> owned_by_protector n \<and> \<not> schedulable n) fleet
      then Inl OneNodeCap
      else if length (filter (\<lambda>n. nf_name n \<noteq> nf_name target \<and> \<not> control_plane n \<and> schedulable n) fleet)
                < WORKER_FLOOR
      then Inl WorkerFloor
      else Inr ())"

definition revert_decision :: "node_fact \<Rightarrow> rail_refusal + unit" where
  "revert_decision target = (if owned_by_protector target then Inr () else Inl NotOwned)"

datatype proposal_outcome = Proposed | Refuse rail_refusal

definition evaluate_proposal ::
  "mitigation \<Rightarrow> bool \<Rightarrow> bool \<Rightarrow> node_fact list \<Rightarrow> proposal_outcome option" where
  "evaluate_proposal m armed in_sc fleet =
     (if m_action m \<noteq> ContainNode then None
      else if \<not> armed \<or> \<not> in_sc \<or> \<not> is_live_corroborated m then None
      else
        (case find (\<lambda>n. nf_name n = short_of (l_from (m_cut m))) fleet of
           None \<Rightarrow> Some (Refuse UnknownNode)
         | Some target \<Rightarrow>
             Some (case cordon_decision target fleet of Inr _ \<Rightarrow> Proposed | Inl r \<Rightarrow> Refuse r)))"

section \<open>Facts about the rails\<close>

definition worker :: "node_fact \<Rightarrow> bool" where
  "worker n \<longleftrightarrow> \<not> control_plane n \<and> schedulable n"

definition contained :: "node_fact \<Rightarrow> bool" where
  "contained n \<longleftrightarrow> owned_by_protector n \<and> \<not> schedulable n"

lemma cordon_allowed:
  "cordon_decision target fleet = Inr () \<longleftrightarrow>
     \<not> control_plane target \<and>
     (\<forall>n\<in>set fleet. contained n \<longrightarrow> nf_name n = nf_name target) \<and>
     2 \<le> length (filter (\<lambda>n. nf_name n \<noteq> nf_name target \<and> worker n) fleet)"
proof -
  have filters: "filter (\<lambda>n. nf_name n \<noteq> nf_name target \<and> \<not> control_plane n \<and> schedulable n) fleet =
      filter (\<lambda>n. nf_name n \<noteq> nf_name target \<and> worker n) fleet"
    by (simp add: worker_def)
  show ?thesis
    unfolding cordon_decision_def filters by (auto simp: contained_def list_ex_iff WORKER_FLOOR_def)
qed

lemma evaluate_proposed:
  "evaluate_proposal m armed in_sc fleet = Some Proposed \<longleftrightarrow>
     m_action m = ContainNode \<and> armed \<and> in_sc \<and> is_live_corroborated m \<and>
     (\<exists>target. find (\<lambda>n. nf_name n = short_of (l_from (m_cut m))) fleet = Some target \<and>
        cordon_decision target fleet = Inr ())"
  by (auto simp: evaluate_proposal_def split: option.splits sum.splits)

lemma co_resident_denies_shape:
  assumes "d \<in> set (co_resident_denies P sg h)"
  shows "m_action d = QuarantineWorkload" and "l_from (m_cut d) = l_to (m_cut d)"
    and "from_labels (m_cut d) \<noteq> []" and "to_labels (m_cut d) = from_labels (m_cut d)"
  using assms
  by (auto simp: co_resident_denies_def set_map_filter quarantine_workload_link_def split: if_splits)

lemma scoped_denies_in_scope:
  "d \<in> set (as_slice (co_resident_denies_in_scope P sg h scope)) \<longleftrightarrow>
     d \<in> set (co_resident_denies P sg h) \<and> in_scope scope d"
  by (auto simp: co_resident_denies_in_scope_def Let_def in_scope_def is_unscoped_def)

end
