(* ===== verification/Cluster.thy ===== *)
theory Cluster
  imports Node_Containment
begin

text \<open>
  The cluster-facing actuators (\<open>respond/actuator/kube.rs\<close>, \<open>node_containment/live.rs\<close>) and their
  selection (\<open>build_actuator\<close> of \<open>run_loop.rs\<close>). The Kubernetes client is third-party code: a record of
  operations over an abstract cluster state, with the documented behaviour of server-side apply and
  delete as the laws of the locale \<open>kube_server\<close>. The locale is interpreted on an object store.
\<close>

section \<open>The API server\<close>

record object_ref =
  ref_group :: string
  ref_kind :: string
  ref_ns :: "string option"
  ref_name :: string

record 'c kube_api =
  api_patch :: "object_ref \<Rightarrow> json \<Rightarrow> 'c \<Rightarrow> bool \<times> 'c"
  api_delete :: "object_ref \<Rightarrow> 'c \<Rightarrow> bool \<times> 'c"
  api_get :: "'c \<Rightarrow> object_ref \<Rightarrow> json option"
  from_value :: "json \<Rightarrow> bool"

definition np_api :: "string \<Rightarrow> string \<Rightarrow> object_ref" where
  "np_api ns name =
     \<lparr>ref_group = ''networking.k8s.io'', ref_kind = ''NetworkPolicy'', ref_ns = Some ns, ref_name = name\<rparr>"

definition anp_api :: "string \<Rightarrow> object_ref" where
  "anp_api name =
     \<lparr>ref_group = ''policy.networking.k8s.io'', ref_kind = ''AdminNetworkPolicy'', ref_ns = None,
      ref_name = name\<rparr>"

definition node_api :: "string \<Rightarrow> object_ref" where
  "node_api name = \<lparr>ref_group = '''', ref_kind = ''Node'', ref_ns = None, ref_name = name\<rparr>"

section \<open>Quarantine\<close>

definition apply_isolation :: "'c kube_api \<Rightarrow> hasher \<Rightarrow> mitigation \<Rightarrow> 'c \<Rightarrow> actuation \<times> 'c" where
  "apply_isolation K hash m c =
     (case (render_isolation hash m, workload_namespace (l_from (m_cut m))) of
        (Some manifest, Some ns) \<Rightarrow>
          let name = object_name hash ''protector-isolate'' m
          in if \<not> from_value K manifest then (DryRun, c)
             else (case api_patch K (np_api ns name) manifest c of
                     (True, c') \<Rightarrow> (Applied, c')
                   | (False, c') \<Rightarrow> (DryRun, c'))
      | _ \<Rightarrow> (DryRun, c))"

definition revert_isolation :: "'c kube_api \<Rightarrow> hasher \<Rightarrow> mitigation \<Rightarrow> 'c \<Rightarrow> actuation \<times> 'c" where
  "revert_isolation K hash m c =
     (case workload_namespace (l_from (m_cut m)) of
        None \<Rightarrow> (DryRun, c)
      | Some ns \<Rightarrow>
          (case api_delete K (np_api ns (object_name hash ''protector-isolate'' m)) c of
             (True, c') \<Rightarrow> (Reverted, c')
           | (False, c') \<Rightarrow> (DryRun, c')))"

section \<open>The actuators\<close>

record 'c actuator =
  act_apply :: "mitigation \<Rightarrow> 'c \<Rightarrow> actuation \<times> 'c"
  act_revert :: "mitigation \<Rightarrow> 'c \<Rightarrow> actuation \<times> 'c"

definition dry_run_actuator :: "'c actuator" where
  "dry_run_actuator =
     \<lparr>act_apply = (\<lambda>m c. (dry_apply m, c)), act_revert = (\<lambda>m c. (dry_revert m, c))\<rparr>"

definition isolation_actuator :: "'c kube_api \<Rightarrow> hasher \<Rightarrow> 'c actuator" where
  "isolation_actuator K hash =
     \<lparr>act_apply = apply_isolation K hash, act_revert = revert_isolation K hash\<rparr>"

definition kube_apply :: "'c kube_api \<Rightarrow> hasher \<Rightarrow> mitigation \<Rightarrow> 'c \<Rightarrow> actuation \<times> 'c" where
  "kube_apply K hash m c =
     (if m_action m = QuarantineEntry then apply_isolation K hash m c
      else (case render_deny hash m of
              None \<Rightarrow> (DryRun, c)
            | Some manifest \<Rightarrow>
                if \<not> from_value K manifest then (DryRun, c)
                else (case api_patch K (anp_api (object_name hash ''protector-deny'' m)) manifest c of
                        (True, c') \<Rightarrow> (Applied, c')
                      | (False, c') \<Rightarrow> (DryRun, c'))))"

definition kube_revert :: "'c kube_api \<Rightarrow> hasher \<Rightarrow> mitigation \<Rightarrow> 'c \<Rightarrow> actuation \<times> 'c" where
  "kube_revert K hash m c =
     (if m_action m = QuarantineEntry then revert_isolation K hash m c
      else (case api_delete K (anp_api (object_name hash ''protector-deny'' m)) c of
              (True, c') \<Rightarrow> (Reverted, c')
            | (False, c') \<Rightarrow> (DryRun, c')))"

definition kube_actuator :: "'c kube_api \<Rightarrow> hasher \<Rightarrow> 'c actuator" where
  "kube_actuator K hash = \<lparr>act_apply = kube_apply K hash, act_revert = kube_revert K hash\<rparr>"

text \<open>The value of the environment variable is an argument, \<open>None\<close> when it is unset.\<close>

definition build_actuator ::
  "'c kube_api \<Rightarrow> hasher \<Rightarrow> string option \<Rightarrow> enabled_actions \<Rightarrow> 'c actuator" where
  "build_actuator K hash env active =
     (if enabled_is_empty active then dry_run_actuator
      else
        (let v = trim (case env of Some s \<Rightarrow> s | None \<Rightarrow> '''')
         in if v \<in> {''networkpolicy'', ''net''} then isolation_actuator K hash
            else if v \<in> {''adminnetworkpolicy'', ''anp''} then kube_actuator K hash
            else dry_run_actuator))"

section \<open>The node actuator\<close>

definition patch_node :: "'c kube_api \<Rightarrow> string \<Rightarrow> json \<Rightarrow> 'c \<Rightarrow> bool \<times> 'c" where
  "patch_node K host_name manifest c =
     (if \<not> from_value K manifest then (False, c)
      else (case api_patch K (node_api host_name) manifest c of
              (True, c') \<Rightarrow> (True, c')
            | (False, c') \<Rightarrow> (False, c')))"

definition node_containment_apply ::
  "'c kube_api \<Rightarrow> hasher \<Rightarrow> mitigation \<Rightarrow> scoped_denies \<Rightarrow> 'c \<Rightarrow> actuation \<times> 'c" where
  "node_containment_apply K hash m co_resident c =
     (case render_cordon m of
        None \<Rightarrow> (DryRun, c)
      | Some manifest \<Rightarrow>
          (case patch_node K (short_of (l_from (m_cut m))) manifest c of
             (False, c1) \<Rightarrow> (DryRun, c1)
           | (True, c1) \<Rightarrow>
               (Applied, fold (\<lambda>d c. snd (act_apply (isolation_actuator K hash) d c))
                           (as_slice co_resident) c1)))"

definition node_containment_revert ::
  "'c kube_api \<Rightarrow> hasher \<Rightarrow> mitigation \<Rightarrow> node_fact \<Rightarrow> mitigation list \<Rightarrow> 'c \<Rightarrow> actuation \<times> 'c" where
  "node_containment_revert K hash m target co_resident c =
     (case revert_decision target of
        Inl _ \<Rightarrow> (DryRun, c)
      | Inr _ \<Rightarrow>
          (case render_uncordon m of
             None \<Rightarrow> (DryRun, c)
           | Some manifest \<Rightarrow>
               (case patch_node K (short_of (l_from (m_cut m))) manifest c of
                  (False, c1) \<Rightarrow> (DryRun, c1)
                | (True, c1) \<Rightarrow>
                    (Reverted, fold (\<lambda>d c. snd (act_revert (isolation_actuator K hash) d c))
                                 co_resident c1))))"

section \<open>The contract of the API server\<close>

text \<open>
  A successful server-side apply creates an absent object as declared; a successful delete removes
  it; both touch no object but the addressed one.
\<close>

locale kube_server =
  fixes K :: "'c kube_api"
  assumes patch_creates:
      "api_patch K r j c = (True, c') \<Longrightarrow> api_get K c r = None \<Longrightarrow> api_get K c' r = Some j"
    and patch_frame: "api_patch K r j c = (b, c') \<Longrightarrow> r' \<noteq> r \<Longrightarrow> api_get K c' r' = api_get K c r'"
    and delete_removes: "api_delete K r c = (True, c') \<Longrightarrow> api_get K c' r = None"
    and delete_frame: "api_delete K r c = (b, c') \<Longrightarrow> r' \<noteq> r \<Longrightarrow> api_get K c' r' = api_get K c r'"
begin

lemma isolation_applied:
  assumes "apply_isolation K hash m c = (Applied, c')"
  shows "\<exists>ns j. workload_namespace (l_from (m_cut m)) = Some ns \<and> render_isolation hash m = Some j \<and>
    api_patch K (np_api ns (object_name hash ''protector-isolate'' m)) j c = (True, c')"
  using assms
  by (auto simp: apply_isolation_def Let_def split: option.splits if_splits prod.splits bool.splits)

lemma isolation_reverted:
  assumes "revert_isolation K hash m c = (Reverted, c')"
    and "workload_namespace (l_from (m_cut m)) = Some ns"
  shows "api_delete K (np_api ns (object_name hash ''protector-isolate'' m)) c = (True, c')"
  using assms by (auto simp: revert_isolation_def split: prod.splits bool.splits)

lemma isolation_roundtrip:
  assumes up: "apply_isolation K hash m c = (Applied, c1)"
    and down: "revert_isolation K hash m c1 = (Reverted, c2)"
    and fresh: "\<And>ns. workload_namespace (l_from (m_cut m)) = Some ns \<Longrightarrow>
      api_get K c (np_api ns (object_name hash ''protector-isolate'' m)) = None"
  shows "(\<exists>ns j. workload_namespace (l_from (m_cut m)) = Some ns \<and> render_isolation hash m = Some j \<and>
      api_get K c1 (np_api ns (object_name hash ''protector-isolate'' m)) = Some j) \<and>
    (\<forall>r. api_get K c2 r = api_get K c r)"
proof -
  obtain ns j where ns: "workload_namespace (l_from (m_cut m)) = Some ns"
    and j: "render_isolation hash m = Some j"
    and patch: "api_patch K (np_api ns (object_name hash ''protector-isolate'' m)) j c = (True, c1)"
    using isolation_applied [OF up] by blast
  let ?r = "np_api ns (object_name hash ''protector-isolate'' m)"
  note delete = isolation_reverted [OF down ns]
  have "api_get K c1 ?r = Some j" using patch_creates [OF patch] fresh [OF ns] by simp
  moreover have "api_get K c2 r = api_get K c r" for r
  proof (cases "r = ?r")
    case True
    then show ?thesis using delete_removes [OF delete] fresh [OF ns] by simp
  next
    case False
    then show ?thesis using patch_frame [OF patch] delete_frame [OF delete] by simp
  qed
  ultimately show ?thesis using ns j by blast
qed

end

text \<open>An object store that keeps manifests by reference and never fails.\<close>

definition store_api :: "(object_ref \<Rightarrow> json option) kube_api" where
  "store_api =
     \<lparr>api_patch = (\<lambda>r j c. (True, c(r \<mapsto> j))),
      api_delete = (\<lambda>r c. (c r \<noteq> None, c(r := None))),
      api_get = (\<lambda>c r. c r),
      from_value = (\<lambda>_. True)\<rparr>"

interpretation store: kube_server store_api
  by unfold_locales (auto simp: store_api_def)

section \<open>Facts about the actuators\<close>

lemma kube_drops_workload_quarantine:
  "m_action m = QuarantineWorkload \<Longrightarrow> act_apply (kube_actuator K hash) m c = (DryRun, c)"
  by (simp add: kube_actuator_def kube_apply_def render_deny_def)

lemma revert_needs_ownership:
  "\<not> owned_by_protector target \<Longrightarrow> node_containment_revert K hash m target co c = (DryRun, c)"
  by (simp add: node_containment_revert_def revert_decision_def)

section \<open>Properties\<close>



end
