(* ===== verification/Scope_Preview.thy ===== *)
theory Scope_Preview
  imports Actuator
begin

text \<open>
  The read-only preview of an enforcement scope (\<open>respond/actuator/scope_preview.rs\<close>): the standing cuts
  an operator's candidate scope would arm, and those it would hold as proposals.
\<close>

record firing_cut =
  fc_cut :: string
  fc_action :: proposed_action
  fc_collateral :: "string list"
  collateral_unknown :: bool

record held_cut =
  hc_cut :: string
  hc_action :: proposed_action

record scope_preview =
  would_fire :: "firing_cut list"
  held_out_of_scope :: "held_cut list"

definition would_ever_act :: "mitigation \<Rightarrow> bool" where
  "would_ever_act m \<longleftrightarrow>
     is_reversible (m_action m) \<and> is_additive_live (m_action m) \<and> is_live_corroborated m"

definition preview_step ::
  "actuation_scope \<Rightarrow> mitigation \<times> blast_radius \<Rightarrow> firing_cut list \<times> held_cut list \<Rightarrow>
   firing_cut list \<times> held_cut list" where
  "preview_step candidate = (\<lambda>(m, blast) (fire, held).
     if \<not> would_ever_act m then (fire, held)
     else if endpoints_within candidate m then
       (fire @ [\<lparr>fc_cut = mitigation_signature m, fc_action = m_action m,
                 fc_collateral = alive_collateral blast, collateral_unknown = br_incomplete blast\<rparr>], held)
     else (fire, held @ [\<lparr>hc_cut = mitigation_signature m, hc_action = m_action m\<rparr>]))"

definition preview_scope :: "(mitigation \<times> blast_radius) list \<Rightarrow> actuation_scope \<Rightarrow> scope_preview" where
  "preview_scope cuts candidate =
     (case fold (preview_step candidate) cuts ([], []) of
        (fire, held) \<Rightarrow>
          \<lparr>would_fire = sort_key fc_cut fire, held_out_of_scope = sort_key hc_cut held\<rparr>)"

section \<open>Facts about the preview\<close>

definition firing :: "mitigation \<times> blast_radius \<Rightarrow> firing_cut" where
  "firing = (\<lambda>(m, blast). \<lparr>fc_cut = mitigation_signature m, fc_action = m_action m,
     fc_collateral = alive_collateral blast, collateral_unknown = br_incomplete blast\<rparr>)"

definition holding :: "mitigation \<times> blast_radius \<Rightarrow> held_cut" where
  "holding = (\<lambda>(m, _). \<lparr>hc_cut = mitigation_signature m, hc_action = m_action m\<rparr>)"

lemma preview_step_cases:
  "preview_step candidate (m, blast) (fire, kept) =
     (if would_ever_act m \<and> endpoints_within candidate m then (fire @ [firing (m, blast)], kept)
      else if would_ever_act m then (fire, kept @ [holding (m, blast)])
      else (fire, kept))"
  by (simp add: preview_step_def firing_def holding_def)

lemma fold_preview_step:
  "fold (preview_step candidate) cuts (fire, kept) =
     (fire @ map firing (filter (\<lambda>(m, _). would_ever_act m \<and> endpoints_within candidate m) cuts),
      kept @ map holding (filter (\<lambda>(m, _). would_ever_act m \<and> \<not> endpoints_within candidate m) cuts))"
proof (induction cuts arbitrary: fire kept)
  case Nil
  then show ?case by simp
next
  case (Cons e cuts)
  then show ?case by (cases e) (simp add: preview_step_cases)
qed

lemma preview_scope_eq:
  "preview_scope cuts candidate =
     \<lparr>would_fire = sort_key fc_cut
        (map firing (filter (\<lambda>(m, _). would_ever_act m \<and> endpoints_within candidate m) cuts)),
      held_out_of_scope = sort_key hc_cut
        (map holding (filter (\<lambda>(m, _). would_ever_act m \<and> \<not> endpoints_within candidate m) cuts))\<rparr>"
  by (simp add: preview_scope_def fold_preview_step)

end
