(* ===== verification/Divergence.thy ===== *)
theory Divergence
  imports Respond
begin

text \<open>
  The audit rings (\<open>state/reversion.rs\<close>, \<open>state/divergence.rs\<close>) and the comparator of the model's cuts
  with the deterministic ones (\<open>engine/src/engine/cut_divergence.rs\<close>). Both rings keep the newest
  entries up to a fixed capacity; the locale \<open>bounded_ring\<close> states that contract once.
\<close>

section \<open>Bounded rings\<close>

locale bounded_ring =
  fixes push :: "'a \<Rightarrow> 'a list \<Rightarrow> 'a list" and cap :: nat
  assumes cap_pos: "0 < cap"
    and push_room: "length rows < cap \<Longrightarrow> push x rows = rows @ [x]"
    and push_full: "length rows = cap \<Longrightarrow> push x rows = tl rows @ [x]"
begin

lemma push_drop: "length rows \<le> cap \<Longrightarrow> push x rows = drop (Suc (length rows) - cap) (rows @ [x])"
proof (cases "length rows = cap")
  case True
  then have "rows \<noteq> []" using cap_pos by auto
  then have "tl rows @ [x] = drop 1 (rows @ [x])" by (cases rows) simp_all
  moreover have "Suc (length rows) - cap = 1" using True by simp
  ultimately show ?thesis unfolding push_full [OF True] by argo
next
  case False
  assume "length rows \<le> cap"
  with False show ?thesis by (simp add: push_room)
qed

lemma fold_push: "fold push xs [] = drop (length xs - cap) xs"
proof (induction xs rule: rev_induct)
  case Nil
  then show ?case by simp
next
  case (snoc x xs)
  let ?rows = "drop (length xs - cap) xs"
  have "length ?rows \<le> cap" by simp
  then have "fold push (xs @ [x]) [] = drop (Suc (length ?rows) - cap) (?rows @ [x])"
    by (simp add: snoc push_drop)
  also have "\<dots> = drop (length (xs @ [x]) - cap) (xs @ [x])"
    by (cases "cap \<le> length xs") (simp_all add: Suc_diff_le)
  finally show ?case .
qed

lemma fold_push_length: "length (fold push xs []) \<le> cap"
  by (simp add: fold_push)

end

section \<open>Lifted cuts\<close>

record reversion_record =
  rr_cut :: string
  rr_reason :: string
  rr_at_ms :: u64

definition REVERSION_CAP :: nat where
  "REVERSION_CAP = 64"

definition reversion_push :: "reversion_record \<Rightarrow> reversion_record list \<Rightarrow> reversion_record list" where
  "reversion_push r rows = (if length rows \<ge> REVERSION_CAP then tl rows else rows) @ [r]"

definition reversion_snapshot :: "reversion_record list \<Rightarrow> reversion_record list" where
  "reversion_snapshot rows = rev rows"

interpretation reversions: bounded_ring reversion_push REVERSION_CAP
  by unfold_locales (simp_all add: reversion_push_def REVERSION_CAP_def)

section \<open>The comparator\<close>

datatype divergence_class = Agree | ModelOverCut | ModelUnderCut | Mixed

record divergence_record =
  dr_entry :: string
  dr_class :: divergence_class
  dr_model_cuts :: "string list"
  dr_deterministic_cuts :: "string list"

definition chain_targets :: "proven_chain \<Rightarrow> string list" where
  "chain_targets chain =
     (case containment_for chain of
        Some (_, action) \<Rightarrow>
          if is_additive_live action \<and> is_reversible action then [pc_entry chain] else []
      | None \<Rightarrow> []) @
     map qt_node
       (filter (\<lambda>t. qt_node t \<noteq> pc_entry chain \<and> quarantine_workload_link (qt_node t) (qt_labels t) \<noteq> None)
         (quarantine_targets chain))"

definition deterministic_targets :: "proven_chain list \<Rightarrow> string list" where
  "deterministic_targets cs0 = bs_of_list (concat (map chain_targets cs0))"

definition classify :: "string list \<Rightarrow> string list \<Rightarrow> divergence_class" where
  "classify model deterministic =
     (if model = deterministic then Agree
      else if set deterministic \<subseteq> set model then ModelOverCut
      else if set model \<subseteq> set deterministic then ModelUnderCut
      else Mixed)"

definition group_push :: "proven_chain \<Rightarrow> (string, proven_chain list) btree \<Rightarrow> (string, proven_chain list) btree" where
  "group_push chain m =
     bt_put (pc_entry chain)
       ((case bt_get m (pc_entry chain) of Some cs \<Rightarrow> cs | None \<Rightarrow> []) @ [chain]) m"

definition by_entry :: "proven_chain list \<Rightarrow> (string, proven_chain list) btree" where
  "by_entry cs0 =
     fold (\<lambda>chain m. if is_breach_relevant chain then group_push chain m else m) cs0 []"

definition compute_entry ::
  "(string, incident_decision) btree \<Rightarrow> string \<times> proven_chain list \<Rightarrow> divergence_record option" where
  "compute_entry decisions = (\<lambda>(entry, entry_cs).
     do {
       d \<leftarrow> bt_get decisions entry;
       model_cuts \<leftarrow>
         (case d_assessment d of
            Attack \<Rightarrow> Some (bs_of_list (map cc_node (d_cuts d)))
          | NoAttack \<Rightarrow> Some []
          | Uncertain \<Rightarrow> None);
       let deterministic_cuts = deterministic_targets entry_cs;
       Some \<lparr>dr_entry = entry, dr_class = classify model_cuts deterministic_cuts,
             dr_model_cuts = model_cuts, dr_deterministic_cuts = deterministic_cuts\<rparr>
     })"

definition compute_divergence ::
  "proven_chain list \<Rightarrow> (string, incident_decision) btree \<Rightarrow> divergence_record list" where
  "compute_divergence cs0 decisions = List.map_filter (compute_entry decisions) (by_entry cs0)"

section \<open>The divergence ring\<close>

record divergence_row =
  dw_entry :: string
  dw_class :: divergence_class
  dw_model_cuts :: "string list"
  dw_deterministic_cuts :: "string list"
  dw_at_ms :: u64

text \<open>The wall clock is an argument.\<close>

definition divergence_now :: "u64 \<Rightarrow> divergence_record \<Rightarrow> divergence_row" where
  "divergence_now at_ms r =
     \<lparr>dw_entry = dr_entry r, dw_class = dr_class r, dw_model_cuts = dr_model_cuts r,
      dw_deterministic_cuts = dr_deterministic_cuts r, dw_at_ms = at_ms\<rparr>"

definition DIVERGENCE_CAP :: nat where
  "DIVERGENCE_CAP = 256"

definition divergence_push :: "divergence_row \<Rightarrow> divergence_row list \<Rightarrow> divergence_row list" where
  "divergence_push r rows = (if length rows \<ge> DIVERGENCE_CAP then tl rows else rows) @ [r]"

definition divergence_snapshot :: "divergence_row list \<Rightarrow> divergence_row list" where
  "divergence_snapshot rows = rev rows"

record divergence_counts =
  n_agree :: nat
  n_model_over_cut :: nat
  n_model_under_cut :: nat
  n_mixed :: nat

definition count_class :: "divergence_row \<Rightarrow> divergence_counts \<Rightarrow> divergence_counts" where
  "count_class r c =
     (case dw_class r of
        Agree \<Rightarrow> c\<lparr>n_agree := n_agree c + 1\<rparr>
      | ModelOverCut \<Rightarrow> c\<lparr>n_model_over_cut := n_model_over_cut c + 1\<rparr>
      | ModelUnderCut \<Rightarrow> c\<lparr>n_model_under_cut := n_model_under_cut c + 1\<rparr>
      | Mixed \<Rightarrow> c\<lparr>n_mixed := n_mixed c + 1\<rparr>)"

definition class_counts :: "divergence_row list \<Rightarrow> divergence_counts" where
  "class_counts rows =
     fold count_class rows
       \<lparr>n_agree = 0, n_model_over_cut = 0, n_model_under_cut = 0, n_mixed = 0\<rparr>"

interpretation divergences: bounded_ring divergence_push DIVERGENCE_CAP
  by unfold_locales (simp_all add: divergence_push_def DIVERGENCE_CAP_def)

section \<open>Facts about the comparator\<close>

lemma group_push_ok: "bt_ok m \<Longrightarrow> bt_ok (group_push c m)"
  by (simp add: group_push_def)

lemma by_entry_fold:
  "bt_ok m \<Longrightarrow>
     bt_ok (fold (\<lambda>c m. if is_breach_relevant c then group_push c m else m) cs0 m) \<and>
     bt_get (fold (\<lambda>c m. if is_breach_relevant c then group_push c m else m) cs0 m) k =
       (let cs = filter (\<lambda>c. is_breach_relevant c \<and> pc_entry c = k) cs0
        in case bt_get m k of Some prior \<Rightarrow> Some (prior @ cs) | None \<Rightarrow> if cs = [] then None else Some cs)"
proof (induction cs0 arbitrary: m)
  case Nil
  then show ?case by (simp split: option.split)
next
  case (Cons c cs0)
  show ?case
  proof (cases "is_breach_relevant c")
    case True
    then show ?thesis
      using Cons.IH [OF group_push_ok [OF Cons.prems]] Cons.prems
      by (simp add: Let_def) (auto simp: group_push_def bt_get_put split: option.splits)
  next
    case False
    then show ?thesis using Cons.IH [OF Cons.prems] by simp
  qed
qed

lemma by_entry_ok: "bt_ok (by_entry cs0)"
  using by_entry_fold [of "[]"] by (simp add: by_entry_def)

lemma by_entry_get:
  "bt_get (by_entry cs0) k =
     (let cs = filter (\<lambda>c. is_breach_relevant c \<and> pc_entry c = k) cs0 in if cs = [] then None else Some cs)"
  using by_entry_fold [of "[]" cs0 k] by (simp add: by_entry_def bt_get_def)

end
