(* ===== verification/Verdict.thy ===== *)
theory Verdict
  imports Prove
begin

text \<open>
  The verdicts of the model (\<open>reason/adjudicate/mod.rs\<close>), the judged surface whose additions decide
  a re-judge (\<open>reason/adjudicate/surface.rs\<close>), and the posture and change glyph a finding carries
  (\<open>state/recency.rs\<close>).
\<close>

section \<open>Verdicts\<close>

datatype verdict = Confirmed | Exploitable string | Refuted string | Unsure string

fun is_confirmed :: "verdict \<Rightarrow> bool" where
  "is_confirmed Confirmed = True"
| "is_confirmed (Exploitable _) = True"
| "is_confirmed _ = False"

fun promotes :: "verdict \<Rightarrow> bool" where
  "promotes (Exploitable _) = True"
| "promotes _ = False"

fun verdict_label :: "verdict \<Rightarrow> string" where
  "verdict_label Confirmed = ''confirmed''"
| "verdict_label (Exploitable _) = ''exploitable''"
| "verdict_label (Refuted _) = ''refuted''"
| "verdict_label (Unsure _) = ''uncertain''"

fun verdict_summary :: "verdict \<Rightarrow> string" where
  "verdict_summary Confirmed = ''confirmed (live attack stands)''"
| "verdict_summary (Exploitable why) = ''exploitable '' @ em_dash @ '' '' @ why"
| "verdict_summary (Refuted why) = ''not exploitable '' @ em_dash @ '' '' @ why"
| "verdict_summary (Unsure why) = ''uncertain '' @ em_dash @ '' '' @ why"

definition decisive :: "verdict \<Rightarrow> bool" where
  "decisive v = (case v of Unsure _ \<Rightarrow> False | _ \<Rightarrow> True)"

lemma decisive_simps [simp]:
  "decisive Confirmed" "decisive (Exploitable w)" "decisive (Refuted w)" "\<not> decisive (Unsure w)"
  by (simp_all add: decisive_def)

section \<open>The judged surface\<close>

record judged_surface =
  js_objectives :: "string list"
  js_cves :: "string list"
  js_secrets :: "string list"
  js_posture :: "string list"
  js_behaviors :: "string list"
  js_downstream :: "string list"

definition from_lines ::
  "string list \<Rightarrow> string list \<Rightarrow> string list \<Rightarrow> string list \<Rightarrow> string list \<Rightarrow> string list \<Rightarrow> judged_surface" where
  "from_lines objectives cves secrets posture behaviors downstream =
     \<lparr>js_objectives = bs_of_list objectives, js_cves = bs_of_list cves, js_secrets = bs_of_list secrets,
      js_posture = bs_of_list posture, js_behaviors = bs_of_list behaviors,
      js_downstream = bs_of_list downstream\<rparr>"

record changes_since =
  cs_objectives :: "string list"
  cs_cves :: "string list"
  cs_secrets :: "string list"
  cs_posture :: "string list"
  cs_behaviors :: "string list"
  cs_downstream :: "string list"

text \<open>The difference of two sorted sets, in order.\<close>

definition bs_diff :: "string list \<Rightarrow> string list \<Rightarrow> string list" where
  "bs_diff cur old = filter (\<lambda>x. x \<notin> set old) cur"

definition changes_none :: changes_since where
  "changes_none =
     \<lparr>cs_objectives = [], cs_cves = [], cs_secrets = [], cs_posture = [], cs_behaviors = [],
      cs_downstream = []\<rparr>"

definition additions_since :: "judged_surface \<Rightarrow> judged_surface option \<Rightarrow> changes_since" where
  "additions_since cur baseline =
     (case baseline of
        None \<Rightarrow> changes_none
      | Some base \<Rightarrow>
          \<lparr>cs_objectives = bs_diff (js_objectives cur) (js_objectives base),
           cs_cves = bs_diff (js_cves cur) (js_cves base),
           cs_secrets = bs_diff (js_secrets cur) (js_secrets base),
           cs_posture = bs_diff (js_posture cur) (js_posture base),
           cs_behaviors = bs_diff (js_behaviors cur) (js_behaviors base),
           cs_downstream = bs_diff (js_downstream cur) (js_downstream base)\<rparr>)"

definition changes_is_empty :: "changes_since \<Rightarrow> bool" where
  "changes_is_empty c \<longleftrightarrow>
     cs_objectives c = [] \<and> cs_cves c = [] \<and> cs_secrets c = [] \<and> cs_posture c = [] \<and>
     cs_behaviors c = [] \<and> cs_downstream c = []"

definition trim_marker :: "string \<Rightarrow> string" where
  "trim_marker line = dropWhile (\<lambda>c. c = CHR '' '' \<or> c = CHR ''-'') line"

definition labelled_lines :: "string \<Rightarrow> string list \<Rightarrow> string list" where
  "labelled_lines label lines = map (\<lambda>line. label @ '': '' @ trim_marker line) lines"

definition rendered_lines :: "changes_since \<Rightarrow> string list" where
  "rendered_lines c =
     labelled_lines ''newly-reachable objective'' (cs_objectives c) @
     labelled_lines ''newly-running CVE'' (cs_cves c) @
     labelled_lines ''newly-exposed secret'' (cs_secrets c) @
     labelled_lines ''new static-posture finding'' (cs_posture c) @
     labelled_lines ''newly-observed runtime behavior'' (cs_behaviors c) @
     labelled_lines ''new downstream-workload evidence'' (cs_downstream c)"

text \<open>One surface within another, category by category.\<close>

definition surface_within :: "judged_surface \<Rightarrow> judged_surface \<Rightarrow> bool" where
  "surface_within cur base \<longleftrightarrow>
     set (js_objectives cur) \<subseteq> set (js_objectives base) \<and> set (js_cves cur) \<subseteq> set (js_cves base) \<and>
     set (js_secrets cur) \<subseteq> set (js_secrets base) \<and> set (js_posture cur) \<subseteq> set (js_posture base) \<and>
     set (js_behaviors cur) \<subseteq> set (js_behaviors base) \<and>
     set (js_downstream cur) \<subseteq> set (js_downstream base)"

lemma bs_diff_Nil: "bs_diff cur old = [] \<longleftrightarrow> set cur \<subseteq> set old"
  by (auto simp: bs_diff_def filter_empty_conv)

lemma no_additions_iff: "changes_is_empty (additions_since cur (Some base)) \<longleftrightarrow> surface_within cur base"
  by (simp add: additions_since_def changes_is_empty_def surface_within_def bs_diff_Nil)

lemma rendered_lines_Nil: "rendered_lines c = [] \<longleftrightarrow> changes_is_empty c"
  by (simp add: rendered_lines_def labelled_lines_def changes_is_empty_def)

section \<open>Recency\<close>

datatype stored_posture = PBreach | PUnknown | PSafe | PAwaiting

fun of_verdict :: "verdict option \<Rightarrow> stored_posture" where
  "of_verdict None = PAwaiting"
| "of_verdict (Some v) =
     (if is_confirmed v then PBreach
      else (case v of Unsure _ \<Rightarrow> PUnknown | _ \<Rightarrow> PSafe))"

fun posture_rank :: "stored_posture \<Rightarrow> nat" where
  "posture_rank PAwaiting = 0"
| "posture_rank PSafe = 1"
| "posture_rank PUnknown = 2"
| "posture_rank PBreach = 3"

datatype recency_delta = New | Escalated | DeEscalated | Unchanged | Restored

definition delta_from :: "stored_posture \<Rightarrow> stored_posture \<Rightarrow> recency_delta" where
  "delta_from prev now =
     (if posture_rank now > posture_rank prev then Escalated
      else if posture_rank now < posture_rank prev then DeEscalated
      else Unchanged)"

definition is_new :: "recency_delta \<Rightarrow> bool" where
  "is_new d \<longleftrightarrow> d = New"

definition is_escalation :: "recency_delta \<Rightarrow> bool" where
  "is_escalation d \<longleftrightarrow> d = Escalated"

record recency_info =
  ri_delta :: recency_delta
  age_secs :: "nat option"

lemma of_verdict_safe: "of_verdict (Some v) = PSafe \<longleftrightarrow> (\<exists>why. v = Refuted why)"
  by (cases v) auto

lemma delta_from_unchanged: "delta_from prev now = Unchanged \<longleftrightarrow> prev = now"
  by (cases prev; cases now) (simp_all add: delta_from_def)

end
