(* ===== verification/Backoff.thy ===== *)
theory Backoff
  imports Prelude
begin

text \<open>
  The gate in front of a struggling model (\<open>engine/src/engine/reason/backoff.rs\<close>): the exponential
  retry delay of an entry with its deterministic jitter, and the global circuit breaker. Counters and
  the jitter hash are machine words. A \<open>Duration\<close> is its count of nanoseconds, bounded by the largest
  duration, so that the checked product and the panicking sum are visible: \<open>None\<close> from \<open>delay\<close> is the
  panic of an overflowing sum. An \<open>Instant\<close> is an unbounded count of nanoseconds.
\<close>

unbundle bit_operations_syntax

section \<open>Durations\<close>

type_synonym instant = int

definition DURATION_MAX :: nat where
  "DURATION_MAX = 2 ^ 64 * 10 ^ 9 - 1"

definition from_secs :: "nat \<Rightarrow> nat" where
  "from_secs s = s * 10 ^ 9"

definition duration_checked_mul :: "nat \<Rightarrow> nat \<Rightarrow> nat option" where
  "duration_checked_mul d k = (if d * k \<le> DURATION_MAX then Some (d * k) else None)"

definition duration_add :: "nat \<Rightarrow> nat \<Rightarrow> nat option" where
  "duration_add d e = (if d + e \<le> DURATION_MAX then Some (d + e) else None)"

definition saturating_inc :: "u32 \<Rightarrow> u32" where
  "saturating_inc n = (if n = - 1 then n else n + 1)"

section \<open>The delay\<close>

definition BASE :: nat where
  "BASE = from_secs 30"

definition CAP :: nat where
  "CAP = from_secs 600"

definition BREAKER_TRIP :: u32 where
  "BREAKER_TRIP = 3"

definition BREAKER_COOLDOWN :: nat where
  "BREAKER_COOLDOWN = from_secs 120"

definition mix :: "u64 \<Rightarrow> u64" where
  "mix x0 =
     (let x1 = x0 + 0x9E3779B97F4A7C15;
          x2 = (x1 XOR drop_bit 30 x1) * 0xBF58476D1CE4E5B9;
          x3 = (x2 XOR drop_bit 27 x2) * 0x94D049BB133111EB
      in x3 XOR drop_bit 31 x3)"

text \<open>The doubling factor: a shift past the width clamps to the largest 64-bit value.\<close>

definition shift_factor :: "u32 \<Rightarrow> u64" where
  "shift_factor s = (if unat s < 64 then push_bit (unat s) 1 else - 1)"

definition grown_delay :: "u32 \<Rightarrow> nat \<Rightarrow> nat \<Rightarrow> nat" where
  "grown_delay failures base cap =
     (let factor = min (shift_factor (failures - 1)) 0xFFFFFFFF
      in min (case duration_checked_mul base (unat factor) of Some d \<Rightarrow> d | None \<Rightarrow> cap) cap)"

definition jitter :: "u32 \<Rightarrow> nat \<Rightarrow> u64 \<Rightarrow> nat" where
  "jitter failures jitter_span seed =
     (if jitter_span = 0 then 0
      else
        (let h = mix (seed XOR push_bit 32 (ucast failures))
         in unat h mod max (jitter_span mod 2 ^ 64) 1))"

definition delay :: "u32 \<Rightarrow> nat \<Rightarrow> nat \<Rightarrow> u64 \<Rightarrow> nat option" where
  "delay failures base cap seed =
     (if failures = 0 then Some 0
      else
        (let grown = grown_delay failures base cap; jitter_span = grown div 8
         in do {
              total \<leftarrow> duration_add grown (jitter failures jitter_span seed);
              bound \<leftarrow> duration_add cap jitter_span;
              Some (min total bound)
            }))"

section \<open>Per-entry backoff\<close>

record entry_backoff =
  failures :: u32
  next_retry_at :: "instant option"

definition backoff_default :: entry_backoff where
  "backoff_default = \<lparr>failures = 0, next_retry_at = None\<rparr>"

definition is_backing_off :: "entry_backoff \<Rightarrow> instant \<Rightarrow> bool" where
  "is_backing_off b now = (case next_retry_at b of Some at \<Rightarrow> now < at | None \<Rightarrow> False)"

definition backoff_failure :: "instant \<Rightarrow> u64 \<Rightarrow> entry_backoff \<Rightarrow> entry_backoff option" where
  "backoff_failure now seed b =
     (let n = saturating_inc (failures b)
      in do { d \<leftarrow> delay n BASE CAP seed; Some \<lparr>failures = n, next_retry_at = Some (now + int d)\<rparr> })"

definition backoff_success :: "entry_backoff \<Rightarrow> entry_backoff" where
  "backoff_success b = \<lparr>failures = 0, next_retry_at = None\<rparr>"

section \<open>The circuit breaker\<close>

record circuit_breaker =
  consecutive_failures :: u32
  open_until :: "instant option"

definition breaker_default :: circuit_breaker where
  "breaker_default = \<lparr>consecutive_failures = 0, open_until = None\<rparr>"

definition is_open :: "circuit_breaker \<Rightarrow> instant \<Rightarrow> bool" where
  "is_open b now = (case open_until b of Some until \<Rightarrow> now < until | None \<Rightarrow> False)"

definition breaker_failure :: "instant \<Rightarrow> circuit_breaker \<Rightarrow> circuit_breaker" where
  "breaker_failure now b =
     (let n = saturating_inc (consecutive_failures b)
      in if n \<ge> BREAKER_TRIP
         then b\<lparr>consecutive_failures := n, open_until := Some (now + int BREAKER_COOLDOWN)\<rparr>
         else b\<lparr>consecutive_failures := n\<rparr>)"

definition breaker_success :: "circuit_breaker \<Rightarrow> circuit_breaker" where
  "breaker_success b = \<lparr>consecutive_failures = 0, open_until = None\<rparr>"

section \<open>Facts about the delay\<close>

lemma unat_shift_factor:
  "unat (shift_factor s) = (if unat s < 64 then 2 ^ unat s else 2 ^ 64 - 1)"
proof (cases "unat s < 64")
  case True
  then have "(2::nat) ^ unat s < 2 ^ 64" by (intro power_strict_increasing) auto
  then have "unat (of_nat (2 ^ unat s) :: u64) = 2 ^ unat s"
    unfolding unsigned_of_nat by (simp add: take_bit_eq_mod)
  with True show ?thesis by (simp add: shift_factor_def push_bit_eq_mult)
next
  case False
  then show ?thesis by (simp add: shift_factor_def unsigned_minus_1_eq_mask mask_eq_exp_minus_1)
qed

lemma unat_failures_minus:
  "n \<noteq> 0 \<Longrightarrow> unat (n - 1 :: u32) = unat n - 1"
  by (rule unat_minus_one)

text \<open>The clamped product is the mathematical one: doubling from the base, cut off at the ceiling.\<close>

lemma grown_delay_exact:
  assumes "n \<noteq> 0"
  shows "grown_delay n BASE CAP = min (BASE * 2 ^ (unat n - 1)) CAP"
proof -
  let ?k = "unat n - 1"
  let ?f = "min (shift_factor (n - 1)) 0xFFFFFFFF"
  have f: "unat ?f = min (unat (shift_factor (n - 1))) 0xFFFFFFFF"
    by (simp add: min_def word_le_nat_alt)
  have k: "unat (n - 1) = ?k" using assms by (rule unat_failures_minus)
  have le: "unat ?f \<le> 0xFFFFFFFF" by (simp add: f)
  have mul: "duration_checked_mul BASE (unat ?f) = Some (BASE * unat ?f)"
    using le by (simp add: duration_checked_mul_def DURATION_MAX_def BASE_def from_secs_def)
  show ?thesis
  proof (cases "?k < 32")
    case True
    then have "(2::nat) ^ ?k \<le> 2 ^ 31" by (intro power_increasing) auto
    then have "unat ?f = 2 ^ ?k" using True by (simp add: f k unat_shift_factor)
    then show ?thesis unfolding grown_delay_def Let_def mul by simp
  next
    case False
    then have big: "(2::nat) ^ 32 \<le> 2 ^ ?k" by (intro power_increasing) auto
    then have "unat ?f = 0xFFFFFFFF" by (auto simp: f k unat_shift_factor)
    then have "grown_delay n BASE CAP = CAP"
      unfolding grown_delay_def Let_def mul by (simp add: BASE_def CAP_def from_secs_def)
    moreover have "CAP \<le> BASE * 2 ^ ?k"
      using mult_le_mono2 [OF big, of BASE] by (simp add: BASE_def CAP_def from_secs_def)
    ultimately show ?thesis by simp
  qed
qed

lemma jitter_less: "0 < s \<Longrightarrow> s < 2 ^ 64 \<Longrightarrow> jitter n s seed < s"
  by (simp add: jitter_def Let_def)

lemma delay_value:
  assumes "n \<noteq> 0"
  defines "g \<equiv> min (BASE * 2 ^ (unat n - 1)) CAP"
  shows "delay n BASE CAP seed = Some (g + jitter n (g div 8) seed)"
    and "BASE \<le> g" and "g \<le> CAP" and "jitter n (g div 8) seed < g div 8"
proof -
  have "BASE * 1 \<le> BASE * 2 ^ (unat n - 1)" by (intro mult_le_mono2) simp
  then show base: "BASE \<le> g" by (simp add: g_def) (simp add: BASE_def CAP_def from_secs_def)
  show cap: "g \<le> CAP" by (simp add: g_def)
  have span: "0 < g div 8" "g div 8 < 2 ^ 64"
    using base cap by (simp_all add: BASE_def CAP_def from_secs_def div_greater_zero_iff)
  show less: "jitter n (g div 8) seed < g div 8" using span by (rule jitter_less)
  have "g + jitter n (g div 8) seed \<le> CAP + g div 8" using cap less by simp
  moreover have "CAP + g div 8 \<le> DURATION_MAX"
    using cap by (simp add: DURATION_MAX_def CAP_def from_secs_def)
  ultimately show "delay n BASE CAP seed = Some (g + jitter n (g div 8) seed)"
    using assms(1) grown_delay_exact [OF assms(1)]
    by (simp add: delay_def Let_def g_def duration_add_def)
qed

lemma saturating_inc_nonzero: "saturating_inc n \<noteq> 0"
  by (auto simp: saturating_inc_def eq_neg_iff_add_eq_0)

lemma backoff_failure_total:
  "\<exists>d. backoff_failure now seed b =
     Some \<lparr>failures = saturating_inc (failures b), next_retry_at = Some (now + int d)\<rparr> \<and>
     BASE \<le> d \<and> d < CAP + CAP div 8"
proof -
  let ?n = "saturating_inc (failures b)"
  let ?g = "min (BASE * 2 ^ (unat ?n - 1)) CAP"
  let ?d = "?g + jitter ?n (?g div 8) seed"
  note n = saturating_inc_nonzero [of "failures b"]
  have "?g div 8 \<le> CAP div 8" by (intro div_le_mono) simp
  then have "BASE \<le> ?d" "?d < CAP + CAP div 8" 
    using delay_value(2, 3) [OF n] delay_value(4) [OF n, of seed] by linarith+
  then show ?thesis
    using delay_value(1) [OF n, of seed]
    by (intro exI [of _ ?d]) (simp add: backoff_failure_def Let_def)
qed

section \<open>The breaker over a history of calls\<close>

text \<open>A history lists the outcomes of the model calls with their times, the latest first.\<close>

fun breaker_after :: "(bool \<times> instant) list \<Rightarrow> circuit_breaker" where
  "breaker_after [] = breaker_default"
| "breaker_after ((decisive, t) # h) =
     (if decisive then breaker_success (breaker_after h) else breaker_failure t (breaker_after h))"

definition failure_run :: "(bool \<times> instant) list \<Rightarrow> nat" where
  "failure_run h = length (takeWhile (\<lambda>(decisive, _). \<not> decisive) h)"

lemma unat_saturating_inc: "unat (saturating_inc n) = min (Suc (unat n)) (2 ^ 32 - 1)"
proof (cases "n = - 1")
  case True
  then show ?thesis by (simp add: saturating_inc_def unsigned_minus_1_eq_mask mask_eq_exp_minus_1)
next
  case False
  then have "unat n \<noteq> unat (- 1 :: u32)" by (simp add: word_unat_eq_iff)
  moreover have "unat n < 2 ^ 32" using unsigned_less [of n] by simp
  ultimately have "unat n < 2 ^ 32 - 1"
    by (simp add: unsigned_minus_1_eq_mask mask_eq_exp_minus_1)
  then have "unat (n + 1) = Suc (unat n)" by (simp add: unat_word_ariths)
  then show ?thesis using False \<open>unat n < 2 ^ 32 - 1\<close> by (simp add: saturating_inc_def)
qed

lemma breaker_counts: "unat (consecutive_failures (breaker_after h)) = min (failure_run h) (2 ^ 32 - 1)"
  by (induction h)
     (auto simp: breaker_default_def breaker_success_def breaker_failure_def failure_run_def Let_def
       unat_saturating_inc)

lemma breaker_open_until:
  "open_until (breaker_after h) =
     (if 3 \<le> failure_run h then Some (snd (hd h) + int BREAKER_COOLDOWN) else None)"
proof (induction h)
  case Nil
  then show ?case by (simp add: breaker_default_def failure_run_def)
next
  case (Cons e h)
  obtain decisive t where e: "e = (decisive, t)" by (cases e)
  have trip: "BREAKER_TRIP \<le> saturating_inc (consecutive_failures (breaker_after h)) \<longleftrightarrow>
      2 \<le> failure_run h"
    by (simp add: BREAKER_TRIP_def word_le_nat_alt unat_saturating_inc breaker_counts)
  show ?case
    using Cons.IH
    by (simp add: e breaker_success_def breaker_failure_def Let_def trip)
       (auto simp: failure_run_def)
qed

end
