(* ===== verification/Text.thy ===== *)
theory Text
  imports Prelude
begin

text \<open>
  The string functions of the standard library that the prompt and the guards use on untrusted
  text: \<open>contains\<close>, \<open>replace\<close>, \<open>match_indices\<close>, \<open>lines\<close>, \<open>split_whitespace\<close>, character counting
  and truncation, ASCII case folding, and decimal parsing.

  A \<open>char\<close> of a UTF-8 string is a byte that is not a continuation byte followed by its
  continuation bytes, so \<open>chars().count()\<close> and \<open>chars().take(n)\<close> are defined on the byte list.
\<close>

section \<open>Characters of a UTF-8 string\<close>

definition is_cont :: "char \<Rightarrow> bool" where
  "is_cont c \<longleftrightarrow> 128 \<le> (of_char c :: nat) \<and> (of_char c :: nat) < 192"

function utf8_chars :: "string \<Rightarrow> string list" where
  "utf8_chars [] = []"
| "utf8_chars (x # xs) = (x # takeWhile is_cont xs) # utf8_chars (dropWhile is_cont xs)"
  by pat_completeness auto
termination
  by (relation "measure length") (simp_all add: le_imp_less_Suc length_dropWhile_le)

definition char_count :: "string \<Rightarrow> nat" where
  "char_count s = length (utf8_chars s)"

definition char_take :: "nat \<Rightarrow> string \<Rightarrow> string" where
  "char_take n s = concat (take n (utf8_chars s))"

lemma concat_utf8_chars [simp]: "concat (utf8_chars s) = s"
  by (induction s rule: utf8_chars.induct) simp_all

lemma utf8_chars_shape: "c \<in> set (utf8_chars s) \<Longrightarrow> \<exists>x xs. c = x # xs \<and> (\<forall>y\<in>set xs. is_cont y)"
  by (induction s rule: utf8_chars.induct) (auto dest: set_takeWhileD)

lemma takeWhile_stop: "(\<forall>x\<in>set a. P x) \<Longrightarrow> b = [] \<or> \<not> P (hd b) \<Longrightarrow> takeWhile P (a @ b) = a \<and> dropWhile P (a @ b) = b"
  by (induction a) (cases b; auto)+

lemma hd_char_take: "concat (take m (utf8_chars t)) = [] \<or> t \<noteq> [] \<and> hd (concat (take m (utf8_chars t))) = hd t"
  by (cases m; cases t) auto

lemma utf8_chars_take: "utf8_chars (concat (take n (utf8_chars s))) = take n (utf8_chars s)"
proof (induction s arbitrary: n rule: utf8_chars.induct)
  case (2 x xs)
  show ?case
  proof (cases n)
    case (Suc m)
    let ?rest = "concat (take m (utf8_chars (dropWhile is_cont xs)))"
    have "?rest = [] \<or> \<not> is_cont (hd ?rest)"
      using hd_char_take [of m "dropWhile is_cont xs"] hd_dropWhile by metis
    then have "takeWhile is_cont (takeWhile is_cont xs @ ?rest) = takeWhile is_cont xs \<and>
        dropWhile is_cont (takeWhile is_cont xs @ ?rest) = ?rest"
      by (intro takeWhile_stop) (auto dest: set_takeWhileD)
    then show ?thesis using 2 Suc by simp
  qed simp
qed simp

lemma char_count_take [simp]: "char_count (char_take n s) = min n (char_count s)"
  by (simp add: char_count_def char_take_def utf8_chars_take)

section \<open>Searching and replacing\<close>

fun contains :: "string \<Rightarrow> string \<Rightarrow> bool" where
  "contains [] p \<longleftrightarrow> p = []"
| "contains (x # xs) p \<longleftrightarrow> starts_with (x # xs) p \<or> contains xs p"

text \<open>
  \<open>replace_all p r s\<close> is \<open>s.replace(p, r)\<close>: the non-overlapping matches from the left. The
  pattern is a non-empty literal at every call.
\<close>

function replace_all :: "string \<Rightarrow> string \<Rightarrow> string \<Rightarrow> string" where
  "replace_all p r s =
     (case s of
        [] \<Rightarrow> []
      | x # xs \<Rightarrow>
          if p \<noteq> [] \<and> starts_with s p then r @ replace_all p r (drop (length p) s)
          else x # replace_all p r xs)"
  by pat_completeness auto
termination
  by (relation "measure (\<lambda>(p, r, s). length s)") auto

declare replace_all.simps [simp del]

lemma replace_all_Nil [simp]: "replace_all p r [] = []"
  by (simp add: replace_all.simps)

lemma replace_all_Cons:
  "replace_all p r (x # xs) =
     (if p \<noteq> [] \<and> starts_with (x # xs) p then r @ replace_all p r (drop (length p) (x # xs))
      else x # replace_all p r xs)"
  by (simp add: replace_all.simps)

text \<open>The text after each match of \<open>s.match_indices(p)\<close>.\<close>

function matches_after :: "string \<Rightarrow> string \<Rightarrow> string list" where
  "matches_after p s =
     (case s of
        [] \<Rightarrow> []
      | x # xs \<Rightarrow>
          if p \<noteq> [] \<and> starts_with s p
          then drop (length p) s # matches_after p (drop (length p) s)
          else matches_after p xs)"
  by pat_completeness auto
termination
  by (relation "measure (\<lambda>(p, s). length s)") auto

declare matches_after.simps [simp del]

lemma contains_Nil_pattern [simp]: "contains s []"
  by (induction s) (simp_all add: starts_with_def)

lemma contains_iff: "contains s p \<longleftrightarrow> (\<exists>a b. s = a @ p @ b)"
proof (induction s)
  case (Cons x xs)
  show ?case
  proof
    assume "contains (x # xs) p"
    then consider r where "x # xs = p @ r" | "contains xs p"
      by (auto simp: starts_with_iff)
    then show "\<exists>a b. x # xs = a @ p @ b"
      by cases (metis append_Nil, metis Cons.IH append_Cons)
  next
    assume "\<exists>a b. x # xs = a @ p @ b"
    then obtain a b where ab: "x # xs = a @ p @ b" by blast
    show "contains (x # xs) p"
    proof (cases a)
      case Nil
      with ab have "starts_with (x # xs) p" unfolding starts_with_iff by auto
      then show ?thesis by simp
    next
      case (Cons y ys)
      with ab have "xs = ys @ p @ b" by simp
      with Cons.IH show ?thesis by auto
    qed
  qed
qed simp

lemma contains_append_left: "contains s p \<Longrightarrow> contains (a @ s) p"
  by (induction a) simp_all

lemma contains_append_right: "contains s p \<Longrightarrow> contains (s @ b) p"
  unfolding contains_iff by (metis append.assoc)

text \<open>
  A literal whose first character occurs only at its start cannot straddle the boundary of
  a text that begins with that character.
\<close>

lemma contains_skip:
  assumes "h \<notin> set a"
  shows "contains (a @ s) (h # q) \<longleftrightarrow> contains s (h # q)"
  using assms by (induction a) (auto simp: starts_with_def)

lemma starts_with_sep: "starts_with (a @ h # s) m \<Longrightarrow> h \<notin> set m \<Longrightarrow> starts_with a m"
proof (induction m arbitrary: a)
  case (Cons y m)
  then show ?case by (cases a) (auto simp: starts_with_def)
qed (simp add: starts_with_def)

lemma contains_sep:
  assumes "h \<notin> set m" "m \<noteq> []"
  shows "contains (a @ h # s) m \<longleftrightarrow> contains a m \<or> contains s m"
proof (induction a)
  case Nil
  then show ?case using assms by (cases m) (auto simp: starts_with_def)
next
  case (Cons x a)
  have "starts_with ((x # a) @ h # s) m \<longleftrightarrow> starts_with (x # a) m"
    using starts_with_sep [of "x # a" h s m] assms(1) unfolding starts_with_iff
    by (metis append.assoc)
  with Cons show ?case by auto
qed

lemma replace_all_prefix:
  assumes "h \<notin> set q" "starts_with (replace_all p (h # r) s) q"
  shows "starts_with s q"
  using assms
proof (induction q arbitrary: s)
  case (Cons y q)
  show ?case
  proof (cases s)
    case (Cons x xs)
    with Cons.prems have "\<not> (p \<noteq> [] \<and> starts_with (x # xs) p)"
      by (auto simp: replace_all_Cons starts_with_def split: if_splits)
    with Cons Cons.prems Cons.IH [of xs] show ?thesis
      by (auto simp: replace_all_Cons starts_with_def split: if_splits)
  qed (use Cons.prems in \<open>simp add: starts_with_def\<close>)
qed (simp add: starts_with_def)

lemma replace_all_removes:
  assumes "h \<notin> set q" "h \<notin> set r" "q \<noteq> []" "r \<noteq> []" "hd q \<noteq> hd r"
  shows "\<not> contains (replace_all (h # q) (h # r) s) (h # q)"
proof (induction s rule: length_induct)
  case (1 s)
  show ?case
  proof (cases s)
    case (Cons x xs)
    show ?thesis
    proof (cases "starts_with s (h # q)")
      case True
      let ?t = "replace_all (h # q) (h # r) (drop (length q) xs)"
      have eq: "replace_all (h # q) (h # r) s = (h # r) @ ?t"
        using True Cons by (simp add: replace_all_Cons)
      have "\<not> contains ?t (h # q)"
        using 1 Cons by simp
      moreover have "\<not> starts_with ((h # r) @ ?t) (h # q)"
        using assms(3-5) by (cases q; cases r) (simp_all add: starts_with_def)
      ultimately show ?thesis
        unfolding eq using assms(2) by (simp add: contains_skip)
    next
      case False
      have eq: "replace_all (h # q) (h # r) s = x # replace_all (h # q) (h # r) xs"
        using False Cons by (simp add: replace_all_Cons)
      have "\<not> contains (replace_all (h # q) (h # r) xs) (h # q)"
        using 1 Cons by simp
      moreover have "\<not> starts_with (x # replace_all (h # q) (h # r) xs) (h # q)"
        using False Cons replace_all_prefix [OF assms(1), of "h # q" r xs]
        by (auto simp: starts_with_def)
      ultimately show ?thesis unfolding eq by simp
    qed
  qed simp
qed

section \<open>Lines and words\<close>

text \<open>\<open>str::lines\<close>: split on LF, no empty last line, one CR before an LF dropped.\<close>

definition LF :: char where "LF = CHR 0x0A"
definition CR :: char where "CR = CHR 0x0D"
definition TAB :: char where "TAB = CHR 0x09"

definition strip_cr :: "string \<Rightarrow> string" where
  "strip_cr l = (case strip_suffix l [CR] of Some l' \<Rightarrow> l' | None \<Rightarrow> l)"

definition lines :: "string \<Rightarrow> string list" where
  "lines s =
     (let segs = split_on LF s in
      map strip_cr (butlast segs) @ (if last segs = [] then [] else [last segs]))"

text \<open>\<open>split_whitespace().next()\<close>.\<close>

fun take_word :: "string \<Rightarrow> string" where
  "take_word [] = []"
| "take_word (x # xs) = (if 0 < ws_len (x # xs) then [] else x # take_word xs)"

definition first_word :: "string \<Rightarrow> string option" where
  "first_word s = (let t = trim_start s in if t = [] then None else Some (take_word t))"

section \<open>ASCII case and decimal numbers\<close>

definition ascii_upper :: "char \<Rightarrow> char" where
  "ascii_upper c = (if CHR ''a'' \<le> c \<and> c \<le> CHR ''z'' then char_of (of_char c - 32 :: nat) else c)"

definition ascii_lower :: "char \<Rightarrow> char" where
  "ascii_lower c = (if CHR ''A'' \<le> c \<and> c \<le> CHR ''Z'' then char_of (of_char c + 32 :: nat) else c)"

definition is_digit :: "char \<Rightarrow> bool" where
  "is_digit c \<longleftrightarrow> CHR ''0'' \<le> c \<and> c \<le> CHR ''9''"

definition digit_val :: "char \<Rightarrow> nat" where
  "digit_val c = of_char c - 48"

definition decimal :: "string \<Rightarrow> nat" where
  "decimal ds = fold (\<lambda>d n. 10 * n + digit_val d) ds 0"

text \<open>\<open>str::parse\<close> to an unsigned integer with the given maximum: digits with an optional plus.\<close>

definition parse_uint :: "nat \<Rightarrow> string \<Rightarrow> nat option" where
  "parse_uint bound s =
     (let ds = (case s of c # cs \<Rightarrow> if c = CHR ''+'' then cs else s | [] \<Rightarrow> []) in
      if ds = [] \<or> \<not> list_all is_digit ds then None
      else if decimal ds \<le> bound then Some (decimal ds) else None)"

text \<open>
  \<open>str::parse::<Ipv4Addr>\<close>: at most 15 bytes, four decimal octets of at most three digits
  with no leading zero.
\<close>

definition parse_octet :: "string \<Rightarrow> nat option" where
  "parse_octet s =
     (if s \<noteq> [] \<and> length s \<le> 3 \<and> list_all is_digit s \<and> (hd s = CHR ''0'' \<longrightarrow> length s = 1) \<and>
         decimal s \<le> 255
      then Some (decimal s) else None)"

definition parse_ipv4 :: "string \<Rightarrow> u32 option" where
  "parse_ipv4 s =
     (if length s \<le> 15 then
        (case map parse_octet (split_on (CHR ''.'') s) of
           [Some a, Some b, Some c, Some d] \<Rightarrow>
             Some (word_of_nat (((a * 256 + b) * 256 + c) * 256 + d))
         | _ \<Rightarrow> None)
      else None)"

end
