(* ===== verification/Verdict_Store.thy ===== *)
theory Verdict_Store
  imports Verdict Backoff Text
begin

text \<open>
  The per-entry verdict memory (\<open>engine/src/engine/state/verdict_store.rs\<close>): the bounded cache of
  decisive verdicts by evidence fingerprint, the display policy, the baseline of the delta gate, the
  backoff of each entry and the global breaker. Every method runs under one lock, so it is a function
  on the store; a method that returns a value and changes the store returns both. The per-entry
  jitter seed hashes the key with the hasher of the standard library, a parameter.
\<close>

section \<open>The cache of one entry\<close>

type_synonym verdict_lru = "(string \<times> verdict) list"

fun position :: "('a \<Rightarrow> bool) \<Rightarrow> 'a list \<Rightarrow> nat option" where
  "position P [] = None"
| "position P (x # xs) = (if P x then Some 0 else map_option Suc (position P xs))"

definition lru_get :: "string \<Rightarrow> verdict_lru \<Rightarrow> verdict option \<times> verdict_lru" where
  "lru_get fp slots =
     (case position (\<lambda>(f, _). f = fp) slots of
        None \<Rightarrow> (None, slots)
      | Some pos \<Rightarrow>
          let hit = slots ! pos
          in (Some (snd hit), hit # (take pos slots @ drop (Suc pos) slots)))"

definition lru_insert :: "string \<Rightarrow> verdict \<Rightarrow> nat \<Rightarrow> verdict_lru \<Rightarrow> verdict_lru" where
  "lru_insert fp v cap slots =
     take (max cap 1) ((fp, v) # filter (\<lambda>(f, _). f \<noteq> fp) slots)"

section \<open>Capacity from the environment\<close>

definition DEFAULT_VERDICT_CACHE_SLOTS :: nat where
  "DEFAULT_VERDICT_CACHE_SLOTS = 32"

definition MIN_VERDICT_CACHE_SLOTS :: nat where
  "MIN_VERDICT_CACHE_SLOTS = 2"

text \<open>
  \<open>str::parse::<usize>\<close>: an optional plus sign and at least one decimal digit, failing when the value
  does not fit 64 bits.
\<close>

definition parse_usize :: "string \<Rightarrow> nat option" where
  "parse_usize s = parse_uint (2 ^ 64 - 1) s"

definition parse_verdict_cache_slots :: "string option \<Rightarrow> nat" where
  "parse_verdict_cache_slots raw =
     (case Option.bind raw (\<lambda>s. parse_usize (trim s)) of
        Some n \<Rightarrow> if n > 0 then max n MIN_VERDICT_CACHE_SLOTS else DEFAULT_VERDICT_CACHE_SLOTS
      | None \<Rightarrow> DEFAULT_VERDICT_CACHE_SLOTS)"

section \<open>The store\<close>

record verdict_baseline =
  vb_surface :: judged_surface
  vb_verdict :: verdict

record verdict_entry =
  ve_display :: "verdict option"
  ve_restored :: "string option"
  ve_cached :: verdict_lru
  ve_baseline :: "verdict_baseline option"
  ve_journaled :: "string option"
  ve_backoff :: entry_backoff
  first_seen :: "instant option"
  prev_posture :: "stored_posture option"
  last_delta :: "recency_delta option"
  restored_recency :: bool
  decisive_at :: "instant option"

definition entry_default :: verdict_entry where
  "entry_default =
     \<lparr>ve_display = None, ve_restored = None, ve_cached = [], ve_baseline = None, ve_journaled = None,
      ve_backoff = backoff_default, first_seen = None, prev_posture = None, last_delta = None,
      restored_recency = False, decisive_at = None\<rparr>"

definition entry_display_summary :: "verdict_entry \<Rightarrow> string option" where
  "entry_display_summary e =
     (case ve_display e of Some v \<Rightarrow> Some (verdict_summary v) | None \<Rightarrow> ve_restored e)"

definition saturating_since :: "instant \<Rightarrow> instant \<Rightarrow> int" where
  "saturating_since now at = max 0 (now - at)"

definition entry_recency_info :: "verdict_entry \<Rightarrow> instant \<Rightarrow> recency_info" where
  "entry_recency_info e now =
     \<lparr>ri_delta = (case last_delta e of Some d \<Rightarrow> d | None \<Rightarrow> Unchanged),
      age_secs =
        (if restored_recency e then None
         else map_option (\<lambda>fs. nat (saturating_since now fs div 10 ^ 9)) (first_seen e))\<rparr>"

record verdict_store =
  vs_entries :: "(string, verdict_entry) btree"
  vs_breaker :: circuit_breaker
  cache_slots :: nat

definition with_cache_slots :: "nat \<Rightarrow> verdict_store" where
  "with_cache_slots n =
     \<lparr>vs_entries = [], vs_breaker = breaker_default, cache_slots = max n MIN_VERDICT_CACHE_SLOTS\<rparr>"

definition vs_update :: "string \<Rightarrow> (verdict_entry \<Rightarrow> verdict_entry) \<Rightarrow> verdict_store \<Rightarrow> verdict_store" where
  "vs_update entry f st =
     (let e = (case bt_get (vs_entries st) entry of Some e \<Rightarrow> e | None \<Rightarrow> entry_default)
      in st\<lparr>vs_entries := bt_put entry (f e) (vs_entries st)\<rparr>)"

definition vs_display_summary :: "verdict_store \<Rightarrow> string \<Rightarrow> string option" where
  "vs_display_summary st entry = Option.bind (bt_get (vs_entries st) entry) entry_display_summary"

text \<open>\<open>Option::get_or_insert\<close>.\<close>

definition get_or_insert :: "'a option \<Rightarrow> 'a \<Rightarrow> 'a option" where
  "get_or_insert x d = (case x of Some y \<Rightarrow> Some y | None \<Rightarrow> Some d)"

definition seed_restored :: "string \<Rightarrow> string \<Rightarrow> instant \<Rightarrow> verdict_store \<Rightarrow> verdict_store" where
  "seed_restored entry words restored_at =
     vs_update entry
       (\<lambda>e. e\<lparr>ve_restored := Some words, restored_recency := True,
              first_seen := get_or_insert (first_seen e) restored_at,
              last_delta := get_or_insert (last_delta e) Restored,
              prev_posture := get_or_insert (prev_posture e) PAwaiting\<rparr>)"

definition recency_step :: "stored_posture \<Rightarrow> instant \<Rightarrow> verdict_entry \<Rightarrow> verdict_entry" where
  "recency_step posture now e =
     (let first = (first_seen e = None \<and> \<not> restored_recency e);
          e1 = e\<lparr>first_seen := get_or_insert (first_seen e) now\<rparr>
      in if first then e1\<lparr>last_delta := Some New, prev_posture := Some posture\<rparr>
         else if restored_recency e then
           e1\<lparr>restored_recency := False, last_delta := Some Restored, prev_posture := Some posture\<rparr>
         else
           e1\<lparr>last_delta :=
                Some (case prev_posture e of Some prev \<Rightarrow> delta_from prev posture | None \<Rightarrow> Unchanged),
              prev_posture := Some posture\<rparr>)"

definition record_recency :: "string \<Rightarrow> stored_posture \<Rightarrow> instant \<Rightarrow> verdict_store \<Rightarrow> verdict_store" where
  "record_recency entry posture now = vs_update entry (recency_step posture now)"

definition recency_for :: "verdict_store \<Rightarrow> string \<Rightarrow> instant \<Rightarrow> recency_info option" where
  "recency_for st entry now = map_option (\<lambda>e. entry_recency_info e now) (bt_get (vs_entries st) entry)"

definition cached_for :: "string \<Rightarrow> string \<Rightarrow> verdict_store \<Rightarrow> verdict option \<times> verdict_store" where
  "cached_for entry fp st =
     (case bt_get (vs_entries st) entry of
        None \<Rightarrow> (None, st)
      | Some e \<Rightarrow>
          (case lru_get fp (ve_cached e) of
             (v, slots) \<Rightarrow> (v, st\<lparr>vs_entries := bt_put entry (e\<lparr>ve_cached := slots\<rparr>) (vs_entries st)\<rparr>)))"

definition cache_decisive :: "string \<Rightarrow> string \<Rightarrow> verdict \<Rightarrow> verdict_store \<Rightarrow> verdict_store" where
  "cache_decisive entry fp v st =
     vs_update entry (\<lambda>e. e\<lparr>ve_cached := lru_insert fp v (cache_slots st) (ve_cached e)\<rparr>) st"

definition baseline_for :: "verdict_store \<Rightarrow> string \<Rightarrow> verdict_baseline option" where
  "baseline_for st entry = Option.bind (bt_get (vs_entries st) entry) ve_baseline"

definition set_baseline :: "string \<Rightarrow> judged_surface \<Rightarrow> verdict \<Rightarrow> verdict_store \<Rightarrow> verdict_store" where
  "set_baseline entry surface v =
     vs_update entry (\<lambda>e. e\<lparr>ve_baseline := Some \<lparr>vb_surface = surface, vb_verdict = v\<rparr>\<rparr>)"

definition entry_backing_off :: "verdict_store \<Rightarrow> string \<Rightarrow> instant \<Rightarrow> bool" where
  "entry_backing_off st entry now =
     (case bt_get (vs_entries st) entry of Some e \<Rightarrow> is_backing_off (ve_backoff e) now | None \<Rightarrow> False)"

definition breaker_open :: "verdict_store \<Rightarrow> instant \<Rightarrow> bool" where
  "breaker_open st now = is_open (vs_breaker st) now"

definition record_inconclusive ::
  "(string \<Rightarrow> u64) \<Rightarrow> string \<Rightarrow> instant \<Rightarrow> verdict_store \<Rightarrow> verdict_store option" where
  "record_inconclusive jitter_seed entry now st =
     (let e = (case bt_get (vs_entries st) entry of Some e \<Rightarrow> e | None \<Rightarrow> entry_default)
      in do {
           b \<leftarrow> backoff_failure now (jitter_seed entry) (ve_backoff e);
           Some ((vs_update entry (\<lambda>e. e\<lparr>ve_backoff := b\<rparr>) st)
                   \<lparr>vs_breaker := breaker_failure now (vs_breaker st)\<rparr>)
         })"

definition record_decisive :: "string \<Rightarrow> instant \<Rightarrow> verdict_store \<Rightarrow> verdict_store" where
  "record_decisive entry now st =
     (vs_update entry
        (\<lambda>e. e\<lparr>ve_backoff := backoff_success (ve_backoff e), decisive_at := Some now\<rparr>) st)
       \<lparr>vs_breaker := breaker_success (vs_breaker st)\<rparr>"

definition verdict_fresh :: "verdict_store \<Rightarrow> string \<Rightarrow> instant \<Rightarrow> nat \<Rightarrow> bool" where
  "verdict_fresh st entry now max_age =
     (if breaker_open st now then False
      else (case Option.bind (bt_get (vs_entries st) entry) decisive_at of
              Some at \<Rightarrow> saturating_since now at \<le> int max_age
            | None \<Rightarrow> False))"

definition display_verdict :: "verdict_store \<Rightarrow> string \<Rightarrow> verdict option" where
  "display_verdict st entry = Option.bind (bt_get (vs_entries st) entry) ve_display"

definition set_display :: "string \<Rightarrow> verdict \<Rightarrow> verdict_store \<Rightarrow> verdict_store" where
  "set_display entry v = vs_update entry (\<lambda>e. e\<lparr>ve_display := Some v, ve_restored := None\<rparr>)"

definition display_step :: "verdict \<Rightarrow> verdict_entry \<Rightarrow> verdict_entry" where
  "display_step this_pass e =
     (let carry_forward =
        (case this_pass of Unsure _ \<Rightarrow>
           (case ve_display e of Some prior \<Rightarrow> (case prior of Unsure _ \<Rightarrow> False | _ \<Rightarrow> True)
            | None \<Rightarrow> False)
         | _ \<Rightarrow> False)
      in if \<not> carry_forward then e\<lparr>ve_display := Some this_pass, ve_restored := None\<rparr> else e)"

definition resolve_display :: "string \<Rightarrow> verdict \<Rightarrow> verdict_store \<Rightarrow> verdict option \<times> verdict_store" where
  "resolve_display entry this_pass st =
     (let st' = vs_update entry (display_step this_pass) st in (display_verdict st' entry, st'))"

definition journaled :: "verdict_store \<Rightarrow> string \<Rightarrow> string option" where
  "journaled st entry = Option.bind (bt_get (vs_entries st) entry) ve_journaled"

definition set_journaled :: "string \<Rightarrow> string \<Rightarrow> verdict_store \<Rightarrow> verdict_store" where
  "set_journaled entry words = vs_update entry (\<lambda>e. e\<lparr>ve_journaled := Some words\<rparr>)"

definition retain_present :: "string set \<Rightarrow> verdict_store \<Rightarrow> verdict_store" where
  "retain_present present st =
     st\<lparr>vs_entries := filter (\<lambda>(entry, _). entry \<in> present) (vs_entries st)\<rparr>"

section \<open>Facts about the cache\<close>

text \<open>What the cache holds for a fingerprint.\<close>

abbreviation lru_lookup :: "verdict_lru \<Rightarrow> string \<Rightarrow> verdict option" where
  "lru_lookup slots fp \<equiv> map_of slots fp"

abbreviation lru_keys :: "verdict_lru \<Rightarrow> string list" where
  "lru_keys slots \<equiv> map fst slots"

lemma position_None: "position P xs = None \<longleftrightarrow> (\<forall>x\<in>set xs. \<not> P x)"
  by (induction xs) auto

lemma position_Some:
  "position P xs = Some i \<Longrightarrow> i < length xs \<and> P (xs ! i) \<and> (\<forall>j<i. \<not> P (xs ! j))"
proof (induction xs arbitrary: i)
  case Nil
  then show ?case by simp
next
  case (Cons x xs)
  then show ?case by (auto split: if_splits simp: less_Suc_eq_0_disj)
qed

lemma lru_get_miss: "fp \<notin> set (lru_keys slots) \<Longrightarrow> lru_get fp slots = (None, slots)"
proof -
  assume "fp \<notin> set (lru_keys slots)"
  then have "position (\<lambda>(f, _). f = fp) slots = None" by (force simp: position_None)
  then show ?thesis by (simp add: lru_get_def)
qed

lemma lru_get_hit:
  assumes slots: "slots = pre @ (fp, v) # post" and "fp \<notin> set (lru_keys pre)"
  shows "lru_get fp slots = (Some v, (fp, v) # pre @ post)"
proof -
  have "position (\<lambda>(f, _). f = fp) slots = Some (length pre)"
    using assms(2) unfolding slots by (induction pre) auto
  then show ?thesis by (simp add: lru_get_def Let_def slots)
qed

lemma lru_split:
  assumes "lru_lookup slots fp = Some v"
  shows "\<exists>pre post. slots = pre @ (fp, v) # post \<and> fp \<notin> set (lru_keys pre)"
  using assms
proof (induction slots)
  case Nil
  then show ?case by simp
next
  case (Cons e slots)
  show ?case
  proof (cases "fst e = fp")
    case True
    with Cons.prems have "e # slots = [] @ (fp, v) # slots" by (cases e) auto
    then show ?thesis by (metis empty_iff empty_set list.simps(8))
  next
    case False
    with Cons.prems have "lru_lookup slots fp = Some v" by (cases e) auto
    with Cons.IH obtain pre post where "slots = pre @ (fp, v) # post" "fp \<notin> set (lru_keys pre)"
      by blast
    with False have "e # slots = (e # pre) @ (fp, v) # post" "fp \<notin> set (lru_keys (e # pre))" by auto
    then show ?thesis by blast
  qed
qed

lemma lru_get_value: "fst (lru_get fp slots) = lru_lookup slots fp"
proof (cases "lru_lookup slots fp")
  case None
  then have "fp \<notin> set (lru_keys slots)" by (simp add: map_of_eq_None_iff image_iff)
  with None show ?thesis by (simp add: lru_get_miss)
next
  case (Some v)
  with lru_split obtain pre post where "slots = pre @ (fp, v) # post" "fp \<notin> set (lru_keys pre)"
    by blast
  with Some show ?thesis by (simp add: lru_get_hit)
qed

definition lru_ok :: "nat \<Rightarrow> verdict_lru \<Rightarrow> bool" where
  "lru_ok cap slots \<longleftrightarrow>
     distinct (lru_keys slots) \<and> length slots \<le> max cap 1 \<and> (\<forall>(_, v)\<in>set slots. decisive v)"

lemma lru_ok_Nil [simp]: "lru_ok cap []"
  by (simp add: lru_ok_def)

lemma lru_get_ok: "lru_ok cap slots \<Longrightarrow> lru_ok cap (snd (lru_get fp slots))"
proof (cases "lru_lookup slots fp")
  case None
  assume "lru_ok cap slots"
  with None show ?thesis by (simp add: lru_get_miss map_of_eq_None_iff)
next
  case (Some v)
  assume ok: "lru_ok cap slots"
  from Some lru_split obtain pre post where
    "slots = pre @ (fp, v) # post" "fp \<notin> set (lru_keys pre)"
    by blast
  with ok show ?thesis by (auto simp: lru_get_hit lru_ok_def)
qed

lemma lru_insert_ok:
  assumes "lru_ok cap slots" and "decisive v"
  shows "lru_ok cap (lru_insert fp v cap slots)"
proof -
  have "distinct (lru_keys (filter (\<lambda>(f, _). f \<noteq> fp) slots))"
    using assms(1) by (simp add: lru_ok_def distinct_map_filter)
  then have "distinct (lru_keys ((fp, v) # filter (\<lambda>(f, _). f \<noteq> fp) slots))" by auto
  then have "distinct (lru_keys (lru_insert fp v cap slots))"
    unfolding lru_insert_def take_map [symmetric] by (rule distinct_take)
  moreover have "length (lru_insert fp v cap slots) \<le> max cap 1" by (simp add: lru_insert_def)
  moreover have "decisive w" if "(f, w) \<in> set (lru_insert fp v cap slots)" for f w
  proof -
    have "(f, w) \<in> set ((fp, v) # filter (\<lambda>(f, _). f \<noteq> fp) slots)"
      using that unfolding lru_insert_def by (rule in_set_takeD)
    with assms show ?thesis by (auto simp: lru_ok_def)
  qed
  ultimately show ?thesis by (auto simp: lru_ok_def)
qed

lemma lru_insert_lookup: "lru_lookup (lru_insert fp v cap slots) fp = Some v"
  by (cases "max cap 1") (auto simp: lru_insert_def)

subsection \<open>Retention\<close>

text \<open>The operations of the re-judge gate on one cache: a lookup or an insert of a fingerprint.\<close>

datatype lru_op = LGet string | LPut string verdict

fun lru_apply :: "nat \<Rightarrow> lru_op \<Rightarrow> verdict_lru \<Rightarrow> verdict_lru" where
  "lru_apply cap (LGet fp) slots = snd (lru_get fp slots)"
| "lru_apply cap (LPut fp v) slots = lru_insert fp v cap slots"

fun op_key :: "lru_op \<Rightarrow> string" where
  "op_key (LGet fp) = fp"
| "op_key (LPut fp v) = fp"

fun puts :: "string \<Rightarrow> lru_op \<Rightarrow> bool" where
  "puts fp (LPut f v) = (f = fp)"
| "puts fp (LGet f) = False"

text \<open>The fingerprints used more recently than a given one.\<close>

definition ahead :: "string \<Rightarrow> verdict_lru \<Rightarrow> string list" where
  "ahead fp slots = takeWhile (\<lambda>k. k \<noteq> fp) (lru_keys slots)"

definition bump :: "string \<Rightarrow> verdict \<Rightarrow> verdict_lru \<Rightarrow> verdict_lru" where
  "bump g w slots = (g, w) # filter (\<lambda>(f, _). f \<noteq> g) slots"

lemma filter_keys: "lru_keys (filter (\<lambda>(f, _). f \<noteq> g) slots) = filter (\<lambda>k. k \<noteq> g) (lru_keys slots)"
  by (induction slots) auto

lemma lru_get_bump:
  assumes "distinct (lru_keys slots)" and "lru_lookup slots g = Some w"
  shows "snd (lru_get g slots) = bump g w slots"
proof -
  obtain pre post where s: "slots = pre @ (g, w) # post" "g \<notin> set (lru_keys pre)"
    using lru_split [OF assms(2)] by blast
  have "g \<notin> set (lru_keys post)" using assms(1) s by auto
  moreover have "filter (\<lambda>(f, _). f \<noteq> g) xs = xs" if "g \<notin> set (lru_keys xs)" for xs :: verdict_lru
    using that by (induction xs) auto
  ultimately have "filter (\<lambda>(f, _). f \<noteq> g) slots = pre @ post" using s by simp
  then show ?thesis using s by (simp add: lru_get_hit bump_def)
qed

lemma lru_insert_bump: "lru_insert g w cap slots = take (max cap 1) (bump g w slots)"
  by (simp add: lru_insert_def bump_def)

lemma bump_lookup: "fp \<noteq> g \<Longrightarrow> lru_lookup (bump g w slots) fp = lru_lookup slots fp"
  unfolding bump_def by (induction slots) auto

lemma bump_distinct: "distinct (lru_keys slots) \<Longrightarrow> distinct (lru_keys (bump g w slots))"
  by (simp add: bump_def filter_keys)

lemma takeWhile_filter_commute:
  "g \<noteq> fp \<Longrightarrow> takeWhile (\<lambda>k. k \<noteq> fp) (filter (\<lambda>k. k \<noteq> g) ks) = filter (\<lambda>k. k \<noteq> g) (takeWhile (\<lambda>k. k \<noteq> fp) ks)"
  by (induction ks) auto

lemma bump_ahead: "set (ahead fp (bump g w slots)) \<subseteq> insert g (set (ahead fp slots)) - {fp}"
proof (cases "g = fp")
  case True
  then show ?thesis by (simp add: ahead_def bump_def)
next
  case False
  then show ?thesis
    by (auto simp: ahead_def bump_def filter_keys takeWhile_filter_commute dest: set_takeWhileD)
qed

lemma take_lookup:
  "length (ahead fp slots) < n \<Longrightarrow> lru_lookup (take n slots) fp = lru_lookup slots fp"
proof (induction slots arbitrary: n)
  case Nil
  then show ?case by simp
next
  case (Cons e slots)
  then show ?case by (cases n) (auto simp: ahead_def split: if_splits)
qed

lemma take_ahead: "set (ahead fp (take n slots)) \<subseteq> set (ahead fp slots)"
proof (induction slots arbitrary: n)
  case Nil
  then show ?case by (simp add: ahead_def)
next
  case (Cons e slots)
  then show ?case by (cases n) (auto simp: ahead_def)
qed

lemma ahead_distinct: "distinct (lru_keys slots) \<Longrightarrow> distinct (ahead fp slots)"
  by (simp add: ahead_def distinct_takeWhile)

text \<open>A fingerprint is held while the others used since its last use number less than the capacity.\<close>

definition held :: "string \<Rightarrow> verdict \<Rightarrow> string set \<Rightarrow> verdict_lru \<Rightarrow> bool" where
  "held fp v used slots \<longleftrightarrow>
     distinct (lru_keys slots) \<and> lru_lookup slots fp = Some v \<and> set (ahead fp slots) \<subseteq> used - {fp}"

lemma held_bump:
  assumes "held fp v used slots" and "g = fp \<Longrightarrow> w = v"
  shows "held fp v (insert g used) (bump g w slots)"
proof -
  have "lru_lookup (bump g w slots) fp = Some v"
    using assms by (cases "g = fp") (auto simp: held_def bump_lookup, simp add: bump_def)
  moreover have "set (ahead fp (bump g w slots)) \<subseteq> insert g used - {fp}"
    using bump_ahead [of fp g w slots] assms(1) by (auto simp: held_def)
  ultimately show ?thesis using assms(1) by (simp add: held_def bump_distinct)
qed

lemma held_take:
  assumes "held fp v used slots" and "finite used" and "card (used - {fp}) < n"
  shows "held fp v used (take n slots)"
proof -
  have "length (ahead fp slots) = card (set (ahead fp slots))"
    using assms(1) by (simp add: held_def ahead_distinct distinct_card)
  also have "\<dots> \<le> card (used - {fp})"
    using assms by (intro card_mono) (auto simp: held_def)
  finally have "length (ahead fp slots) < n" using assms(3) by simp
  then have "lru_lookup (take n slots) fp = Some v" using assms(1) by (simp add: take_lookup held_def)
  moreover have "set (ahead fp (take n slots)) \<subseteq> used - {fp}"
    using assms(1) take_ahead [of fp n slots] by (auto simp: held_def)
  moreover have "distinct (lru_keys (take n slots))"
    using assms(1) by (simp add: held_def take_map [symmetric])
  ultimately show ?thesis by (simp add: held_def)
qed

lemma held_step:
  assumes "held fp v used slots" and "\<not> puts fp op"
    and "finite used" and "card (insert (op_key op) used - {fp}) < max cap 1"
  shows "held fp v (insert (op_key op) used) (lru_apply cap op slots)"
proof (cases op)
  case (LGet g)
  show ?thesis
  proof (cases "lru_lookup slots g")
    case None
    then have "g \<notin> set (lru_keys slots)" by (simp add: map_of_eq_None_iff)
    then show ?thesis using assms(1) LGet by (auto simp: lru_get_miss held_def)
  next
    case (Some w)
    then have "g = fp \<Longrightarrow> w = v" using assms(1) by (simp add: held_def)
    with held_bump [OF assms(1)] Some assms(1) LGet show ?thesis
      by (simp add: lru_get_bump held_def)
  qed
next
  case (LPut g w)
  then have "g \<noteq> fp" using assms(2) by simp
  then have "held fp v (insert g used) (bump g w slots)" using held_bump [OF assms(1)] by blast
  with held_take assms(3,4) LPut show ?thesis by (simp add: lru_insert_bump)
qed

lemma held_run:
  assumes "held fp v used slots" and "finite used"
    and "\<And>op. op \<in> set ops \<Longrightarrow> \<not> puts fp op"
    and "card (op_key ` set ops \<union> used - {fp}) < max cap 1"
  shows "lru_lookup (fold (lru_apply cap) ops slots) fp = Some v"
  using assms
proof (induction ops arbitrary: used slots)
  case Nil
  then show ?case by (simp add: held_def)
next
  case (Cons op ops)
  have "card (insert (op_key op) used - {fp}) \<le> card (op_key ` set (op # ops) \<union> used - {fp})"
    using Cons.prems(2) by (intro card_mono) auto
  with Cons.prems have step: "held fp v (insert (op_key op) used) (lru_apply cap op slots)"
    by (intro held_step) auto
  have "op_key ` set ops \<union> insert (op_key op) used - {fp} = op_key ` set (op # ops) \<union> used - {fp}"
    by auto
  with Cons.IH [OF step] Cons.prems show ?case by simp
qed

lemma held_fresh: "distinct (lru_keys slots) \<Longrightarrow> held fp v {} (lru_insert fp v cap slots)"
  using bump_distinct [of slots fp v]
  by (simp add: held_def lru_insert_bump lru_insert_lookup [unfolded lru_insert_bump] take_map [symmetric])
     (simp add: ahead_def bump_def take_Cons')

section \<open>Facts about the store\<close>

definition store_ok :: "verdict_store \<Rightarrow> bool" where
  "store_ok st \<longleftrightarrow>
     bt_ok (vs_entries st) \<and> MIN_VERDICT_CACHE_SLOTS \<le> cache_slots st \<and>
     (\<forall>k e. bt_get (vs_entries st) k = Some e \<longrightarrow>
        lru_ok (cache_slots st) (ve_cached e) \<and>
        (\<forall>b. ve_baseline e = Some b \<longrightarrow> decisive (vb_verdict b)))"

definition entry_of :: "verdict_store \<Rightarrow> string \<Rightarrow> verdict_entry" where
  "entry_of st entry = (case bt_get (vs_entries st) entry of Some e \<Rightarrow> e | None \<Rightarrow> entry_default)"

lemma vs_update_get:
  "bt_ok (vs_entries st) \<Longrightarrow>
     bt_get (vs_entries (vs_update k f st)) k' =
       (if k' = k then Some (f (entry_of st k)) else bt_get (vs_entries st) k')"
  by (simp add: vs_update_def entry_of_def Let_def bt_get_put)

lemma vs_update_frame [simp]:
  "vs_breaker (vs_update k f st) = vs_breaker st" "cache_slots (vs_update k f st) = cache_slots st"
  by (simp_all add: vs_update_def Let_def)

lemma vs_update_bt_ok: "bt_ok (vs_entries st) \<Longrightarrow> bt_ok (vs_entries (vs_update k f st))"
  by (simp add: vs_update_def Let_def)

lemma entry_of_default: "lru_ok n (ve_cached entry_default)" "ve_baseline entry_default = None"
  by (simp_all add: entry_default_def)

text \<open>An update that keeps the cache lawful and the baseline decisive keeps the store lawful.\<close>

lemma store_ok_update:
  assumes "store_ok st"
    and "\<And>e. lru_ok (cache_slots st) (ve_cached e) \<Longrightarrow> lru_ok (cache_slots st) (ve_cached (f e))"
    and "\<And>e b. (\<And>b. ve_baseline e = Some b \<Longrightarrow> decisive (vb_verdict b)) \<Longrightarrow>
      ve_baseline (f e) = Some b \<Longrightarrow> decisive (vb_verdict b)"
  shows "store_ok (vs_update k f st)"
proof -
  have bt: "bt_ok (vs_entries st)" using assms(1) by (simp add: store_ok_def)
  have e: "lru_ok (cache_slots st) (ve_cached (entry_of st k))"
    "\<And>b. ve_baseline (entry_of st k) = Some b \<Longrightarrow> decisive (vb_verdict b)"
    using assms(1) by (auto simp: store_ok_def entry_of_def entry_of_default split: option.splits)
  show ?thesis
    using assms(1) assms(2) [OF e(1)] assms(3) [OF e(2)] vs_update_bt_ok [OF bt]
    by (simp add: store_ok_def vs_update_get [OF bt])
qed

lemma store_ok_ops:
  assumes "store_ok st"
  shows "store_ok (set_display k v st)" "store_ok (set_journaled k w st)"
    "store_ok (seed_restored k w t st)" "store_ok (record_recency k p t st)"
    "store_ok (record_decisive k t st)" "store_ok (snd (resolve_display k v st))"
    "decisive v \<Longrightarrow> store_ok (cache_decisive k fp v st)"
    "decisive v \<Longrightarrow> store_ok (set_baseline k surface v st)"
proof -
  note up = store_ok_update [OF assms]
  show "store_ok (set_display k v st)" "store_ok (set_journaled k w st)"
    "store_ok (seed_restored k w t st)"
    unfolding set_display_def set_journaled_def seed_restored_def by (rule up; simp)+
  show "store_ok (record_recency k p t st)"
    unfolding record_recency_def by (rule up) (auto simp: recency_step_def Let_def split: if_splits)
  show "store_ok (snd (resolve_display k v st))"
    unfolding resolve_display_def Let_def snd_conv
    by (rule up) (auto simp: display_step_def Let_def split: if_splits)
  have "store_ok (vs_update k (\<lambda>e. e\<lparr>ve_backoff := backoff_success (ve_backoff e), decisive_at := Some t\<rparr>) st)"
    by (rule up) simp_all
  then show "store_ok (record_decisive k t st)" by (simp add: record_decisive_def store_ok_def)
  show "store_ok (cache_decisive k fp v st)" if "decisive v"
    unfolding cache_decisive_def by (rule up) (simp_all add: lru_insert_ok that)
  show "store_ok (set_baseline k surface v st)" if "decisive v"
    unfolding set_baseline_def by (rule up) (auto simp: that)
qed

lemma cached_for_store_ok:
  assumes "store_ok st"
  shows "store_ok (snd (cached_for k fp st))"
proof (cases "bt_get (vs_entries st) k")
  case None
  then show ?thesis using assms by (simp add: cached_for_def)
next
  case (Some e)
  then have "snd (cached_for k fp st) = vs_update k (\<lambda>e. e\<lparr>ve_cached := snd (lru_get fp (ve_cached e))\<rparr>) st"
    by (simp add: cached_for_def vs_update_def Let_def split: prod.split)
  moreover have "store_ok (vs_update k (\<lambda>e. e\<lparr>ve_cached := snd (lru_get fp (ve_cached e))\<rparr>) st)"
    using assms by (rule store_ok_update) (simp_all add: lru_get_ok)
  ultimately show ?thesis by simp
qed

lemma cached_for_decisive:
  assumes "store_ok st" and "fst (cached_for k fp st) = Some v"
  shows "decisive v"
proof -
  obtain e where e: "bt_get (vs_entries st) k = Some e" "lru_lookup (ve_cached e) fp = Some v"
    using assms(2) lru_get_value [of fp]
    by (auto simp: cached_for_def split: option.splits prod.splits)
       (metis fst_conv)
  then have "(fp, v) \<in> set (ve_cached e)" by (simp add: map_of_SomeD)
  moreover have "lru_ok (cache_slots st) (ve_cached e)" using assms(1) e(1) by (simp add: store_ok_def)
  ultimately show ?thesis by (auto simp: lru_ok_def)
qed

lemma with_cache_slots_ok: "store_ok (with_cache_slots n)"
  by (simp add: store_ok_def with_cache_slots_def bt_get_def)

lemma retain_present_ok: "store_ok st \<Longrightarrow> store_ok (retain_present present st)"
proof -
  assume ok: "store_ok st"
  then have bt: "bt_ok (vs_entries st)" by (simp add: store_ok_def)
  have "sorted_wrt (<) (map fst (filter P (vs_entries st)))" for P
    using bt sorted_wrt_filter [of "\<lambda>a b. fst a < fst b" "vs_entries st" P]
    by (simp add: bt_ok_def sorted_wrt_map)
  then have bt': "bt_ok (vs_entries (retain_present present st))"
    by (simp add: retain_present_def bt_ok_def)
  have "bt_get (vs_entries st) k = Some e" if "bt_get (vs_entries (retain_present present st)) k = Some e" for k e
    using that bt bt' by (auto simp: bt_entries [symmetric] retain_present_def)
  moreover have "cache_slots (retain_present present st) = cache_slots st"
    by (simp add: retain_present_def)
  ultimately show ?thesis using ok bt' unfolding store_ok_def by metis
qed

subsection \<open>The display policy over a run\<close>

definition shown :: "verdict list \<Rightarrow> verdict option" where
  "shown vs =
     (case filter decisive vs of [] \<Rightarrow> (case vs of [] \<Rightarrow> None | _ \<Rightarrow> Some (last vs)) | ds \<Rightarrow> Some (last ds))"

lemma shown_snoc:
  "shown (vs @ [v]) =
     (if decisive v then Some v
      else (case shown vs of Some p \<Rightarrow> if decisive p then Some p else Some v | None \<Rightarrow> Some v))"
proof (cases "filter decisive vs")
  case Nil
  then have none: "\<not> decisive x" if "x \<in> set vs" for x using that by (simp add: filter_empty_conv)
  show ?thesis
  proof (cases "vs = []")
    case True
    then show ?thesis by (simp add: shown_def)
  next
    case False
    then have "\<not> decisive (last vs)" using none last_in_set by blast
    then show ?thesis using Nil False by (auto simp: shown_def split: list.split)
  qed
next
  case (Cons d ds)
  have "last (d # ds) \<in> set (filter decisive vs)" unfolding Cons by (rule last_in_set) simp
  then have "decisive (last (d # ds))" by simp
  then show ?thesis using Cons by (auto simp: shown_def)
qed

lemma display_step_display:
  "ve_display (display_step v e) =
     (if decisive v then Some v
      else (case ve_display e of Some p \<Rightarrow> if decisive p then Some p else Some v | None \<Rightarrow> Some v))"
  by (cases v) (auto simp: display_step_def Let_def split: option.splits verdict.splits)

lemma resolve_display_display:
  "bt_ok (vs_entries st) \<Longrightarrow>
     fst (resolve_display k v st) =
       (if decisive v then Some v
        else (case display_verdict st k of Some p \<Rightarrow> if decisive p then Some p else Some v | None \<Rightarrow> Some v)) \<and>
     display_verdict (snd (resolve_display k v st)) k = fst (resolve_display k v st)"
  by (simp add: resolve_display_def Let_def display_verdict_def vs_update_get display_step_display)
     (simp add: entry_of_def entry_default_def split: option.split)

lemma resolve_display_bt_ok:
  "bt_ok (vs_entries st) \<Longrightarrow> bt_ok (vs_entries (snd (resolve_display k v st)))"
  by (simp add: resolve_display_def Let_def vs_update_bt_ok)

lemma display_over_run:
  assumes "bt_ok (vs_entries st)" and "display_verdict st k = None"
  shows "bt_ok (vs_entries (fold (\<lambda>v st. snd (resolve_display k v st)) vs st)) \<and>
    display_verdict (fold (\<lambda>v st. snd (resolve_display k v st)) vs st) k = shown vs"
proof (induction vs rule: rev_induct)
  case Nil
  then show ?case using assms by (simp add: shown_def)
next
  case (snoc v vs)
  then show ?case
    using resolve_display_display [of "fold (\<lambda>v st. snd (resolve_display k v st)) vs st" k v]
    by (simp add: resolve_display_bt_ok shown_snoc)
qed

subsection \<open>Freshness over a history of calls\<close>

text \<open>The model calls of a run, the latest first: the entry, whether it was decisive, and when.\<close>

fun calls_after :: "(string \<Rightarrow> u64) \<Rightarrow> verdict_store \<Rightarrow> (string \<times> bool \<times> instant) list \<Rightarrow> verdict_store option" where
  "calls_after js st [] = Some st"
| "calls_after js st ((k, d, t) # h) =
     do { st' \<leftarrow> calls_after js st h;
          if d then Some (record_decisive k t st') else record_inconclusive js k t st' }"

definition last_decisive :: "string \<Rightarrow> (string \<times> bool \<times> instant) list \<Rightarrow> instant option" where
  "last_decisive k h = map_option (\<lambda>(_, _, t). t) (find (\<lambda>(k', d, _). k' = k \<and> d) h)"

definition outcomes :: "(string \<times> bool \<times> instant) list \<Rightarrow> (bool \<times> instant) list" where
  "outcomes h = map snd h"

lemma record_inconclusive_total:
  assumes "bt_ok (vs_entries st)"
  shows "\<exists>st'. record_inconclusive js k t st = Some st' \<and> bt_ok (vs_entries st') \<and>
    vs_breaker st' = breaker_failure t (vs_breaker st) \<and>
    (\<forall>k'. decisive_at (entry_of st' k') = decisive_at (entry_of st k'))"
proof -
  obtain d where b: "backoff_failure t (js k) (ve_backoff (entry_of st k)) =
      Some \<lparr>failures = saturating_inc (failures (ve_backoff (entry_of st k))), next_retry_at = Some (t + int d)\<rparr>"
    using backoff_failure_total by blast
  show ?thesis
    using b assms unfolding record_inconclusive_def entry_of_def [symmetric] Let_def
    by (simp add: vs_update_bt_ok entry_of_def vs_update_get)
qed

lemma calls_after_state:
  "\<exists>st. calls_after js (with_cache_slots n) h = Some st \<and> bt_ok (vs_entries st) \<and>
     vs_breaker st = breaker_after (outcomes h) \<and>
     (\<forall>k. decisive_at (entry_of st k) = last_decisive k h)"
proof (induction h)
  case Nil
  then show ?case
    by (simp add: with_cache_slots_def outcomes_def last_decisive_def entry_of_def bt_get_def
        entry_default_def)
next
  case (Cons c h)
  obtain k d t where c: "c = (k, d, t)" by (cases c)
  obtain st where st: "calls_after js (with_cache_slots n) h = Some st" "bt_ok (vs_entries st)"
    "vs_breaker st = breaker_after (outcomes h)" "\<forall>k. decisive_at (entry_of st k) = last_decisive k h"
    using Cons.IH by blast
  show ?case
  proof (cases d)
    case True
    then show ?thesis
      using st by (auto simp: c record_decisive_def vs_update_bt_ok outcomes_def last_decisive_def
          entry_of_def vs_update_get)
  next
    case False
    then show ?thesis
      using st record_inconclusive_total [OF st(2), of js k t]
      by (auto simp: c outcomes_def last_decisive_def)
  qed
qed

lemma verdict_fresh_iff:
  "verdict_fresh st k now age \<longleftrightarrow>
     \<not> breaker_open st now \<and>
     (\<exists>at. decisive_at (entry_of st k) = Some at \<and> now - at \<le> int age)"
  by (auto simp: verdict_fresh_def entry_of_def entry_default_def saturating_since_def
      split: option.splits)

end
