(* ===== verification/Adj_Gate.thy ===== *)
theory Adj_Gate
  imports Verdict_Store
begin

text \<open>
  The re-judge gate (\<open>engine/src/engine/adj_gate.rs\<close>): what to do with one breach-relevant entry this
  pass, decided from the verdict store without calling the model. A lookup reorders the cache and a
  hold warms it, so the gate returns the store as well. Of the pending record it reads the entry key
  and the fingerprint.
\<close>

datatype adj_gate = Resolved verdict bool | Skipped verdict | Judge

definition must_reverify :: "verdict \<Rightarrow> bool" where
  "must_reverify v = (case v of Exploitable _ \<Rightarrow> True | _ \<Rightarrow> False)"

definition gate_after_hold :: "string \<Rightarrow> instant \<Rightarrow> verdict_store \<Rightarrow> adj_gate" where
  "gate_after_hold entry now st =
     (if breaker_open st now then Skipped (Unsure ''model unavailable (breaker open)'')
      else if entry_backing_off st entry now then Skipped (Unsure ''model unavailable (backing off)'')
      else Judge)"

definition gate_after_miss ::
  "string \<Rightarrow> string \<Rightarrow> bool \<Rightarrow> verdict_baseline option \<Rightarrow> instant \<Rightarrow> verdict_store \<Rightarrow>
   adj_gate \<times> verdict_store" where
  "gate_after_miss entry fp additive baseline now st =
     (if additive then (gate_after_hold entry now st, st)
      else
        (case baseline of
           Some b \<Rightarrow>
             if \<not> must_reverify (vb_verdict b)
             then (Resolved (vb_verdict b) True, cache_decisive entry fp (vb_verdict b) st)
             else (gate_after_hold entry now st, st)
         | None \<Rightarrow> (gate_after_hold entry now st, st)))"

definition classify_adjudication ::
  "string \<Rightarrow> string \<Rightarrow> bool \<Rightarrow> verdict_baseline option \<Rightarrow> instant \<Rightarrow> verdict_store \<Rightarrow>
   adj_gate \<times> verdict_store" where
  "classify_adjudication entry fp additive baseline now st =
     (case cached_for entry fp st of
        (hit, st1) \<Rightarrow>
          (case hit of
             Some v \<Rightarrow>
               if \<not> must_reverify v then (Resolved v False, st1)
               else gate_after_miss entry fp additive baseline now st1
           | None \<Rightarrow> gate_after_miss entry fp additive baseline now st1))"

section \<open>Facts about the gate\<close>

lemma gate_after_hold_not_resolved [simp]: "gate_after_hold entry now st \<noteq> Resolved v h"
  by (simp add: gate_after_hold_def)

lemma miss_resolved:
  assumes "fst (gate_after_miss entry fp additive baseline now st) = Resolved v h"
  shows "h \<and> \<not> must_reverify v \<and> \<not> additive \<and> (\<exists>b. baseline = Some b \<and> v = vb_verdict b)"
  using assms by (auto simp: gate_after_miss_def split: option.splits if_splits)

lemma resolved_cases:
  assumes "fst (classify_adjudication entry fp additive baseline now st) = Resolved v h"
  shows "\<not> must_reverify v \<and>
    (\<not> h \<and> fst (cached_for entry fp st) = Some v \<or>
     h \<and> \<not> additive \<and> (\<exists>b. baseline = Some b \<and> v = vb_verdict b))"
  using assms miss_resolved [of entry fp additive baseline now "snd (cached_for entry fp st)" v h]
  by (auto simp: classify_adjudication_def split: option.splits if_splits prod.splits)

lemma miss_store:
  "snd (gate_after_miss entry fp additive baseline now st) = st \<or>
   (\<exists>b. baseline = Some b \<and>
      snd (gate_after_miss entry fp additive baseline now st) = cache_decisive entry fp (vb_verdict b) st)"
  by (auto simp: gate_after_miss_def split: option.split)

lemma classify_store_ok:
  assumes "store_ok st" and "\<And>b. baseline = Some b \<Longrightarrow> decisive (vb_verdict b)"
  shows "store_ok (snd (classify_adjudication entry fp additive baseline now st))"
proof -
  let ?st1 = "snd (cached_for entry fp st)"
  have st1: "store_ok ?st1" using assms(1) by (rule cached_for_store_ok)
  have "store_ok (snd (gate_after_miss entry fp additive baseline now ?st1))"
    using miss_store [of entry fp additive baseline now ?st1] st1 store_ok_ops(7) [OF st1] assms(2)
    by metis
  then show ?thesis
    using st1 by (auto simp: classify_adjudication_def split: option.split prod.split)
qed

text \<open>The model is called only when it looks up and the entry is not waiting.\<close>

lemma judge_only_when_open:
  assumes "fst (classify_adjudication entry fp additive baseline now st) = Judge"
  shows "\<not> breaker_open (snd (cached_for entry fp st)) now \<and>
    \<not> entry_backing_off (snd (cached_for entry fp st)) entry now"
  using assms
  by (auto simp: classify_adjudication_def gate_after_miss_def gate_after_hold_def
      split: option.splits if_splits prod.splits)

lemma cached_for_backoff:
  assumes "bt_ok (vs_entries st)"
  shows "breaker_open (snd (cached_for entry fp st)) now = breaker_open st now"
    and "entry_backing_off (snd (cached_for entry fp st)) k now = entry_backing_off st k now"
  using assms
  by (auto simp: cached_for_def breaker_open_def entry_backing_off_def bt_get_put
      split: option.split prod.split)

end
