(* ===== verification/Redact.thy ===== *)
theory Redact
  imports Text Json Attack "HOL-Library.Product_Lexorder"
begin

text \<open>
  Redaction of untrusted text (\<open>redact/\<close>): the structure stripper shared by the prompt and the
  egress paths, the name scrubber, and the counts-only ATT&CK outcome. The scrubber of CVE tokens is
  one call of the regex library and is not modelled.
\<close>

section \<open>Structure\<close>

definition STRUCTURE_CHARS :: string where
  "STRUCTURE_CHARS = ''<>{}'' @ [CHR 0x60, LF, CR]"

definition sanitize :: "string \<Rightarrow> string" where
  "sanitize s = map (\<lambda>c. if c \<in> set STRUCTURE_CHARS then CHR '' '' else c) s"

lemma sanitize_clean: "c \<in> set STRUCTURE_CHARS \<Longrightarrow> c \<notin> set (sanitize s)"
  by (auto simp: sanitize_def STRUCTURE_CHARS_def LF_def CR_def)

lemma sanitize_id: "set s \<inter> set STRUCTURE_CHARS = {} \<Longrightarrow> sanitize s = s"
  by (induction s) (auto simp: sanitize_def)

lemma sanitize_idem [simp]: "sanitize (sanitize s) = sanitize s"
  by (rule sanitize_id) (use sanitize_clean in blast)

lemma length_sanitize [simp]: "length (sanitize s) = length s"
  by (simp add: sanitize_def)

lemma sanitize_append: "sanitize (a @ b) = sanitize a @ sanitize b"
  by (simp add: sanitize_def)

lemma char_count_sanitize [simp]: "char_count (sanitize s) = char_count s"
proof -
  let ?f = "\<lambda>c. if c \<in> set STRUCTURE_CHARS then CHR '' '' else c"
  have cont: "is_cont (?f c) = is_cont c" for c
    by (auto simp: STRUCTURE_CHARS_def LF_def CR_def is_cont_def)
  have tw: "takeWhile is_cont (map ?f xs) = map ?f (takeWhile is_cont xs)"
    "dropWhile is_cont (map ?f xs) = map ?f (dropWhile is_cont xs)" for xs
    unfolding takeWhile_map dropWhile_map by (simp_all only: comp_def cont)
  have "utf8_chars (map ?f s) = map (map ?f) (utf8_chars s)"
    by (induction s rule: utf8_chars.induct) (simp_all only: list.map utf8_chars.simps tw)
  then show ?thesis by (simp add: char_count_def sanitize_def)
qed

section \<open>Names\<close>

definition REDACTED :: string where
  "REDACTED = ''[redacted]''"

definition scrub_names :: "string list \<Rightarrow> string list" where
  "scrub_names names =
     remdups_adj (sort_key (\<lambda>n. - int (length n)) (filter (\<lambda>n. n \<noteq> []) (map trim names)))"

definition scrub_one :: "string \<Rightarrow> string \<Rightarrow> string" where
  "scrub_one name out = (if contains out name then replace_all name REDACTED out else out)"

definition scrub_decision_names :: "string \<Rightarrow> string list \<Rightarrow> string" where
  "scrub_decision_names text names = fold scrub_one (scrub_names names) text"

section \<open>Outcomes\<close>

definition redacted_attack_outcome :: "attack_ref list \<Rightarrow> nat \<Rightarrow> json list" where
  "redacted_attack_outcome refs cap =
     map (\<lambda>(tac, tid, tname).
            jobj [(''tactic'', JStr tac), (''technique_id'', JStr tid),
                  (''technique'', JStr (sanitize tname))])
       (take cap (bs_of_list (map (\<lambda>a. (tactic_id (a_tactic a), technique_id a, technique_name a)) refs)))"

section \<open>A scrubbed text names nothing\<close>

text \<open>
  \<open>outside_mark m\<close>: the name has no bracket and does not occur in the word of the placeholder, so
  an occurrence of it in a scrubbed text is an occurrence in the text.
\<close>

definition outside_mark :: "string \<Rightarrow> bool" where
  "outside_mark m \<longleftrightarrow>
     m \<noteq> [] \<and> CHR ''['' \<notin> set m \<and> CHR '']'' \<notin> set m \<and> \<not> contains ''redacted'' m"

lemma contains_mark:
  assumes "outside_mark m"
  shows "contains (REDACTED @ s) m \<longleftrightarrow> contains s m"
proof -
  let ?w = "''redacted''"
  have m: "CHR ''['' \<notin> set m" "CHR '']'' \<notin> set m" "m \<noteq> []" "\<not> contains ?w m"
    using assms by (simp_all only: outside_mark_def simp_thms)
  have "contains ([] @ CHR ''['' # (?w @ CHR '']'' # s)) m \<longleftrightarrow> contains s m"
    unfolding contains_sep [OF m(1,3)] contains_sep [OF m(2,3)] using m(3,4) by auto
  then show ?thesis by (simp only: REDACTED_def append.simps)
qed

lemma scrub_keeps_absent:
  assumes "outside_mark m" "contains (replace_all n REDACTED s) m"
  shows "contains s m"
  using assms(2)
proof (induction s rule: length_induct)
  case (1 s)
  have mark: "REDACTED = CHR ''['' # ''redacted]''" by (simp add: REDACTED_def)
  show ?case
  proof (cases s)
    case (Cons x xs)
    show ?thesis
    proof (cases "n \<noteq> [] \<and> starts_with s n")
      case True
      with 1(2) Cons have "contains (replace_all n REDACTED (drop (length n) s)) m"
        using contains_mark [OF assms(1)] by (simp add: replace_all_Cons)
      moreover have "length (drop (length n) s) < length s" using True Cons by simp
      ultimately have "contains (drop (length n) s) m" using 1(1) by blast
      then have "contains (take (length n) s @ drop (length n) s) m" by (rule contains_append_left)
      then show ?thesis by simp
    next
      case False
      with 1(2) Cons have or: "starts_with (x # replace_all n REDACTED xs) m \<or> contains (replace_all n REDACTED xs) m"
        by (auto simp: replace_all_Cons)
      have "starts_with (x # xs) m" if "starts_with (x # replace_all n REDACTED xs) m"
        using that assms(1) replace_all_prefix [of "CHR ''[''" "tl m" n "''redacted]''" xs]
        by (cases m) (auto simp: outside_mark_def mark starts_with_def)
      with or 1(1) Cons show ?thesis by auto
    qed
  qed (use 1(2) in simp)
qed

lemma scrub_one_absent: "outside_mark n \<Longrightarrow> \<not> contains (scrub_one n s) n"
  unfolding scrub_one_def
proof (simp, intro impI)
  assume n: "outside_mark n"
  then have ne: "n \<noteq> []" by (simp add: outside_mark_def)
  have mark: "REDACTED = CHR ''['' # ''redacted]''" by (simp add: REDACTED_def)
  show "\<not> contains (replace_all n REDACTED s) n"
  proof (induction s rule: length_induct)
    case (1 s)
    show ?case
    proof (cases s)
      case (Cons x xs)
      show ?thesis
      proof (cases "starts_with s n")
        case True
        then show ?thesis
          using 1 ne Cons contains_mark [OF n] by (simp add: replace_all_Cons)
      next
        case False
        have "\<not> starts_with (x # replace_all n REDACTED xs) n"
          using n False Cons replace_all_prefix [of "CHR ''[''" "tl n" n "''redacted]''" xs]
          by (cases n) (auto simp: outside_mark_def mark starts_with_def)
        then show ?thesis using 1 False Cons by (simp add: replace_all_Cons)
      qed
    qed (use ne in simp)
  qed
qed

lemma scrub_all_absent:
  assumes "list_all outside_mark ns" "m \<in> set ns \<or> \<not> contains s m" "outside_mark m"
  shows "\<not> contains (fold scrub_one ns s) m"
  using assms
proof (induction ns arbitrary: s)
  case (Cons n ns)
  have "\<not> contains (scrub_one n s) m" if "m = n \<or> \<not> contains s m"
    using that Cons.prems scrub_one_absent [of n s] scrub_keeps_absent [of m n s]
    by (auto simp: scrub_one_def)
  with Cons show ?case by auto
qed simp

lemma scrub_names_set: "set (scrub_names names) = {n \<in> trim ` set names. n \<noteq> []}"
  by (auto simp: scrub_names_def)

text \<open>
  A scrubbed text contains none of the names it was scrubbed of, whatever the order and the
  overlaps of the names, provided no name contains a bracket of the placeholder or occurs inside its
  word; Kubernetes names and node keys contain no bracket.
\<close>

theorem scrubbed_names_absent:
  assumes "\<forall>n\<in>set names. trim n = [] \<or> outside_mark (trim n)"
    and "name \<in> set names" "trim name \<noteq> []"
  shows "\<not> contains (scrub_decision_names text names) (trim name)"
  unfolding scrub_decision_names_def
  by (rule scrub_all_absent) (use assms in \<open>auto simp: scrub_names_set list_all_iff\<close>)

theorem scrubbed_names_absent_witness:
  "\<not> contains (scrub_decision_names ''read secret/app/db by db'' ['' db'', ''secret/app/db'']) ''db''"
proof -
  have t: "trim '' db'' = ''db''" "trim ''secret/app/db'' = ''secret/app/db''"
    by code_simp+
  have "outside_mark ''db''" "outside_mark ''secret/app/db''"
    by (simp_all add: outside_mark_def starts_with_def)
  then show ?thesis
    using scrubbed_names_absent [of "['' db'', ''secret/app/db'']" "'' db''" "''read secret/app/db by db''"]
    by (simp add: t)
qed

end
