(* ===== verification/Guards.thy ===== *)
theory Guards
  imports Verdict Redact Classify
begin

text \<open>
  The fence around untrusted text and the grounding guards of the model's reply
  (\<open>reason/adjudicate/guards.rs\<close>).
\<close>

section \<open>Fences\<close>

definition fence :: "string \<Rightarrow> string" where
  "fence untrusted = ''<<<'' @ trim (sanitize untrusted) @ ''>>>''"

definition fence_list :: "string list \<Rightarrow> string" where
  "fence_list untrusteds = (if untrusteds = [] then ''<<<(none)>>>'' else fence (join '', '' untrusteds))"

section \<open>Cited vulnerabilities\<close>

text \<open>The dash characters U+2010 to U+2015 and U+2212.\<close>

fun dash3 :: "string \<Rightarrow> bool" where
  "dash3 (a # b # c # s) \<longleftrightarrow>
     a = CHR 0xE2 \<and> (b = CHR 0x80 \<and> CHR 0x90 \<le> c \<and> c \<le> CHR 0x95 \<or> b = CHR 0x88 \<and> c = CHR 0x92)"
| "dash3 _ \<longleftrightarrow> False"

function normalize_loop :: "bool \<Rightarrow> string \<Rightarrow> string" where
  "normalize_loop prev_ws s =
     (case s of
        [] \<Rightarrow> []
      | x # xs \<Rightarrow>
          if dash3 s then CHR ''-'' # normalize_loop False (drop 3 s)
          else if 0 < ws_len s then
            (if prev_ws then [] else ''-'') @ normalize_loop True (drop (ws_len s) s)
          else ascii_upper x # normalize_loop False xs)"
  by pat_completeness auto
termination
  by (relation "measure (\<lambda>(p, s). length s)") auto

declare normalize_loop.simps [simp del]

definition normalize_cve_text :: "string \<Rightarrow> string" where
  "normalize_cve_text text = normalize_loop False text"

definition leading_digits :: "string \<Rightarrow> nat" where
  "leading_digits s = length (takeWhile is_digit s)"

definition cve_id_at :: "string \<Rightarrow> string option" where
  "cve_id_at rest =
     (if leading_digits rest = 4 \<and> starts_with (drop 4 rest) ''-''
      then (let n = leading_digits (drop 5 rest) in
            if 4 \<le> n then Some (''CVE-'' @ take (5 + n) rest) else None)
      else None)"

definition extract_cve_ids :: "string \<Rightarrow> string list" where
  "extract_cve_ids text = List.map_filter cve_id_at (matches_after ''CVE-'' text)"

section \<open>Guards on a promoting verdict\<close>

definition guard_exploitable :: "verdict \<Rightarrow> (string \<Rightarrow> verdict option) \<Rightarrow> verdict" where
  "guard_exploitable v check =
     (case v of
        Exploitable reason \<Rightarrow> (case check reason of Some d \<Rightarrow> d | None \<Rightarrow> v)
      | _ \<Rightarrow> v)"

definition guard_fabricated_cve :: "verdict \<Rightarrow> string set \<Rightarrow> verdict" where
  "guard_fabricated_cve v real_ids =
     (let real_ids = normalize_cve_text ` real_ids in
      guard_exploitable v (\<lambda>reason.
        let fabricated =
          filter (\<lambda>c. c \<notin> real_ids) (extract_cve_ids (normalize_cve_text reason))
        in if fabricated \<noteq> []
           then Some (Unsure
             (''model cited CVE(s) not in the evidence (possible hallucination): '' @
              join '', '' fabricated))
           else None))"

definition claims_loaded :: "string \<Rightarrow> bool" where
  "claims_loaded reason =
     (let lower = map ascii_lower reason in
      contains lower ''loaded-at-runtime'' \<or> contains lower ''loaded at runtime'')"

definition FABRICATED_TAG :: string where
  "FABRICATED_TAG =
     ''model asserted a [reachability: loaded-at-runtime] exploitation tag that no CVE '' @
     ''in the evidence carries (fabricated reachability tag)''"

definition guard_fabricated_reachability_tag :: "verdict \<Rightarrow> bool \<Rightarrow> verdict" where
  "guard_fabricated_reachability_tag v evidence_has_loaded =
     guard_exploitable v (\<lambda>reason.
       if claims_loaded reason \<and> \<not> evidence_has_loaded then Some (Unsure FABRICATED_TAG) else None)"

definition corroborating_behavior :: "behavior \<Rightarrow> bool" where
  "corroborating_behavior b = is_alarming_now b"

definition NO_EVIDENCE :: string where
  "NO_EVIDENCE =
     ''no exploitation evidence present (no CVE, no exposed secret, no runtime alert) '' @
     em_dash @ '' reachability is not a breach''"

definition guard_unsupported_exploitable ::
  "verdict \<Rightarrow> string list \<Rightarrow> behavior list \<Rightarrow> bool \<Rightarrow> verdict" where
  "guard_unsupported_exploitable v cves behaviors has_exposed_secret =
     guard_exploitable v (\<lambda>_.
       let has_cve = cves \<noteq> [];
           has_corroborating = list_ex corroborating_behavior behaviors;
           any_anchor = has_cve \<or> has_exposed_secret \<or> has_corroborating
       in if \<not> any_anchor then Some (Refuted NO_EVIDENCE) else None)"

section \<open>Markers of an objective\<close>

definition is_can_do :: "relation \<Rightarrow> bool" where
  "is_can_do r = (case r of CanDo verb resource \<Rightarrow> True | _ \<Rightarrow> False)"

definition objective_reach :: "'g petgraph \<Rightarrow> 'g security_graph \<Rightarrow> node_key \<Rightarrow> string" where
  "objective_reach P sg objective =
     (case index_of sg objective of
        None \<Rightarrow> ''NETWORK''
      | Some idx \<Rightarrow>
          (let inc = pg_edges_incoming P (sg_graph sg) idx;
               mounted = list_ex (\<lambda>r. e_relation (er_weight r) = CanRead) inc;
               rbac = list_ex (\<lambda>r. is_can_do (e_relation (er_weight r))) inc
           in if mounted \<and> rbac then ''MOUNTED+RBAC-GRANTED''
              else if mounted then ''MOUNTED''
              else if rbac then ''RBAC-GRANTED''
              else ''NETWORK''))"

definition ns_marker :: "node_key \<Rightarrow> node_key \<Rightarrow> string" where
  "ns_marker entry objective =
     (case (key_namespace entry, key_namespace objective) of
        (Some a, Some b) \<Rightarrow> if a = b then ''same-ns'' else ''cross-ns''
      | _ \<Rightarrow> ''cross-ns'')"

section \<open>What the guards keep\<close>

lemma guard_exploitable_simps [simp]:
  "guard_exploitable Confirmed f = Confirmed"
  "guard_exploitable (Refuted w) f = Refuted w"
  "guard_exploitable (Unsure w) f = Unsure w"
  "guard_exploitable (Exploitable w) f = (case f w of Some d \<Rightarrow> d | None \<Rightarrow> Exploitable w)"
  by (simp_all add: guard_exploitable_def split: option.split)

definition cites_only :: "string \<Rightarrow> string set \<Rightarrow> bool" where
  "cites_only reason ids \<longleftrightarrow>
     set (extract_cve_ids (normalize_cve_text reason)) \<subseteq> normalize_cve_text ` ids"

lemma guard_fabricated_cve_cases:
  "(cites_only w ids \<and> guard_fabricated_cve (Exploitable w) ids = Exploitable w) \<or>
   (\<not> cites_only w ids \<and> (\<exists>r. guard_fabricated_cve (Exploitable w) ids = Unsure r))"
  by (auto simp: guard_fabricated_cve_def cites_only_def Let_def filter_empty_conv)

lemma guard_fabricated_reachability_tag_eq:
  "guard_fabricated_reachability_tag (Exploitable w) loaded =
     (if claims_loaded w \<and> \<not> loaded then Unsure FABRICATED_TAG else Exploitable w)"
  by (simp add: guard_fabricated_reachability_tag_def)

lemma guard_fabricated_reachability_tag_Unsure [simp]:
  "guard_fabricated_reachability_tag (Unsure w) loaded = Unsure w"
  by (simp add: guard_fabricated_reachability_tag_def)

lemma guard_unsupported_exploitable_eq:
  "guard_unsupported_exploitable (Exploitable w) cves bs secret =
     (if cves \<noteq> [] \<or> secret \<or> (\<exists>b\<in>set bs. is_alarming_now b) then Exploitable w
      else Refuted NO_EVIDENCE)"
  by (auto simp: guard_unsupported_exploitable_def corroborating_behavior_def Let_def list_ex_iff)

section \<open>A fence cannot be closed from inside\<close>

lemma trim_start_suffix: "\<exists>a. s = a @ trim_start s"
proof (induction s rule: trim_start.induct)
  case (1 s)
  show ?case
  proof (cases "0 < ws_len s")
    case True
    then obtain a where "drop (ws_len s) s = a @ trim_start s"
      using 1 by (metis trim_start.simps)
    then show ?thesis by (metis append.assoc append_take_drop_id)
  qed (simp add: trim_start.simps [of s])
qed

lemma trim_end_suffix: "\<exists>a. s = a @ trim_end_rev s"
proof (induction s rule: trim_end_rev.induct)
  case (1 s)
  show ?case
  proof (cases "0 < ws_len_rev s")
    case True
    then obtain a where "drop (ws_len_rev s) s = a @ trim_end_rev s"
      using 1 by (metis trim_end_rev.simps)
    then show ?thesis by (metis append.assoc append_take_drop_id)
  qed (simp add: trim_end_rev.simps [of s])
qed

lemma trim_inside: "\<exists>a b. s = a @ trim s @ b"
proof -
  obtain a where a: "s = a @ trim_start s" using trim_start_suffix by blast
  obtain b where "rev (trim_start s) = b @ trim_end_rev (rev (trim_start s))"
    using trim_end_suffix by blast
  then have "trim_start s = trim s @ rev b"
    by (metis rev_append rev_rev_ident trim_def)
  with a show ?thesis by metis
qed

lemma set_trim: "set (trim s) \<subseteq> set s"
  using trim_inside [of s] by (metis Un_iff set_append subsetI)

definition fence_body :: "string \<Rightarrow> string" where
  "fence_body untrusted = trim (sanitize untrusted)"

text \<open>
  Whatever the untrusted value, its fence is the opening mark, a body without any fence mark, line
  break, brace or backtick, and the closing mark: the value can neither close the fence nor start
  a line or an object of its own.
\<close>

theorem fence_unbreakable:
  "fence untrusted = ''<<<'' @ fence_body untrusted @ ''>>>'' \<and>
   set (fence_body untrusted) \<inter> set STRUCTURE_CHARS = {}"
  using set_trim [of "sanitize untrusted"] sanitize_clean [of _ untrusted]
  by (auto simp: fence_def fence_body_def)

text \<open>
  The guard against fabricated citations keeps a promoting verdict exactly when every CVE
  identifier its reason spells, after the folding of case, dashes and white space, is one of the
  evidence, and leaves every other verdict alone; it never yields a promoting verdict of its own.
  The spelling with a blank on both sides of each hyphen is not folded to an identifier: a reason
  that cites a CVE so passes although the evidence has no CVE at all.
\<close>

theorem guard_fabricated_cve_exact:
  "(promotes (guard_fabricated_cve v ids) \<longleftrightarrow> (\<exists>w. v = Exploitable w \<and> cites_only w ids)) \<and>
   (guard_fabricated_cve v ids = v \<longleftrightarrow> (\<forall>w. v \<noteq> Exploitable w) \<or> (\<exists>w. v = Exploitable w \<and> cites_only w ids)) \<and>
   \<not> cites_only ''cve 2023 9999'' {''CVE-2021-44228''} \<and> cites_only ''CVE - 2023 - 9999'' {}"
proof (intro conjI)
  show "promotes (guard_fabricated_cve v ids) \<longleftrightarrow> (\<exists>w. v = Exploitable w \<and> cites_only w ids)"
  proof (cases v)
    case (Exploitable w)
    then show ?thesis using guard_fabricated_cve_cases [of w ids] by auto
  qed (simp_all add: guard_fabricated_cve_def Let_def)
  show "guard_fabricated_cve v ids = v \<longleftrightarrow>
      (\<forall>w. v \<noteq> Exploitable w) \<or> (\<exists>w. v = Exploitable w \<and> cites_only w ids)"
  proof (cases v)
    case (Exploitable w)
    then show ?thesis using guard_fabricated_cve_cases [of w ids] by auto
  qed (simp_all add: guard_fabricated_cve_def Let_def)
  show "\<not> cites_only ''cve 2023 9999'' {''CVE-2021-44228''}" by code_simp
  show "cites_only ''CVE - 2023 - 9999'' {}" by code_simp
qed

theorem guard_fabricated_cve_exact_witness:
  "promotes (guard_fabricated_cve (Exploitable ''uses CVE-2021-44228'') {''CVE-2021-44228''}) \<and>
   guard_fabricated_cve (Refuted ''benign'') {} = Refuted ''benign''"
proof -
  have "cites_only ''uses CVE-2021-44228'' {''CVE-2021-44228''}" by code_simp
  then show ?thesis
    using guard_fabricated_cve_exact [of "Exploitable ''uses CVE-2021-44228''" "{''CVE-2021-44228''}"]
      guard_fabricated_cve_exact [of "Refuted ''benign''" "{}"]
    by blast
qed

end
