(* ===== verification/Menu.thy ===== *)
theory Menu
  imports Actuator Boundary Guards Example
begin

text \<open>
  The deterministic cut-choice menu of an incident and the parser of the model's reply
  (\<open>reason/adjudicate/incident/menu.rs\<close> and \<open>parse.rs\<close>). The reply is parsed by \<open>serde_json\<close>, a
  third-party parser: \<open>from_str\<close> is a parameter. A \<open>None\<close> of the outer option is a panic.
\<close>

section \<open>The menu\<close>

record menu_line =
  ml_node :: node_key
  ml_action :: proposed_action
  ml_cut :: link
  ml_cut_signature :: string
  ml_blast_note :: string

record menu =
  selectable :: "menu_line list"
  uncontainable :: "node_key list"

definition resolve :: "menu \<Rightarrow> node_key \<Rightarrow> chosen_cut option" where
  "resolve menu node =
     map_option (\<lambda>l. \<lparr>cc_node = ml_node l, cc_action = ml_action l, cc_cut = ml_cut l,
                      cc_signature = ml_cut_signature l\<rparr>)
       (find (\<lambda>l. ml_node l = node) (selectable menu))"

definition node_for :: "menu \<Rightarrow> string \<Rightarrow> node_key option" where
  "node_for menu normalized = map_option ml_node (find (\<lambda>l. ml_node l = normalized) (selectable menu))"

definition render_menu :: "menu \<Rightarrow> string" where
  "render_menu menu =
     (let lines =
        map (\<lambda>l. ''  - '' @ fence (ml_node l) @ '': '' @ describe (ml_action l) @ '' ('' @
                   ml_blast_note l @ '')'') (selectable menu) @
        (if uncontainable menu = [] then []
         else [''  - (evidence-bearing, not containable '' @ em_dash @ '' do not name): '' @
               join '', '' (map fence (uncontainable menu))])
      in if lines = [] then ''  (none)'' else join [LF] lines)"

definition CONTAIN_NODE_NOTE :: string where
  "CONTAIN_NODE_NOTE =
     ''damage-limitation, not a clean sever: the cordon stops scheduler-driven spread, '' @
     ''the co-resident denies stop lateral use of the node's other pods, and '' @
     ''drain/reimage/rotate is a human act''"

definition CONTAIN_NODE_SELF_SEVERANCE_SUFFIX :: string where
  "CONTAIN_NODE_SELF_SEVERANCE_SUFFIX =
     ''; this node also hosts one of protector's OWN components '' @ em_dash @
     '' containing it will sever protector's own visibility/control of this node '' @
     ''until a human intervenes''"

definition blast_note :: "blast_radius \<Rightarrow> string" where
  "blast_note blast =
     (if br_incomplete blast then ''blast radius: reachability not fully modeled''
      else if alive_collateral blast = [] then ''blast radius: no alive collateral''
      else ''blast radius: '' @ show_nat (length (alive_collateral blast)) @
           '' alive workload(s) affected'')"

definition contain_node_note :: "'g petgraph \<Rightarrow> 'g security_graph \<Rightarrow> link \<Rightarrow> string" where
  "contain_node_note P sg lk =
     CONTAIN_NODE_NOTE @ (if self_severance P sg (l_from lk) then CONTAIN_NODE_SELF_SEVERANCE_SUFFIX else [])"

definition cut_blast_note ::
  "'g petgraph \<Rightarrow> 'g security_graph \<Rightarrow> health_report \<Rightarrow> link \<Rightarrow> proposed_action \<Rightarrow> string" where
  "cut_blast_note P sg health lk action =
     (if action = ContainNode then contain_node_note P sg lk
      else blast_note (predict_blast_radius P sg
             \<lparr>m_cut = lk, m_action = action, m_justifications = []\<rparr> health))"

definition menu_line_of ::
  "'g petgraph \<Rightarrow> 'g security_graph \<Rightarrow> health_report \<Rightarrow> node_key \<Rightarrow> link \<times> proposed_action \<Rightarrow> menu_line" where
  "menu_line_of P sg health node c =
     \<lparr>ml_node = node, ml_action = snd c, ml_cut = fst c, ml_cut_signature = cut_signature (fst c),
      ml_blast_note = cut_blast_note P sg health (fst c) (snd c)\<rparr>"

definition boundary_break_holds ::
  "'g petgraph \<Rightarrow> 'g security_graph \<Rightarrow> node_key list \<Rightarrow> node_key \<Rightarrow> bool" where
  "boundary_break_holds P sg model_attack node \<longleftrightarrow>
     (case index_of sg node of None \<Rightarrow> False | Some idx \<Rightarrow> boundary_break P sg idx model_attack)"

definition escalate ::
  "'g petgraph \<Rightarrow> 'g security_graph \<Rightarrow> node_key list \<Rightarrow> node_key \<Rightarrow> (link \<times> proposed_action) option \<Rightarrow>
     (link \<times> proposed_action) option" where
  "escalate P sg model_attack node fallback =
     (let escalated = (if boundary_break_holds P sg model_attack node then contain_node_link P sg node else None)
      in case escalated of
           Some lk \<Rightarrow> Some (lk, ContainNode)
         | None \<Rightarrow>
             (case fallback of
                Some (lk, action) \<Rightarrow>
                  if is_additive_live action \<and> is_reversible action then Some (lk, action) else None
              | None \<Rightarrow> None))"

fun dedup_lines :: "menu_line list \<Rightarrow> menu_line list" where
  "dedup_lines (a # b # rest) =
     (if ml_node a = ml_node b then dedup_lines (a # rest) else a # dedup_lines (b # rest))"
| "dedup_lines ls = ls"

definition normalize_menu :: "menu_line list \<Rightarrow> node_key list \<Rightarrow> menu" where
  "normalize_menu lns unc =
     (let sel = dedup_lines (sort_key ml_node lns)
      in \<lparr>selectable = sel,
          uncontainable = filter (\<lambda>n. \<not> list_ex (\<lambda>l. ml_node l = n) sel) (bs_of_list unc)\<rparr>)"

definition entry_candidate :: "proven_chain \<Rightarrow> node_key \<times> (link \<times> proposed_action) option" where
  "entry_candidate c = (pc_entry c, containment_for c)"

definition downstream_candidates ::
  "proven_chain \<Rightarrow> (node_key \<times> (link \<times> proposed_action) option) list" where
  "downstream_candidates c =
     map (\<lambda>t. (qt_node t, map_option (\<lambda>lk. (lk, QuarantineWorkload))
                           (quarantine_workload_link (qt_node t) (qt_labels t))))
       (filter (\<lambda>t. qt_node t \<noteq> pc_entry c) (quarantine_targets c))"

definition build_menu ::
  "'g petgraph \<Rightarrow> 'g security_graph \<Rightarrow> health_report \<Rightarrow> node_key list \<Rightarrow> proven_chain \<Rightarrow> menu" where
  "build_menu P sg health model_attack c =
     (let resolved = map (\<lambda>(node, fallback). (node, escalate P sg model_attack node fallback))
            (entry_candidate c # downstream_candidates c)
      in normalize_menu
           (List.map_filter (\<lambda>(node, r). map_option (menu_line_of P sg health node) r) resolved)
           (map fst (filter (\<lambda>(node, r). r = None) resolved)))"

section \<open>The parser\<close>

definition find_char :: "char \<Rightarrow> string \<Rightarrow> nat option" where
  "find_char c s = (if c \<in> set s then Some (length (takeWhile (\<lambda>x. x \<noteq> c) s)) else None)"

definition rfind_char :: "char \<Rightarrow> string \<Rightarrow> nat option" where
  "rfind_char c s = map_option (\<lambda>i. length s - 1 - i) (find_char c (rev s))"

text \<open>
  \<open>&reply[start..=end]\<close> panics when the range ends before it starts by more than the empty range.
\<close>

definition extract_object :: "(string \<Rightarrow> json option) \<Rightarrow> string \<Rightarrow> json option option" where
  "extract_object from_str reply =
     (case (find_char (CHR 0x7B) reply, rfind_char (CHR 0x7D) reply) of
        (Some start, Some stop) \<Rightarrow>
          if Suc stop < start then None
          else Some (from_str (take (Suc stop - start) (drop start reply)))
      | _ \<Rightarrow> Some None)"

definition is_hard_parse_failure :: "(string \<Rightarrow> json option) \<Rightarrow> string \<Rightarrow> bool option" where
  "is_hard_parse_failure from_str reply = map_option (\<lambda>ob. ob = None) (extract_object from_str reply)"

definition parse_assessment :: "json \<Rightarrow> assessment option" where
  "parse_assessment ob =
     (case map_option trim (jstr (jget ob ''assessment'')) of
        None \<Rightarrow> None
      | Some s \<Rightarrow>
          if s = ''attack'' then Some Attack
          else if s = ''no_attack'' then Some NoAttack
          else if s = ''uncertain'' then Some Uncertain
          else None)"

definition parse_contain :: "json \<Rightarrow> string list option" where
  "parse_contain ob =
     (case jget ob ''contain'' of
        None \<Rightarrow> Some []
      | Some (JArr items) \<Rightarrow> those (map (\<lambda>item. jstr (Some item)) items)
      | Some _ \<Rightarrow> None)"

definition normalize_contain :: "string \<Rightarrow> string" where
  "normalize_contain raw =
     (let s = trim raw;
          s = (case strip_prefix s ''<<<'' of Some rest \<Rightarrow> rest | None \<Rightarrow> s);
          s = (case strip_suffix s ''>>>'' of Some rest \<Rightarrow> rest | None \<Rightarrow> s)
      in trim s)"

definition decide_reply :: "menu \<Rightarrow> json \<Rightarrow> incident_decision" where
  "decide_reply menu ob =
     (let reason = (case jstr (jget ob ''reason'') of Some r \<Rightarrow> r | None \<Rightarrow> [])
      in case parse_assessment ob of
           None \<Rightarrow> uncertain reason
         | Some assessment \<Rightarrow>
             (case parse_contain ob of
                None \<Rightarrow> uncertain reason
              | Some raw_contain \<Rightarrow>
                  (case those (map (\<lambda>raw. node_for menu (normalize_contain raw)) raw_contain) of
                     None \<Rightarrow> uncertain reason
                   | Some nodes \<Rightarrow>
                       (let nodes = bs_of_list nodes
                        in if assessment \<noteq> Attack \<and> nodes \<noteq> [] then uncertain reason
                           else \<lparr>d_assessment = assessment, d_reason = reason,
                                 d_cuts = List.map_filter (resolve menu) nodes\<rparr>))))"

definition parse_incident_decision ::
  "(string \<Rightarrow> json option) \<Rightarrow> string \<Rightarrow> menu \<Rightarrow> incident_decision option" where
  "parse_incident_decision from_str reply menu =
     (case extract_object from_str reply of
        None \<Rightarrow> None
      | Some None \<Rightarrow> Some (uncertain ''unparseable model reply'')
      | Some (Some ob) \<Rightarrow> Some (decide_reply menu ob))"

section \<open>The menu is canonical\<close>

lemma dedup_lines_nodes: "ml_node ` set (dedup_lines ls) = ml_node ` set ls"
  by (induction ls rule: dedup_lines.induct) auto

lemma dedup_lines_subset: "set (dedup_lines ls) \<subseteq> set ls"
proof (induction ls rule: dedup_lines.induct)
  case (1 a b rest)
  then show ?case by (cases "ml_node a = ml_node b") auto
qed simp_all

lemma dedup_lines_strict: "sorted (map ml_node ls) \<Longrightarrow> sorted_wrt (<) (map ml_node (dedup_lines ls))"
proof (induction ls rule: dedup_lines.induct)
  case (1 a b rest)
  show ?case
  proof (cases "ml_node a = ml_node b")
    case False
    have "ml_node a < x" if "x \<in> ml_node ` set (dedup_lines (b # rest))" for x
      using that 1(3) False unfolding dedup_lines_nodes by (auto simp: order.strict_iff_order)
    with 1 False show ?thesis by auto
  qed (use 1 in auto)
qed simp_all

definition menu_ok :: "menu \<Rightarrow> bool" where
  "menu_ok menu \<longleftrightarrow>
     sorted_wrt (<) (map ml_node (selectable menu)) \<and> sorted_wrt (<) (uncontainable menu) \<and>
     ml_node ` set (selectable menu) \<inter> set (uncontainable menu) = {} \<and>
     (\<forall>l\<in>set (selectable menu). ml_cut_signature l = cut_signature (ml_cut l))"

lemma normalize_menu_ok:
  assumes "\<forall>l\<in>set lns. ml_cut_signature l = cut_signature (ml_cut l)"
  shows "menu_ok (normalize_menu lns unc)"
  using assms dedup_lines_subset [of "sort_key ml_node lns"]
  by (auto simp: menu_ok_def normalize_menu_def dedup_lines_strict list_ex_iff sorted_wrt_filter Let_def)

lemma resolve_Some:
  assumes "menu_ok menu"
  shows "resolve menu node = Some c \<longleftrightarrow>
    (\<exists>l\<in>set (selectable menu). ml_node l = node \<and>
       c = \<lparr>cc_node = node, cc_action = ml_action l, cc_cut = ml_cut l, cc_signature = ml_cut_signature l\<rparr>)"
proof -
  have dist: "distinct (map ml_node (selectable menu))"
    using assms by (simp add: menu_ok_def strict_sorted_iff)
  have find: "find (\<lambda>l. ml_node l = node) ls = Some l \<longleftrightarrow> l \<in> set ls \<and> ml_node l = node"
    if "distinct (map ml_node ls)" for ls l
    using that by (induction ls) auto
  show ?thesis by (auto simp: resolve_def find [OF dist])
qed

lemma node_for_Some: "node_for menu s = Some node \<longleftrightarrow> s = node \<and> node \<in> ml_node ` set (selectable menu)"
  by (cases "find (\<lambda>l. ml_node l = s) (selectable menu)")
    (auto simp: node_for_def find_None_iff dest: find_SomeD)

lemma escalate_Some:
  "escalate P sg ma node fallback = Some (lk, action) \<Longrightarrow>
     (action = ContainNode \<and> boundary_break_holds P sg ma node \<and> contain_node_link P sg node = Some lk) \<or>
     (is_additive_live action \<and> is_reversible action \<and> fallback = Some (lk, action))"
  by (auto simp: escalate_def Let_def split: if_splits option.splits prod.splits)

lemma normalize_menu_nodes:
  "ml_node ` set (selectable (normalize_menu lns unc)) \<union> set (uncontainable (normalize_menu lns unc)) =
     ml_node ` set lns \<union> set unc"
  using dedup_lines_nodes [of "sort_key ml_node lns"]
  by (auto simp: normalize_menu_def Let_def list_ex_iff)

lemma normalize_menu_subset: "set (selectable (normalize_menu lns unc)) \<subseteq> set lns"
  using dedup_lines_subset [of "sort_key ml_node lns"] by (simp add: normalize_menu_def Let_def)

definition offered ::
  "'g petgraph \<Rightarrow> 'g security_graph \<Rightarrow> node_key list \<Rightarrow> proven_chain \<Rightarrow> menu_line \<Rightarrow> bool" where
  "offered P sg ma c l \<longleftrightarrow>
     (ml_action l = ContainNode \<and> boundary_break_holds P sg ma (ml_node l) \<and>
        contain_node_link P sg (ml_node l) = Some (ml_cut l)) \<or>
     (is_additive_live (ml_action l) \<and> is_reversible (ml_action l) \<and> ml_node l = pc_entry c \<and>
        containment_for c = Some (ml_cut l, ml_action l)) \<or>
     (ml_action l = QuarantineWorkload \<and> ml_node l \<noteq> pc_entry c \<and>
        (\<exists>t\<in>set (quarantine_targets c). qt_node t = ml_node l \<and>
           quarantine_workload_link (qt_node t) (qt_labels t) = Some (ml_cut l)))"

lemma candidate_offered:
  assumes "(node, fallback) \<in> set (entry_candidate c # downstream_candidates c)"
    and "escalate P sg ma node fallback = Some r"
  shows "offered P sg ma c (menu_line_of P sg health node r)"
  using assms escalate_Some [of P sg ma node fallback "fst r" "snd r"]
  by (auto simp: offered_def menu_line_of_def entry_candidate_def downstream_candidates_def)

lemma candidate_nodes:
  "fst ` set (entry_candidate c # downstream_candidates c) =
     insert (pc_entry c) (qt_node ` set (quarantine_targets c))"
  by (auto simp: entry_candidate_def downstream_candidates_def image_iff)

lemma resolved_nodes:
  "ml_node ` set (List.map_filter (\<lambda>(node, r). map_option (menu_line_of P sg health node) r) res) \<union>
     set (map fst (filter (\<lambda>(node, r). r = None) res)) = fst ` set res"
  by (induction res) (auto simp: List.map_filter_simps menu_line_of_def split: option.splits)

text \<open>
  The menu of a proven chain is canonical (strictly sorted by node, no node both selectable
  and uncontainable, every signature the one of its cut), lists exactly the entry and the workloads
  with exploitation evidence of the chain, and offers for each node only the mechanism that
  determinism resolved: the node cordon when the node's own evidence breaks the pod boundary,
  otherwise a reversible additive cut, the entry's from the containment ladder and a downstream
  workload's its own quarantine.
\<close>

theorem build_menu_exact:
  "let m = build_menu P sg health ma c in
    menu_ok m \<and>
    ml_node ` set (selectable m) \<union> set (uncontainable m) =
      insert (pc_entry c) (qt_node ` set (quarantine_targets c)) \<and>
    (\<forall>l\<in>set (selectable m). offered P sg ma c l)"
proof -
  define cands where "cands = entry_candidate c # downstream_candidates c"
  define res where "res = map (\<lambda>(node, fallback). (node, escalate P sg ma node fallback)) cands"
  define lns where "lns = List.map_filter (\<lambda>(node, r). map_option (menu_line_of P sg health node) r) res"
  define unc where "unc = map fst (filter (\<lambda>(node, r). r = None) res)"
  have m: "build_menu P sg health ma c = normalize_menu lns unc"
    by (simp add: build_menu_def Let_def lns_def unc_def res_def cands_def)
  have lns: "\<exists>node fallback r. (node, fallback) \<in> set cands \<and> escalate P sg ma node fallback = Some r \<and>
      l = menu_line_of P sg health node r" if "l \<in> set lns" for l
    using that by (auto simp: lns_def res_def set_map_filter)
  have "fst ` set res = fst ` set cands"
    by (force simp: res_def)
  then have nodes: "ml_node ` set lns \<union> set unc = fst ` set cands"
    unfolding lns_def unc_def resolved_nodes by simp
  have "\<forall>l\<in>set lns. ml_cut_signature l = cut_signature (ml_cut l)"
  proof
    fix l
    assume "l \<in> set lns"
    from lns [OF this] show "ml_cut_signature l = cut_signature (ml_cut l)"
      by (elim exE conjE) (simp add: menu_line_of_def)
  qed
  moreover have "\<forall>l\<in>set lns. offered P sg ma c l"
  proof
    fix l
    assume "l \<in> set lns"
    from lns [OF this] show "offered P sg ma c l"
      by (elim exE conjE) (simp only: candidate_offered cands_def)
  qed
  ultimately have "menu_ok (normalize_menu lns unc)"
    and "\<forall>l\<in>set (selectable (normalize_menu lns unc)). offered P sg ma c l"
    using normalize_menu_ok normalize_menu_subset [of lns unc] by auto
  moreover have "ml_node ` set (selectable (normalize_menu lns unc)) \<union>
      set (uncontainable (normalize_menu lns unc)) =
      insert (pc_entry c) (qt_node ` set (quarantine_targets c))"
    unfolding normalize_menu_nodes nodes cands_def by (rule candidate_nodes)
  ultimately show ?thesis by (simp add: m)
qed

theorem build_menu_exact_witness:
  "selectable (build_menu adj_ops ex_sg [] [] web_chain) \<noteq> [] \<and>
   list_all (offered adj_ops ex_sg [] web_chain) (selectable (build_menu adj_ops ex_sg [] [] web_chain))"
proof
  show "selectable (build_menu adj_ops ex_sg [] [] web_chain) \<noteq> []" by code_simp
  show "list_all (offered adj_ops ex_sg [] web_chain) (selectable (build_menu adj_ops ex_sg [] [] web_chain))"
    using build_menu_exact [of adj_ops ex_sg "[]" "[]" web_chain] unfolding Let_def list_all_iff by (elim conjE)
qed

section \<open>The reply names menu lines or nothing\<close>

definition named_nodes :: "json \<Rightarrow> string set" where
  "named_nodes ob = (case parse_contain ob of None \<Rightarrow> {} | Some raw \<Rightarrow> normalize_contain ` set raw)"

lemma node_for_eq: "node_for menu s = (if s \<in> ml_node ` set (selectable menu) then Some s else None)"
  using node_for_Some [of menu s] by (cases "node_for menu s") auto

lemma those_node_for:
  "those (map (\<lambda>raw. node_for menu (normalize_contain raw)) raws) =
     (if normalize_contain ` set raws \<subseteq> ml_node ` set (selectable menu)
      then Some (map normalize_contain raws) else None)"
  by (induction raws) (simp_all add: node_for_eq)

lemma decide_reply_cases:
  "(\<exists>r. decide_reply menu ob = uncertain r) \<or>
   (\<exists>a r raw. parse_assessment ob = Some a \<and> parse_contain ob = Some raw \<and>
      normalize_contain ` set raw \<subseteq> ml_node ` set (selectable menu) \<and> (a = Attack \<or> raw = []) \<and>
      decide_reply menu ob =
        \<lparr>d_assessment = a, d_reason = r,
         d_cuts = List.map_filter (resolve menu) (bs_of_list (map normalize_contain raw))\<rparr>)"
proof -
  have ne: "bs_of_list (map normalize_contain raw) = [] \<longleftrightarrow> raw = []" for raw
    using bs_of_list_set [of "map normalize_contain raw"] by (metis list.map_disc_iff set_empty)
  show ?thesis
    by (cases "parse_assessment ob"; cases "parse_contain ob")
      (auto simp: decide_reply_def Let_def those_node_for ne)
qed

lemma resolve_all:
  assumes "menu_ok menu" "set nodes \<subseteq> ml_node ` set (selectable menu)"
  shows "map cc_node (List.map_filter (resolve menu) nodes) = nodes \<and>
    (\<forall>c\<in>set (List.map_filter (resolve menu) nodes). resolve menu (cc_node c) = Some c)"
  using assms(2)
proof (induction nodes)
  case (Cons n nodes)
  then obtain c where "resolve menu n = Some c"
    using resolve_Some [OF assms(1)] by fastforce
  moreover from this have "cc_node c = n" using resolve_Some [OF assms(1)] by auto
  ultimately show ?case using Cons by (simp add: List.map_filter_simps)
qed (simp add: List.map_filter_simps)

lemma parsed_reply:
  assumes "menu_ok menu" "parse_incident_decision from_str reply menu = Some d"
  shows "(d_cuts d \<noteq> [] \<longrightarrow> d_assessment d = Attack) \<and>
    sorted_wrt (<) (map cc_node (d_cuts d)) \<and>
    (\<forall>c\<in>set (d_cuts d). resolve menu (cc_node c) = Some c) \<and>
    (d_assessment d \<noteq> Uncertain \<longrightarrow>
       (\<exists>ob raw. extract_object from_str reply = Some (Some ob) \<and>
          parse_assessment ob = Some (d_assessment d) \<and> parse_contain ob = Some raw \<and>
          cc_node ` set (d_cuts d) = normalize_contain ` set raw))"
proof (cases "\<exists>r. d = uncertain r")
  case False
  then obtain ob where ob: "extract_object from_str reply = Some (Some ob)" "d = decide_reply menu ob"
    using assms(2) by (auto simp: parse_incident_decision_def split: option.splits)
  with False obtain a r raw where d: "parse_assessment ob = Some a" "parse_contain ob = Some raw"
    "normalize_contain ` set raw \<subseteq> ml_node ` set (selectable menu)" "a = Attack \<or> raw = []"
    "d = \<lparr>d_assessment = a, d_reason = r,
          d_cuts = List.map_filter (resolve menu) (bs_of_list (map normalize_contain raw))\<rparr>"
    using decide_reply_cases [of menu ob] by metis
  let ?nodes = "bs_of_list (map normalize_contain raw)"
  have all: "map cc_node (d_cuts d) = ?nodes" "\<forall>c\<in>set (d_cuts d). resolve menu (cc_node c) = Some c"
    using resolve_all [OF assms(1), of ?nodes] d(3,5) by simp_all
  have "cc_node ` set (d_cuts d) = normalize_contain ` set raw"
    using arg_cong [OF all(1), of set] by simp
  moreover have "d_assessment d = a" using d(5) by simp
  ultimately show ?thesis using all ob(1) d(1,2,4) by auto
qed (auto simp: uncertain_def)

text \<open>
  C30. A parsed reply carries cuts only with the assessment attack, every cut is the menu's own
  line for its node, in node order and without repetition; and a decision other than uncertain comes
  from an object whose \<open>contain\<close> list, element by element after trimming and fence stripping, is
  exactly the set of nodes cut: one name that is not on the menu discards the whole decision.
\<close>

theorem parsed_reply_names_menu_lines:
  assumes "menu_ok menu" "parse_incident_decision from_str reply menu = Some d"
  shows "(d_cuts d \<noteq> [] \<longrightarrow> d_assessment d = Attack) \<and>
    sorted_wrt (<) (map cc_node (d_cuts d)) \<and>
    (\<forall>c\<in>set (d_cuts d). resolve menu (cc_node c) = Some c) \<and>
    (d_assessment d \<noteq> Uncertain \<longrightarrow>
       (\<exists>ob raw. extract_object from_str reply = Some (Some ob) \<and>
          parse_assessment ob = Some (d_assessment d) \<and> parse_contain ob = Some raw \<and>
          cc_node ` set (d_cuts d) = normalize_contain ` set raw))"
  using assms by (rule parsed_reply)

definition sample_menu :: menu where
  "sample_menu =
     (let lk = \<lparr>l_from = ''workload/app/Deployment/web'', l_to = ''workload/app/Deployment/web'',
                l_relation = QUARANTINE_WORKLOAD_RELATION, l_technique = None,
                from_labels = [(''app'', ''web'')], to_labels = []\<rparr>
      in \<lparr>selectable = [\<lparr>ml_node = ''workload/app/Deployment/web'', ml_action = QuarantineWorkload,
            ml_cut = lk, ml_cut_signature = cut_signature lk, ml_blast_note = []\<rparr>],
          uncontainable = []\<rparr>)"

definition sample_object :: json where
  "sample_object =
     jobj [(''assessment'', JStr ''attack''), (''contain'', JArr [JStr ''<<<workload/app/Deployment/web>>>'']),
           (''reason'', JStr ''shell in web'')]"

lemma sample_menu_ok: "menu_ok sample_menu"
  by (simp add: menu_ok_def sample_menu_def Let_def)

theorem parsed_reply_names_menu_lines_witness:
  "\<exists>d. parse_incident_decision (\<lambda>_. Some sample_object) (''so: '' @ [CHR 0x7B, CHR 0x7D]) sample_menu = Some d \<and>
     d_assessment d = Attack \<and> map cc_action (d_cuts d) = [QuarantineWorkload] \<and>
     list_all (\<lambda>c. resolve sample_menu (cc_node c) = Some c) (d_cuts d)"
proof -
  let ?p = "parse_incident_decision (\<lambda>_. Some sample_object) (''so: '' @ [CHR 0x7B, CHR 0x7D]) sample_menu"
  have "map_option (\<lambda>d. (d_assessment d, map cc_action (d_cuts d))) ?p = Some (Attack, [QuarantineWorkload])"
    by code_simp
  then obtain d where d: "?p = Some d" "d_assessment d = Attack" "map cc_action (d_cuts d) = [QuarantineWorkload]"
    by auto
  moreover have "list_all (\<lambda>c. resolve sample_menu (cc_node c) = Some c) (d_cuts d)"
    using parsed_reply_names_menu_lines [OF sample_menu_ok d(1)] unfolding list_all_iff by (elim conjE)
  ultimately show ?thesis by (intro exI [of _ d] conjI)
qed

section \<open>A key copied from the menu is accepted\<close>

lemma strip_suffix_append: "strip_suffix (s @ p) p = Some s"
  by (simp add: strip_suffix_def strip_prefix_def)

lemma trim_solid:
  assumes "s \<noteq> []" "hd s = CHR ''<''" "last s = CHR ''>''"
  shows "trim s = s"
proof (rule trim_plain)
  show "ws_len s = 0"
    using assms(1,2) by (cases s rule: ws_len.cases) (simp_all add: ws_ascii_def ws_two_def ws_three_def)
  have "hd (rev s) = CHR ''>''" using assms by (simp add: hd_rev)
  then show "ws_len_rev (rev s) = 0"
    using assms(1) by (cases "rev s" rule: ws_len_rev.cases) (simp_all add: ws_ascii_def ws_two_def ws_three_def)
qed

text \<open>
  A model that copies a node key from the rendered menu, with its fence, names that node: for
  a key without structure characters and without surrounding white space, normalizing its fence
  gives back the key, as does normalizing the bare key when it starts and ends with other characters
  than the fence's.
\<close>

theorem menu_key_roundtrip:
  assumes "set k \<inter> set STRUCTURE_CHARS = {}" "trim k = k"
  shows "normalize_contain (fence k) = k \<and> normalize_contain k = k"
proof
  have "fence k = ''<<<'' @ k @ ''>>>''"
    using assms by (simp add: fence_def sanitize_id)
  moreover have "trim (''<<<'' @ k @ ''>>>'') = ''<<<'' @ k @ ''>>>''"
    by (rule trim_solid) simp_all
  ultimately show "normalize_contain (fence k) = k"
    using strip_suffix_append [of k "''>>>''"] assms(2)
    by (simp add: normalize_contain_def Let_def strip_prefix_def starts_with_def)
  have "CHR ''<'' \<notin> set k" "CHR ''>'' \<notin> set k"
    using assms(1) by (auto simp: STRUCTURE_CHARS_def)
  moreover have np: "strip_prefix s (c # p) = None" if "c \<notin> set s" for s c p
    using that by (cases s) (auto simp: strip_prefix_def starts_with_def)
  ultimately have "strip_prefix k ''<<<'' = None" "strip_suffix k ''>>>'' = None"
    by (simp_all add: np strip_suffix_def)
  then show "normalize_contain k = k"
    using assms(2) by (simp add: normalize_contain_def Let_def)
qed

theorem menu_key_roundtrip_witness:
  "normalize_contain (fence ''workload/app/Deployment/web'') = ''workload/app/Deployment/web''"
proof -
  have "trim ''workload/app/Deployment/web'' = ''workload/app/Deployment/web''" by code_simp
  moreover have "set ''workload/app/Deployment/web'' \<inter> set STRUCTURE_CHARS = {}"
    by (simp add: STRUCTURE_CHARS_def LF_def CR_def)
  ultimately show ?thesis using menu_key_roundtrip by blast
qed

section \<open>A reply on which the parser panics\<close>

lemma find_char_Some: "find_char c s = Some i \<longleftrightarrow> (\<exists>a b. s = a @ c # b \<and> c \<notin> set a \<and> i = length a)"
proof -
  have hit: "takeWhile (\<lambda>x. x \<noteq> c) (a @ c # b) = a" if "c \<notin> set a" for a b
    using that by (induction a) auto
  show ?thesis
  proof
    assume "find_char c s = Some i"
    then have c: "c \<in> set s" "i = length (takeWhile (\<lambda>x. x \<noteq> c) s)"
      by (auto simp: find_char_def split: if_splits)
    obtain a b where "s = a @ c # b" "c \<notin> set a" using split_list_first [OF c(1)] by blast
    with c(2) hit show "\<exists>a b. s = a @ c # b \<and> c \<notin> set a \<and> i = length a" by metis
  qed (auto simp: find_char_def hit)
qed

lemma rfind_char_Some: "rfind_char c s = Some i \<longleftrightarrow> (\<exists>a b. s = a @ c # b \<and> c \<notin> set b \<and> i = length a)"
proof -
  have "rfind_char c s = Some i \<longleftrightarrow> (\<exists>b a. rev s = b @ c # a \<and> c \<notin> set b \<and> i = length s - 1 - length b)"
    by (auto simp: rfind_char_def find_char_Some)
  also have "\<dots> \<longleftrightarrow> (\<exists>a b. s = a @ c # b \<and> c \<notin> set b \<and> i = length a)"
  proof
    assume "\<exists>b a. rev s = b @ c # a \<and> c \<notin> set b \<and> i = length s - 1 - length b"
    then obtain b a where "rev s = b @ c # a" "c \<notin> set b" "i = length s - 1 - length b" by blast
    moreover from this(1) have "s = rev a @ c # rev b" by (metis append.assoc append_Cons append_Nil rev.simps(2) rev_append rev_rev_ident)
    ultimately show "\<exists>a b. s = a @ c # b \<and> c \<notin> set b \<and> i = length a"
      by (intro exI [of _ "rev a"] exI [of _ "rev b"]) simp
  next
    assume "\<exists>a b. s = a @ c # b \<and> c \<notin> set b \<and> i = length a"
    then obtain a b where "s = a @ c # b" "c \<notin> set b" "i = length a" by blast
    then show "\<exists>b a. rev s = b @ c # a \<and> c \<notin> set b \<and> i = length s - 1 - length b"
      by (intro exI [of _ "rev b"] exI [of _ "rev a"]) simp
  qed
  finally show ?thesis .
qed

definition reversed_braces :: "string \<Rightarrow> bool" where
  "reversed_braces reply \<longleftrightarrow>
     (\<exists>x y z. reply = x @ CHR ''}'' # y @ CHR ''{'' # z \<and> y \<noteq> [] \<and>
        CHR ''{'' \<notin> set x \<union> set y \<and> CHR ''}'' \<notin> set y \<union> set z)"

lemma extract_object_None: "extract_object from_str reply = None \<longleftrightarrow> reversed_braces reply"
proof
  assume "extract_object from_str reply = None"
  then obtain start stop where "find_char (CHR ''{'') reply = Some start"
    "rfind_char (CHR ''}'') reply = Some stop" and less: "Suc stop < start"
    by (auto simp: extract_object_def split: option.splits if_splits)
  then obtain p z q w where p: "reply = p @ CHR ''{'' # z" "CHR ''{'' \<notin> set p" "start = length p"
    and q: "reply = q @ CHR ''}'' # w" "CHR ''}'' \<notin> set w" "stop = length q"
    unfolding find_char_Some rfind_char_Some by blast
  have "take (Suc (length q)) p = q @ [CHR ''}'']"
    using arg_cong [OF trans [OF sym [OF p(1)] q(1)], of "take (Suc (length q))"] less p(3) q(3) by simp
  then obtain y where y: "p = q @ CHR ''}'' # y"
    by (metis append.assoc append_Cons append_Nil append_take_drop_id)
  then have "w = y @ CHR ''{'' # z" using p(1) q(1) by simp
  moreover have "y \<noteq> []" using y less p(3) q(3) by auto
  ultimately show "reversed_braces reply"
    unfolding reversed_braces_def using p q y by (intro exI [of _ q] exI [of _ y] exI [of _ z]) auto
next
  assume "reversed_braces reply"
  then obtain x y z where xyz: "reply = x @ CHR ''}'' # y @ CHR ''{'' # z" "y \<noteq> []"
    "CHR ''{'' \<notin> set x \<union> set y" "CHR ''}'' \<notin> set y \<union> set z"
    unfolding reversed_braces_def by blast
  have "find_char (CHR ''{'') reply = Some (length (x @ CHR ''}'' # y))"
    unfolding find_char_Some using xyz by (intro exI [of _ "x @ CHR ''}'' # y"] exI [of _ z]) auto
  moreover have "rfind_char (CHR ''}'') reply = Some (length x)"
    unfolding rfind_char_Some using xyz by (intro exI [of _ x] exI [of _ "y @ CHR ''{'' # z"]) auto
  ultimately show "extract_object from_str reply = None"
    using xyz(2) by (simp add: extract_object_def)
qed

text \<open>
  C31. The parser panics on exactly the replies whose last closing brace lies before the first opening
  brace with at least one byte between them, whatever the JSON parser and the menu; the reply made
  of a closing brace, a blank and an opening brace is one. On every other reply it returns a decision.
\<close>

theorem parse_panics_on_reversed_braces:
  "(parse_incident_decision from_str reply menu = None \<longleftrightarrow> reversed_braces reply) \<and>
   parse_incident_decision from_str ''} {'' menu = None"
proof -
  have none: "parse_incident_decision from_str r menu = None \<longleftrightarrow> reversed_braces r" for r
    using extract_object_None [of from_str r]
    by (auto simp: parse_incident_decision_def split: option.splits)
  have "reversed_braces ''} {''"
    unfolding reversed_braces_def by (intro exI [of _ "[]"] exI [of _ "'' ''"]) simp
  with none show ?thesis by blast
qed

end
