(* ===== verification/Asn.thy ===== *)
theory Asn
  imports Text Classify
begin

text \<open>
  The offline table that attributes an internet peer to its network provider
  (\<open>observe/asn.rs\<close>), and the collapsed egress line built from it (\<open>observe/peer_class.rs\<close>).
  Interning of the provider names shares memory only and is not part of the model.
\<close>

section \<open>The table\<close>

definition MAX_LINE_LEN :: nat where "MAX_LINE_LEN = 512"
definition MAX_ORG_LEN :: nat where "MAX_ORG_LEN = 128"

record asn_range =
  r_start :: u32
  r_end :: u32
  r_asn :: u32
  r_org :: string

type_synonym asn_db = "asn_range list"

definition asn_empty :: asn_db where
  "asn_empty = []"

definition asn_is_empty :: "asn_db \<Rightarrow> bool" where
  "asn_is_empty db \<longleftrightarrow> db = []"

record asn_hit =
  hit_asn :: u32
  hit_org :: string

text \<open>\<open>partition_point\<close> on a table sorted by start: the number of leading ranges that satisfy the test.\<close>

definition asn_lookup :: "asn_db \<Rightarrow> u32 \<Rightarrow> asn_hit option" where
  "asn_lookup db ip =
     (let idx = length (takeWhile (\<lambda>r. r_start r \<le> ip) db) in
      if idx = 0 then None
      else if idx - 1 < length db then
        (let r = db ! (idx - 1) in
         if ip \<le> r_end r then Some \<lparr>hit_asn = r_asn r, hit_org = r_org r\<rparr> else None)
      else None)"

definition bounded_org :: "string \<Rightarrow> string" where
  "bounded_org raw = char_take MAX_ORG_LEN (trim raw)"

definition trim_eol :: "string \<Rightarrow> string" where
  "trim_eol l = rev (dropWhile (\<lambda>c. c = CR \<or> c = LF) (rev l))"

definition parse_row :: "string \<Rightarrow> asn_range option" where
  "parse_row line =
     (let line = trim_eol line in
      if line = [] \<or> MAX_LINE_LEN < length line then None
      else (case split_on TAB line of
        start # stop # asn # country # org # rest \<Rightarrow>
          (case (parse_ipv4 (trim start), parse_ipv4 (trim stop), parse_uint (2 ^ 32 - 1) (trim asn)) of
             (Some start, Some stop, Some asn) \<Rightarrow>
               if stop < start \<or> asn = 0 then None
               else (let org = bounded_org org in
                     if org = [] then None
                     else Some \<lparr>r_start = start, r_end = stop, r_asn = word_of_nat asn, r_org = org\<rparr>)
           | _ \<Rightarrow> None)
      | _ \<Rightarrow> None))"

definition asn_parse :: "string \<Rightarrow> asn_db" where
  "asn_parse contents = sort_key r_start (List.map_filter parse_row (lines contents))"

section \<open>The egress line\<close>

definition INTERNET_EGRESS_PREFIX :: string where
  "INTERNET_EGRESS_PREFIX = ''INTERNET egress: ''"

definition attribute_internet_peer :: "string \<Rightarrow> asn_db \<Rightarrow> string" where
  "attribute_internet_peer peer asn =
     (case Option.bind (Option.bind (raw_peer_host peer) parse_ipv4) (asn_lookup asn) of
        Some hit \<Rightarrow> hit_org hit @ '' [AS'' @ show_nat (unat (hit_asn hit)) @ '']''
      | None \<Rightarrow> peer)"

definition internet_egress_line :: "string list \<Rightarrow> asn_db \<Rightarrow> string option" where
  "internet_egress_line peers asn =
     (let providers = bs_of_list (map (\<lambda>peer. attribute_internet_peer peer asn) peers) in
      if providers = [] then None
      else Some (INTERNET_EGRESS_PREFIX @ join '', '' providers))"

section \<open>Lookup is membership\<close>

text \<open>
  \<open>asn_ok\<close>: sorted by start, no range inverted. The public dataset documents its ranges as disjoint:
  \<open>disjoint_ranges\<close>.
\<close>

definition asn_ok :: "asn_db \<Rightarrow> bool" where
  "asn_ok db \<longleftrightarrow> sorted (map r_start db) \<and> (\<forall>r\<in>set db. r_start r \<le> r_end r \<and> r_asn r \<noteq> 0 \<and> r_org r \<noteq> [])"

definition covers :: "asn_range \<Rightarrow> u32 \<Rightarrow> bool" where
  "covers r ip \<longleftrightarrow> r_start r \<le> ip \<and> ip \<le> r_end r"

definition disjoint_ranges :: "asn_db \<Rightarrow> bool" where
  "disjoint_ranges db \<longleftrightarrow> sorted_wrt (\<lambda>r s. r_end r < r_start s) db"

lemma decimal_bound:
  assumes "parse_uint n s = Some k"
  shows "k \<le> n"
  using assms by (auto simp: parse_uint_def Let_def split: if_splits)

lemma parse_row_ok:
  assumes "parse_row l = Some r"
  shows "r_start r \<le> r_end r \<and> r_asn r \<noteq> 0 \<and> r_org r \<noteq> [] \<and> char_count (r_org r) \<le> MAX_ORG_LEN"
proof -
  have nz: "(word_of_nat k :: u32) \<noteq> 0" if "parse_uint (2 ^ 32 - 1) t = Some k" "k \<noteq> 0" for t k
    using decimal_bound [OF that(1)] that(2) by (simp add: word_of_nat_eq_0_iff nat_dvd_not_less)
  show ?thesis
    using assms nz
    by (auto simp: parse_row_def bounded_org_def Let_def not_less split: if_splits list.splits option.splits)
qed

lemma asn_parse_ok: "asn_ok (asn_parse contents)"
  using parse_row_ok by (fastforce simp: asn_ok_def asn_parse_def set_map_filter)

lemma asn_lookup_Nil: "asn_lookup [] ip = None"
  by (simp add: asn_lookup_def)

lemma asn_lookup_Cons:
  "asn_lookup (r # db) ip =
     (if r_start r \<le> ip then
        if db = [] \<or> \<not> r_start (hd db) \<le> ip
        then if ip \<le> r_end r then Some \<lparr>hit_asn = r_asn r, hit_org = r_org r\<rparr> else None
        else asn_lookup db ip
      else None)"
  by (cases db) (auto simp: asn_lookup_def Let_def)

definition hit_of :: "asn_range \<Rightarrow> asn_hit" where
  "hit_of r = \<lparr>hit_asn = r_asn r, hit_org = r_org r\<rparr>"

lemma find_none_above:
  assumes "\<forall>s\<in>set db. ip < r_start s"
  shows "find (\<lambda>r. covers r ip) db = None"
  using assms by (auto simp: find_None_iff covers_def)

text \<open>
  Attribution is exact: the table parsed from any text is sorted, has no inverted range, no
  unrouted sentinel and no empty provider name; and on a table whose ranges are disjoint, as the
  dataset documents, the binary search returns the provider of the range that contains
  the address, and nothing when no range contains it.
\<close>

theorem asn_lookup_exact:
  assumes "asn_ok db" "disjoint_ranges db"
  shows "asn_ok (asn_parse contents) \<and>
    asn_lookup db ip = map_option hit_of (find (\<lambda>r. covers r ip) db)"
proof
  show "asn_lookup db ip = map_option hit_of (find (\<lambda>r. covers r ip) db)"
    using assms
  proof (induction db)
    case (Cons r db)
    have later: "\<forall>s\<in>set db. r_end r < r_start s" "r_start r \<le> r_end r"
      using Cons.prems by (simp_all add: disjoint_ranges_def asn_ok_def)
    have IH: "asn_lookup db ip = map_option hit_of (find (\<lambda>r. covers r ip) db)"
      using Cons by (simp add: disjoint_ranges_def asn_ok_def)
    have first: "\<forall>s\<in>set db. ip < r_start s" if "db = [] \<or> \<not> r_start (hd db) \<le> ip"
      using that Cons.prems by (cases db) (auto simp: asn_ok_def)
    have above: "\<forall>s\<in>set db. ip < r_start s" if "ip \<le> r_end r"
      using that later(1) by (meson order_le_less_trans)
    consider "\<not> r_start r \<le> ip" | "covers r ip" | "r_start r \<le> ip" "\<not> ip \<le> r_end r"
      by (auto simp: covers_def)
    then show ?case
    proof cases
      case 1
      then have "ip \<le> r_end r" using later(2) by simp
      with 1 show ?thesis
        using find_none_above [OF above] by (simp add: asn_lookup_Cons covers_def)
    next
      case 2
      then show ?thesis
        using above by (cases db) (auto simp: asn_lookup_Cons covers_def hit_of_def)
    next
      case 3
      show ?thesis
      proof (cases "db = [] \<or> \<not> r_start (hd db) \<le> ip")
        case True
        then show ?thesis using 3 find_none_above [OF first [OF True]]
          by (auto simp: asn_lookup_Cons covers_def)
      next
        case False
        then show ?thesis using 3 IH by (simp add: asn_lookup_Cons covers_def)
      qed
    qed
  qed (simp add: asn_lookup_Nil)
qed (rule asn_parse_ok)

definition sample_db :: asn_db where
  "sample_db =
     [\<lparr>r_start = 16777216, r_end = 16777471, r_asn = 13335, r_org = ''CLOUDFLARENET''\<rparr>,
      \<lparr>r_start = 134744064, r_end = 134744319, r_asn = 15169, r_org = ''GOOGLE''\<rparr>]"

theorem asn_lookup_exact_witness:
  "asn_lookup sample_db 134744072 = Some \<lparr>hit_asn = 15169, hit_org = ''GOOGLE''\<rparr>"
proof -
  have "disjoint_ranges sample_db" "asn_ok sample_db"
    by (simp_all add: sample_db_def disjoint_ranges_def asn_ok_def)
  then have "asn_lookup sample_db 134744072 =
      map_option hit_of (find (\<lambda>r. covers r 134744072) sample_db)"
    using asn_lookup_exact by blast
  then show ?thesis by (simp add: sample_db_def covers_def hit_of_def)
qed

end
