(* ===== verification/Judge.thy ===== *)
theory Judge
  imports Menu Evidence Example
begin

text \<open>
  The grounding guards of an incident decision (\<open>reason/adjudicate/incident/guards.rs\<close>) and the
  model-backed judge that chains them (\<open>reason/adjudicate/model_call.rs\<close>). The model is a parameter:
  \<open>chat i\<close> is the reply to the \<open>i\<close>-th request of this judgement, \<open>None\<close> when the transport fails.
  The diagnostic record of a judgement does not influence it and is not modelled.
\<close>

section \<open>Guards\<close>

definition node_evidence ::
  "'g petgraph \<Rightarrow> 'g security_graph \<Rightarrow> node_key \<Rightarrow> string list \<times> behavior list \<times> bool" where
  "node_evidence P sg node =
     (case entry_evidence_lines P sg node of (cves, behaviors) \<Rightarrow>
        (case entry_findings_lines P sg node of (secret_lines, posture) \<Rightarrow>
           (cves, behaviors, secret_lines \<noteq> [])))"

definition node_has_grounding :: "'g petgraph \<Rightarrow> 'g security_graph \<Rightarrow> node_key \<Rightarrow> bool" where
  "node_has_grounding P sg node \<longleftrightarrow>
     (case reachable_cve_lines P sg node of (cves, bs) \<Rightarrow>
        (case node_evidence P sg node of (full_cves, behaviors, has_secret) \<Rightarrow>
           cves \<noteq> [] \<or> has_secret \<or> behaviors \<noteq> []))"

definition UNGROUNDED :: string where
  "UNGROUNDED =
     ''a contained downstream node carries no exploitation evidence in its own evidence '' @
     ''block (fabricated containment grounding)''"

definition guard_containment_grounding ::
  "'g petgraph \<Rightarrow> 'g security_graph \<Rightarrow> node_key \<Rightarrow> incident_decision \<Rightarrow> incident_decision" where
  "guard_containment_grounding P sg entry d =
     (if d_cuts d = [] then d
      else if list_ex (\<lambda>c. cc_node c \<noteq> entry \<and> \<not> node_has_grounding P sg (cc_node c)) (d_cuts d)
           then uncertain UNGROUNDED
           else d)"

definition guard_fabrication ::
  "'g petgraph \<Rightarrow> 'g security_graph \<Rightarrow> node_key \<Rightarrow> node_key list \<Rightarrow> incident_decision \<Rightarrow> incident_decision" where
  "guard_fabrication P sg entry downstream d =
     (if d_assessment d \<noteq> Attack then d
      else (let nodes = entry # downstream;
                cves = concat (map (\<lambda>n. fst (node_evidence P sg n)) nodes);
                evidence_has_loaded = list_ex (\<lambda>n. fst (reachable_cve_lines P sg n) \<noteq> []) nodes;
                v = guard_fabricated_cve (Exploitable (d_reason d)) (cve_ids_of cves);
                v = guard_fabricated_reachability_tag v evidence_has_loaded
            in case v of Unsure reason \<Rightarrow> uncertain reason | _ \<Rightarrow> d))"

definition INCONSISTENT :: string where
  "INCONSISTENT = ''assessment/cuts inconsistency: a non-attack assessment named cuts''"

definition guard_assessment_cuts_consistency :: "incident_decision \<Rightarrow> incident_decision" where
  "guard_assessment_cuts_consistency d =
     (if d_assessment d = Attack \<or> d_cuts d = [] then d else uncertain INCONSISTENT)"

fun to_verdict :: "incident_decision \<Rightarrow> verdict" where
  "to_verdict d =
     (case d_assessment d of
        Attack \<Rightarrow> Exploitable (d_reason d)
      | NoAttack \<Rightarrow> Refuted (d_reason d)
      | Uncertain \<Rightarrow> Unsure (d_reason d))"

section \<open>The judge\<close>

definition downstream_backstop_evidence ::
  "'g petgraph \<Rightarrow> 'g security_graph \<Rightarrow> node_key list \<Rightarrow> string list \<times> bool \<times> behavior list" where
  "downstream_backstop_evidence P sg downstream =
     (concat (map (\<lambda>n. fst (reachable_cve_lines P sg n)) downstream),
      list_ex (\<lambda>n. fst (entry_findings_lines P sg n) \<noteq> []) downstream,
      concat (map (\<lambda>n. snd (reachable_cve_lines P sg n)) downstream))"

definition guard_zero_anchor ::
  "string list \<Rightarrow> behavior list \<Rightarrow> bool \<Rightarrow> incident_decision \<Rightarrow> incident_decision" where
  "guard_zero_anchor cves behaviors has_exposed_secret d =
     (if d_assessment d \<noteq> Attack then d
      else (case guard_unsupported_exploitable (Exploitable (d_reason d)) cves behaviors has_exposed_secret of
              Refuted reason \<Rightarrow> \<lparr>d_assessment = NoAttack, d_reason = reason, d_cuts = []\<rparr>
            | _ \<Rightarrow> d))"

text \<open>One re-ask of a reply without any JSON object; \<open>None\<close> of the outer option is a panic.\<close>

definition chat_with_retry ::
  "(string \<Rightarrow> json option) \<Rightarrow> (nat \<Rightarrow> string option) \<Rightarrow> string option option" where
  "chat_with_retry from_str chat =
     (case chat 0 of
        None \<Rightarrow> Some None
      | Some reply \<Rightarrow>
          (case is_hard_parse_failure from_str reply of
             None \<Rightarrow> None
           | Some False \<Rightarrow> Some (Some reply)
           | Some True \<Rightarrow>
               (case chat 1 of
                  None \<Rightarrow> Some (Some reply)
                | Some retry_reply \<Rightarrow>
                    (case is_hard_parse_failure from_str retry_reply of
                       None \<Rightarrow> None
                     | Some False \<Rightarrow> Some (Some retry_reply)
                     | Some True \<Rightarrow> Some (Some reply)))))"

definition judge ::
  "'g petgraph \<Rightarrow> (string \<Rightarrow> json option) \<Rightarrow> (nat \<Rightarrow> string option) \<Rightarrow> node_key \<Rightarrow> 'g security_graph \<Rightarrow>
     node_key list \<Rightarrow> menu \<Rightarrow> incident_decision option" where
  "judge P from_str chat entry sg downstream menu =
     (case entry_evidence_lines P sg entry of (cves, behaviors) \<Rightarrow>
      (case entry_findings_lines P sg entry of (secret_lines, posture_lines) \<Rightarrow>
      (case downstream_backstop_evidence P sg downstream of (d_cves, d_secret, d_behaviors) \<Rightarrow>
         (let cves = cves @ d_cves;
              has_exposed_secret = (secret_lines \<noteq> [] \<or> d_secret);
              behaviors = behaviors @ d_behaviors
          in case chat_with_retry from_str chat of
               None \<Rightarrow> None
             | Some None \<Rightarrow> Some (uncertain ''model unavailable'')
             | Some (Some reply) \<Rightarrow>
                 map_option
                   (\<lambda>d. guard_zero_anchor cves behaviors has_exposed_secret
                         (guard_assessment_cuts_consistency
                           (guard_fabrication P sg entry downstream
                             (guard_containment_grounding P sg entry d))))
                   (parse_incident_decision from_str reply menu)))))"

section \<open>What an attack decision rests on\<close>

lemma uncertain_simps [simp]:
  "d_assessment (uncertain r) = Uncertain" "d_cuts (uncertain r) = []" "d_reason (uncertain r) = r"
  by (simp_all add: uncertain_def)

lemma grounding_cases:
  "guard_containment_grounding P sg entry d =
     (if \<forall>c\<in>set (d_cuts d). cc_node c = entry \<or> node_has_grounding P sg (cc_node c) then d
      else uncertain UNGROUNDED)"
  by (auto simp: guard_containment_grounding_def list_ex_iff)

definition evidence_ids :: "'g petgraph \<Rightarrow> 'g security_graph \<Rightarrow> node_key list \<Rightarrow> string set" where
  "evidence_ids P sg nodes = cve_ids_of (concat (map (\<lambda>n. fst (node_evidence P sg n)) nodes))"

definition some_loaded :: "'g petgraph \<Rightarrow> 'g security_graph \<Rightarrow> node_key list \<Rightarrow> bool" where
  "some_loaded P sg nodes \<longleftrightarrow> (\<exists>n\<in>set nodes. \<exists>v\<in>set (fst (entry_evidence P sg n)). v_reachability v = LoadedAtRuntime)"

lemma reachable_lines_iff:
  "fst (reachable_cve_lines P sg n) \<noteq> [] \<longleftrightarrow>
     (\<exists>v\<in>set (fst (entry_evidence P sg n)). v_reachability v = LoadedAtRuntime)"
proof -
  obtain vs bs where e: "entry_evidence P sg n = (vs, bs)" by fastforce
  let ?ds = "dedup_worst_per_id (filter is_loaded_at_runtime vs)"
  have "length (fst (reachable_cve_lines P sg n)) = length ?ds"
    using length_thread [of cve_evidence_budgeted ?ds ENTRY_FREETEXT_BUDGET]
    by (auto simp: reachable_cve_lines_def reachable_cve_lines_budgeted_def e split: prod.splits)
  moreover have "v_id ` set ?ds = v_id ` set (filter is_loaded_at_runtime vs)"
    by (simp add: dedup_worst_per_id_def dedup_worst_ids)
  ultimately have "fst (reachable_cve_lines P sg n) \<noteq> [] \<longleftrightarrow> filter is_loaded_at_runtime vs \<noteq> []"
    by (metis image_is_empty length_0_conv set_empty)
  then show ?thesis by (simp add: e filter_empty_conv is_loaded_at_runtime_def)
qed

lemma fabrication_attack:
  assumes "d_assessment (guard_fabrication P sg entry downstream d) = Attack"
  shows "guard_fabrication P sg entry downstream d = d \<and>
    cites_only (d_reason d) (evidence_ids P sg (entry # downstream)) \<and>
    (claims_loaded (d_reason d) \<longrightarrow> some_loaded P sg (entry # downstream))"
proof -
  let ?ids = "evidence_ids P sg (entry # downstream)"
  have a: "d_assessment d = Attack"
    using assms by (auto simp: guard_fabrication_def Let_def split: verdict.splits if_splits)
  have loaded: "list_ex (\<lambda>n. fst (reachable_cve_lines P sg n) \<noteq> []) (entry # downstream) \<longleftrightarrow>
      some_loaded P sg (entry # downstream)"
    by (simp only: list_ex_iff reachable_lines_iff some_loaded_def)
  have eq: "guard_fabrication P sg entry downstream d =
      (case guard_fabricated_reachability_tag (guard_fabricated_cve (Exploitable (d_reason d)) ?ids)
              (some_loaded P sg (entry # downstream)) of
         Unsure reason \<Rightarrow> uncertain reason | _ \<Rightarrow> d)"
    unfolding guard_fabrication_def Let_def loaded evidence_ids_def using a by simp
  show ?thesis
  proof (cases "cites_only (d_reason d) ?ids")
    case True
    then have "guard_fabricated_cve (Exploitable (d_reason d)) ?ids = Exploitable (d_reason d)"
      using guard_fabricated_cve_cases by blast
    with True assms show ?thesis
      unfolding eq by (auto simp: guard_fabricated_reachability_tag_eq split: if_splits)
  next
    case False
    then obtain r where "guard_fabricated_cve (Exploitable (d_reason d)) ?ids = Unsure r"
      using guard_fabricated_cve_cases by blast
    with assms show ?thesis unfolding eq by simp
  qed
qed

lemma zero_anchor_attack:
  assumes "d_assessment (guard_zero_anchor cves bs secret d) = Attack"
  shows "guard_zero_anchor cves bs secret d = d \<and>
    (cves \<noteq> [] \<or> secret \<or> (\<exists>b\<in>set bs. is_alarming_now b))"
  using assms by (auto simp: guard_zero_anchor_def guard_unsupported_exploitable_eq split: if_splits)

lemma consistency_attack:
  "d_assessment (guard_assessment_cuts_consistency d) = Attack \<Longrightarrow> guard_assessment_cuts_consistency d = d"
  by (auto simp: guard_assessment_cuts_consistency_def split: if_splits)

text \<open>
  The three anchors of an attack: a vulnerability of the entry or one of a downstream workload seen
  loading, an exposed secret, an alarming behavior.
\<close>

definition anchored :: "'g petgraph \<Rightarrow> 'g security_graph \<Rightarrow> node_key \<Rightarrow> node_key list \<Rightarrow> bool" where
  "anchored P sg entry downstream \<longleftrightarrow>
     fst (entry_evidence_lines P sg entry) \<noteq> [] \<or> some_loaded P sg downstream \<or>
     (\<exists>n\<in>set (entry # downstream). fst (entry_findings_lines P sg n) \<noteq> []) \<or>
     (\<exists>n\<in>set (entry # downstream). \<exists>b\<in>set (snd (entry_evidence P sg n)). is_alarming_now b)"

lemma lines_behaviors:
  "snd (entry_evidence_lines P sg n) = snd (entry_evidence P sg n)"
  "snd (reachable_cve_lines P sg n) = snd (entry_evidence P sg n)"
  by (simp_all add: entry_evidence_lines_def entry_evidence_budgeted_def sorted_deduped_vulns_def
      reachable_cve_lines_def reachable_cve_lines_budgeted_def split: prod.splits)

definition judge_guards ::
  "'g petgraph \<Rightarrow> 'g security_graph \<Rightarrow> node_key \<Rightarrow> node_key list \<Rightarrow> incident_decision \<Rightarrow> incident_decision" where
  "judge_guards P sg entry downstream d =
     guard_zero_anchor
       (fst (entry_evidence_lines P sg entry) @ fst (downstream_backstop_evidence P sg downstream))
       (snd (entry_evidence_lines P sg entry) @ snd (snd (downstream_backstop_evidence P sg downstream)))
       (fst (entry_findings_lines P sg entry) \<noteq> [] \<or> fst (snd (downstream_backstop_evidence P sg downstream)))
       (guard_assessment_cuts_consistency
         (guard_fabrication P sg entry downstream (guard_containment_grounding P sg entry d)))"

lemma judge_eq:
  "judge P from_str chat entry sg downstream menu =
     (case chat_with_retry from_str chat of
        None \<Rightarrow> None
      | Some None \<Rightarrow> Some (uncertain ''model unavailable'')
      | Some (Some reply) \<Rightarrow>
          map_option (judge_guards P sg entry downstream) (parse_incident_decision from_str reply menu))"
proof -
  obtain a b c d where ab: "entry_evidence_lines P sg entry = (a, b)" "entry_findings_lines P sg entry = (c, d)"
    by fastforce
  obtain x y z where xyz: "downstream_backstop_evidence P sg downstream = (x, y, z)"
    by (metis prod_cases3)
  have g: "judge_guards P sg entry downstream = (\<lambda>d. guard_zero_anchor (a @ x) (b @ z) (c \<noteq> [] \<or> y)
      (guard_assessment_cuts_consistency
        (guard_fabrication P sg entry downstream (guard_containment_grounding P sg entry d))))"
    by (intro ext) (simp add: judge_guards_def ab xyz)
  show ?thesis unfolding g by (simp only: judge_def Let_def ab xyz prod.case)
qed

lemma judge_guards_attack:
  assumes "d_assessment (judge_guards P sg entry downstream d) = Attack"
  shows "judge_guards P sg entry downstream d = d \<and>
    (\<forall>c\<in>set (d_cuts d). cc_node c = entry \<or> node_has_grounding P sg (cc_node c)) \<and>
    cites_only (d_reason d) (evidence_ids P sg (entry # downstream)) \<and>
    (claims_loaded (d_reason d) \<longrightarrow> some_loaded P sg (entry # downstream)) \<and>
    anchored P sg entry downstream"
proof -
  let ?g = "guard_containment_grounding P sg entry d"
  let ?f = "guard_fabrication P sg entry downstream ?g"
  let ?c = "guard_assessment_cuts_consistency ?f"
  have z: "judge_guards P sg entry downstream d = ?c"
    and anchor: "anchored P sg entry downstream"
    using zero_anchor_attack [OF assms [unfolded judge_guards_def]]
    by (auto simp: judge_guards_def anchored_def downstream_backstop_evidence_def some_loaded_def
        reachable_lines_iff lines_behaviors list_ex_iff)
  have c: "?c = ?f" using assms consistency_attack unfolding z by blast
  have f: "?f = ?g" "cites_only (d_reason ?g) (evidence_ids P sg (entry # downstream))"
    "claims_loaded (d_reason ?g) \<longrightarrow> some_loaded P sg (entry # downstream)"
    using fabrication_attack [of P sg entry downstream ?g] assms unfolding z c by blast+
  have "d_assessment ?g = Attack" using assms unfolding z c unfolding f(1) .
  then have "?g = d" "\<forall>c\<in>set (d_cuts d). cc_node c = entry \<or> node_has_grounding P sg (cc_node c)"
    unfolding grounding_cases by (auto split: if_splits)
  with z c f anchor show ?thesis by simp
qed

lemma judge_guards_cuts:
  assumes "d_cuts d \<noteq> [] \<longrightarrow> d_assessment d = Attack"
  shows "d_cuts (judge_guards P sg entry downstream d) \<noteq> [] \<longrightarrow>
    d_assessment (judge_guards P sg entry downstream d) = Attack"
  by (auto simp: judge_guards_def guard_zero_anchor_def guard_assessment_cuts_consistency_def
      split: verdict.splits)

text \<open>
  C8. Whatever the model replies, an attack decision of the judge names only cuts of the menu, every
  cut workload other than the entry shows exploitation evidence of its own, every CVE identifier that the
  engine recognises in its reason is in the evidence of the entry or of a downstream workload, a claim that
  something loaded at runtime is backed by a vulnerability observed loading, and some anchor of an
  attack is present; a decision that is not an attack cuts nothing.
\<close>

theorem judged_attack_is_grounded:
  assumes "menu_ok menu" "judge P from_str chat entry sg downstream menu = Some d"
  shows "(d_assessment d \<noteq> Attack \<longrightarrow> d_cuts d = []) \<and>
    (d_assessment d = Attack \<longrightarrow>
       (\<forall>c\<in>set (d_cuts d). resolve menu (cc_node c) = Some c \<and>
          (cc_node c = entry \<or> node_has_grounding P sg (cc_node c))) \<and>
       cites_only (d_reason d) (evidence_ids P sg (entry # downstream)) \<and>
       (claims_loaded (d_reason d) \<longrightarrow> some_loaded P sg (entry # downstream)) \<and>
       anchored P sg entry downstream)"
proof (cases "d = uncertain ''model unavailable''")
  case False
  then obtain reply d0 where d0: "parse_incident_decision from_str reply menu = Some d0"
    "d = judge_guards P sg entry downstream d0"
    using assms(2) by (auto simp: judge_eq split: option.splits)
  have "d_cuts d0 \<noteq> [] \<longrightarrow> d_assessment d0 = Attack"
    "\<forall>c\<in>set (d_cuts d0). resolve menu (cc_node c) = Some c"
    using parsed_reply [OF assms(1) d0(1)] by auto
  then show ?thesis
    using judge_guards_cuts [of d0 P sg entry downstream] judge_guards_attack [of P sg entry downstream d0]
    unfolding d0(2) by auto
qed simp

definition web_menu :: menu where
  "web_menu =
     (let lk = \<lparr>l_from = ''workload/app/Deployment/web'', l_to = ''workload/app/Deployment/web'',
                l_relation = QUARANTINE_RELATION, l_technique = None, from_labels = [(''app'', ''web'')],
                to_labels = []\<rparr>
      in \<lparr>selectable = [\<lparr>ml_node = ''workload/app/Deployment/web'', ml_action = QuarantineEntry,
            ml_cut = lk, ml_cut_signature = cut_signature lk, ml_blast_note = []\<rparr>],
          uncontainable = []\<rparr>)"

definition web_reply :: "nat \<Rightarrow> string option" where
  "web_reply i = Some (if i = 0 then ''no answer'' else [CHR 0x7B, CHR 0x7D])"

theorem judged_attack_is_grounded_witness:
  "\<exists>d. judge adj_ops (\<lambda>s. if s = [CHR 0x7B, CHR 0x7D] then Some sample_object else None) web_reply
          ''workload/app/Deployment/web'' ex_sg [] web_menu = Some d \<and>
     d_assessment d = Attack \<and> map cc_action (d_cuts d) = [QuarantineEntry] \<and>
     anchored adj_ops ex_sg ''workload/app/Deployment/web'' []"
proof -
  let ?j = "judge adj_ops (\<lambda>s. if s = [CHR 0x7B, CHR 0x7D] then Some sample_object else None) web_reply
          ''workload/app/Deployment/web'' ex_sg [] web_menu"
  have "map_option (\<lambda>d. (d_assessment d, map cc_action (d_cuts d))) ?j = Some (Attack, [QuarantineEntry])"
    by code_simp
  then obtain d where d: "?j = Some d" "d_assessment d = Attack" "map cc_action (d_cuts d) = [QuarantineEntry]"
    by auto
  have "menu_ok web_menu" by (simp add: menu_ok_def web_menu_def Let_def)
  from judged_attack_is_grounded [OF this d(1)] d(2) have "anchored adj_ops ex_sg ''workload/app/Deployment/web'' []"
    by (elim conjE) (drule mp, assumption, elim conjE)
  with d show ?thesis by (intro exI [of _ d] conjI)
qed

end
