(* ===== verification/Prompt.thy ===== *)
theory Prompt
  imports Prompt_Text Menu Evidence Render Example
begin

text \<open>
  The judge's prompt (\<open>reason/adjudicate/prompt.rs\<close>): the rendered evidence of one entry, the fixed
  instruction text around it, the section describing what is new since the last decisive verdict, and
  the cache key of the full state. SHA-256 is a third-party function, the parameter \<open>sha\<close> from bytes
  to the digest bytes. The prompt builders that no live path calls (without a menu or without
  downstream workloads) are this one at empty arguments and are not repeated; \<open>parse_verdict\<close> has no
  caller but tests.
\<close>

section \<open>Digests\<close>

type_synonym sha = "string \<Rightarrow> string"

definition hex_digest :: "sha \<Rightarrow> string \<Rightarrow> nat \<Rightarrow> string" where
  "hex_digest sha bytes bytes_of_digest =
     concat (map (\<lambda>b. hex_fixed 2 (of_char b)) (take bytes_of_digest (sha bytes)))"

definition prompt_cache_key :: "sha \<Rightarrow> string \<Rightarrow> string" where
  "prompt_cache_key sha prompt = hex_digest sha prompt 32"

definition section_hash_str :: "sha \<Rightarrow> string \<Rightarrow> string" where
  "section_hash_str sha rendered = hex_digest sha rendered 6"

definition section_hash :: "sha \<Rightarrow> string list \<Rightarrow> string" where
  "section_hash sha ls = section_hash_str sha (join [LF] ls)"

definition chain_shape_hash :: "sha \<Rightarrow> (node_key \<times> attack_ref) list \<Rightarrow> string" where
  "chain_shape_hash sha objectives =
     section_hash_str sha (join '','' (bs_of_list (map (\<lambda>oa. technique_id (snd oa)) objectives)))"

record prompt_sections =
  ps_runtime :: string
  ps_cves :: string
  ps_secrets :: string
  ps_posture :: string
  ps_objectives :: string
  ps_entry :: string

section \<open>Evidence\<close>

record rendered_evidence =
  ev_cves :: "string list"
  ev_behavior_lines :: "string list"
  ev_objective_lines :: "string list"
  ev_secret_lines :: "string list"
  ev_posture_lines :: "string list"
  ev_downstream :: downstream_rendered

definition objective_line ::
  "'g petgraph \<Rightarrow> 'g security_graph \<Rightarrow> node_key \<Rightarrow> node_key \<times> attack_ref \<Rightarrow> string" where
  "objective_line P sg entry oa =
     (case oa of (k, a) \<Rightarrow>
        (let reach = objective_reach P sg k;
             tenant = (if reach = ''NETWORK'' then '' ['' @ ns_marker entry k @ '']'' else [])
         in ''  - '' @ sanitize k @ '' ['' @ reach @ '']'' @ tenant @ '' ('' @ objective_outcome reach a @ '')''))"

definition render_evidence ::
  "'g petgraph \<Rightarrow> 'g security_graph \<Rightarrow> node_key \<Rightarrow> (node_key \<times> attack_ref) list \<Rightarrow> string list \<Rightarrow>
     behavior list \<Rightarrow> asn_db \<Rightarrow> node_key list \<Rightarrow> rendered_evidence" where
  "render_evidence P sg entry objectives cves behaviors asn downstream =
     (case entry_findings_lines P sg entry of (secret_lines, posture_lines) \<Rightarrow>
        \<lparr>ev_cves = bs_of_list cves,
         ev_behavior_lines = render_behavior_lines behaviors asn,
         ev_objective_lines = map (objective_line P sg entry) objectives,
         ev_secret_lines = secret_lines,
         ev_posture_lines = posture_lines,
         ev_downstream = render_downstream P sg downstream asn\<rparr>)"

section \<open>Assembly\<close>

definition downstream_text :: "downstream_rendered \<Rightarrow> string" where
  "downstream_text d = (if dr_blocks d = [] then ''  (none)'' else join [LF] (dr_blocks d))"

definition assemble_prompt :: "node_key \<Rightarrow> rendered_evidence \<Rightarrow> string \<Rightarrow> string \<Rightarrow> string" where
  "assemble_prompt entry ev changes_block menu_text =
     PROMPT_0 @ BENIGN_OWN_ACTIVITY_TAG @ PROMPT_1 @ fence entry @ PROMPT_2 @
     fence_list (ev_cves ev) @ PROMPT_3 @ fence_list (ev_secret_lines ev) @ PROMPT_4 @
     fence_list (ev_behavior_lines ev) @ PROMPT_5 @ fence_list (ev_posture_lines ev) @ PROMPT_6 @
     join [LF] (ev_objective_lines ev) @ changes_block @ PROMPT_8 @
     downstream_text (ev_downstream ev) @ PROMPT_9 @ menu_text @ PROMPT_10"

definition sections_of :: "sha \<Rightarrow> node_key \<Rightarrow> rendered_evidence \<Rightarrow> prompt_sections" where
  "sections_of sha entry ev =
     \<lparr>ps_runtime = section_hash sha (ev_behavior_lines ev), ps_cves = section_hash sha (ev_cves ev),
      ps_secrets = section_hash sha (ev_secret_lines ev), ps_posture = section_hash sha (ev_posture_lines ev),
      ps_objectives = section_hash_str sha (join [LF] (ev_objective_lines ev)),
      ps_entry = section_hash_str sha entry\<rparr>"

definition render_changes_block :: "changes_since \<Rightarrow> string" where
  "render_changes_block changes =
     CHANGES_0 @ BENIGN_OWN_ACTIVITY_TAG @ CHANGES_1 @ fence_list (rendered_lines changes)"

record delta_build =
  db_prompt :: string
  db_cache_key :: string
  db_sections :: prompt_sections
  db_surface :: judged_surface
  db_additive :: bool

definition build_delta_prompt ::
  "'g petgraph \<Rightarrow> sha \<Rightarrow> 'g security_graph \<Rightarrow> asn_db \<Rightarrow> node_key \<Rightarrow> (node_key \<times> attack_ref) list \<Rightarrow>
     judged_surface option \<Rightarrow> node_key list \<Rightarrow> menu \<Rightarrow> delta_build" where
  "build_delta_prompt P sha sg asn entry objectives baseline downstream menu =
     (case reachable_cve_lines P sg entry of (cves, behaviors) \<Rightarrow>
        (let ev = render_evidence P sg entry objectives cves behaviors asn downstream;
             surface = from_lines (ev_objective_lines ev) (ev_cves ev) (ev_secret_lines ev)
                         (ev_posture_lines ev) (ev_behavior_lines ev) (dr_surface_lines (ev_downstream ev));
             changes = additions_since surface baseline
         in \<lparr>db_prompt = assemble_prompt entry ev (render_changes_block changes) (render_menu menu),
             db_cache_key = prompt_cache_key sha (assemble_prompt entry ev [] (render_menu menu)),
             db_sections = sections_of sha entry ev,
             db_surface = surface,
             db_additive = (baseline = None \<or> \<not> changes_is_empty changes)\<rparr>))"

section \<open>Untrusted text adds no line\<close>

definition newlines :: "string \<Rightarrow> nat" where
  "newlines s = count_list s LF"

lemma newlines_append [simp]: "newlines (a @ b) = newlines a + newlines b"
  by (simp add: newlines_def)

lemma newlines_Nil [simp]: "newlines [] = 0"
  by (simp add: newlines_def)

lemma newlines_Cons: "newlines (c # s) = (if c = LF then Suc (newlines s) else newlines s)"
  by (simp add: newlines_def)

lemmas newlines_text = newlines_Cons LF_def em_dash_def

lemma newlines_plain: "LF \<notin> set s \<Longrightarrow> newlines s = 0"
  by (simp add: newlines_def count_list_0_iff)

lemma newlines_join: "newlines (join [LF] ls) = (length ls - 1) + sum_list (map newlines ls)"
proof (induction ls)
  case (Cons x xs)
  then show ?case by (cases xs) (simp_all add: join_Cons newlines_def)
qed simp

lemma newlines_joined_plain: "\<forall>l\<in>set ls. newlines l = 0 \<Longrightarrow> newlines (join [LF] ls) = length ls - 1"
  by (simp add: newlines_join)

lemma newlines_sanitize [simp]: "newlines (sanitize s) = 0"
  by (rule newlines_plain) (use sanitize_clean in \<open>auto simp: STRUCTURE_CHARS_def\<close>)

lemma newlines_fence [simp]: "newlines (fence s) = 0"
proof (rule newlines_plain)
  have "LF \<notin> set (sanitize s)" using sanitize_clean by (auto simp: STRUCTURE_CHARS_def)
  then show "LF \<notin> set (fence s)" using set_trim [of "sanitize s"] by (auto simp: fence_def LF_def)
qed

lemma newlines_fence_list [simp]: "newlines (fence_list ls) = 0"
  unfolding fence_list_def by (cases "ls = []") (auto intro: newlines_plain simp: LF_def)

text \<open>The technique names come from the program's own catalog, which has no line break.\<close>

definition attack_plain :: "attack_ref \<Rightarrow> bool" where
  "attack_plain a \<longleftrightarrow> newlines (technique_id a) = 0 \<and> newlines (technique_name a) = 0"

lemma newlines_prompt_text [simp]:
  "newlines PROMPT_0 = 15"
  "newlines PROMPT_1 = 12"
  "newlines PROMPT_2 = 1"
  "newlines PROMPT_3 = 1"
  "newlines PROMPT_4 = 1"
  "newlines PROMPT_5 = 1"
  "newlines PROMPT_6 = 2"
  "newlines PROMPT_8 = 2"
  "newlines PROMPT_9 = 6"
  "newlines PROMPT_10 = 7"
  "newlines BENIGN_OWN_ACTIVITY_TAG = 0"
  "newlines CHANGES_0 = 2"
  "newlines CHANGES_1 = 0"
  unfolding PROMPT_0_def PROMPT_1_def PROMPT_2_def PROMPT_3_def PROMPT_4_def PROMPT_5_def PROMPT_6_def
    PROMPT_8_def PROMPT_9_def PROMPT_10_def BENIGN_OWN_ACTIVITY_TAG_def CHANGES_0_def CHANGES_1_def newlines_append
  by (simp_all add: newlines_text)

lemma newlines_objective_reach [simp]: "newlines (objective_reach P sg k) = 0"
  by (simp add: objective_reach_def Let_def newlines_text split: option.split)

lemma newlines_ns_marker [simp]: "newlines (ns_marker e k) = 0"
  by (simp add: ns_marker_def newlines_text split: option.split)

lemma newlines_tactic_name [simp]: "newlines (tactic_name t) = 0"
  by (cases t) (simp_all add: newlines_text)

lemma newlines_objective_outcome: "attack_plain a \<Longrightarrow> newlines (objective_outcome reach a) = 0"
  unfolding objective_outcome_def attack_plain_def Let_def by (auto simp: newlines_text)

lemma newlines_objective_line: "attack_plain (snd oa) \<Longrightarrow> newlines (objective_line P sg entry oa) = 0"
  using newlines_objective_outcome [of "snd oa"]
  unfolding objective_line_def Let_def by (cases oa) (simp add: newlines_text)

lemma newlines_downstream_block [simp]: "newlines (fst (downstream_block node cves secs bs ps)) = 0"
  unfolding downstream_block_def Let_def by (simp add: newlines_text)

lemma downstream_loop_blocks:
  "length (downstream_loop P sg asn a b c nodes) = length nodes \<and>
   (\<forall>x\<in>set (downstream_loop P sg asn a b c nodes). newlines (fst x) = 0)"
proof (induction nodes arbitrary: a b c)
  case (Cons x xs)
  show ?case
    by (simp only: downstream_loop.simps Let_def split: prod.split)
       (use Cons in \<open>auto dest!: arg_cong [where f = fst]\<close>)
qed simp

lemma newlines_downstream_text:
  "newlines (downstream_text (render_downstream P sg nodes asn)) = length (bs_of_list nodes) - 1"
proof -
  let ?out = "downstream_loop P sg asn INCIDENT_DOWNSTREAM_FREETEXT_BUDGET
            INCIDENT_DOWNSTREAM_FREETEXT_BUDGET INCIDENT_DOWNSTREAM_FREETEXT_BUDGET (bs_of_list nodes)"
  have out: "length ?out = length (bs_of_list nodes)" "\<forall>x\<in>set ?out. newlines (fst x) = 0"
    using downstream_loop_blocks [of P sg asn] by blast+
  have b: "dr_blocks (render_downstream P sg nodes asn) = map fst ?out"
    by (simp add: render_downstream_def Let_def)
  show ?thesis
    using out newlines_joined_plain [of "map fst ?out"]
    by (cases "?out = []") (auto simp: downstream_text_def b newlines_text)
qed

section \<open>The menu's lines\<close>

definition notes_plain :: "menu \<Rightarrow> bool" where
  "notes_plain menu \<longleftrightarrow> (\<forall>l\<in>set (selectable menu). newlines (ml_blast_note l) = 0)"

definition menu_rows :: "menu \<Rightarrow> nat" where
  "menu_rows menu = length (selectable menu) + (if uncontainable menu = [] then 0 else 1)"

lemma newlines_describe [simp]: "newlines (describe a) = 0"
  by (cases a) (simp_all add: newlines_text)

lemma newlines_join_comma: "\<forall>l\<in>set ls. newlines l = 0 \<Longrightarrow> newlines (join '', '' ls) = 0"
proof (induction ls)
  case (Cons x xs)
  then show ?case by (cases xs) (simp_all add: join_Cons newlines_text)
qed simp

lemma newlines_render_menu: "notes_plain menu \<Longrightarrow> newlines (render_menu menu) = menu_rows menu - 1"
proof -
  assume plain: "notes_plain menu"
  let ?row = "\<lambda>l. ''  - '' @ fence (ml_node l) @ '': '' @ describe (ml_action l) @ '' ('' @ ml_blast_note l @ '')''"
  let ?unc = "''  - (evidence-bearing, not containable '' @ em_dash @ '' do not name): '' @
               join '', '' (map fence (uncontainable menu))"
  let ?ls = "map ?row (selectable menu) @ (if uncontainable menu = [] then [] else [?unc])"
  have "newlines (?row l) = 0" if "l \<in> set (selectable menu)" for l
    using that plain by (simp add: notes_plain_def newlines_text)
  moreover have "newlines ?unc = 0"
    using newlines_join_comma [of "map fence (uncontainable menu)"]
    by (simp add: newlines_text)
  ultimately have "\<forall>l\<in>set ?ls. newlines l = 0" by auto
  from newlines_joined_plain [OF this] show ?thesis
    by (auto simp: render_menu_def menu_rows_def Let_def newlines_text)
qed

lemma newlines_show_nat [simp]: "newlines (show_nat n) = 0"
proof (induction n rule: show_nat.induct)
  case (1 n)
  have "newlines [digit d] = 0" if "d < 10" for d
    using that by (simp add: digit_def newlines_Cons LF_def char_of_eq_iff take_bit_eq_mod)
  with 1 show ?case by (subst show_nat.simps) simp
qed

lemma newlines_cut_blast_note [simp]: "newlines (cut_blast_note P sg health lk action) = 0"
  by (simp add: cut_blast_note_def contain_node_note_def CONTAIN_NODE_NOTE_def
        CONTAIN_NODE_SELF_SEVERANCE_SUFFIX_def blast_note_def newlines_text)

section \<open>The prompt's shape\<close>

lemma build_delta_prompt_eq:
  "db_prompt (build_delta_prompt P sha sg asn entry objectives baseline downstream menu) =
     (let d = reachable_cve_lines P sg entry;
          ev = render_evidence P sg entry objectives (fst d) (snd d) asn downstream
      in assemble_prompt entry ev
           (render_changes_block (additions_since
              (db_surface (build_delta_prompt P sha sg asn entry objectives baseline downstream menu)) baseline))
           (render_menu menu))"
  by (simp add: build_delta_prompt_def Let_def split: prod.split)

text \<open>
  Whatever the cluster's untrusted text contains (node names, advisory titles, secret and posture
  findings, runtime lines, evidence of every hop), the number of line breaks of the judge's prompt is
  fixed by the counts of objectives, downstream workloads and menu rows: no untrusted value opens a
  line of its own, so none can forge an instruction line, an objective line or a menu line.\<close>

theorem prompt_lines_fixed:
  assumes "list_all (\<lambda>oa. attack_plain (snd oa)) objectives" and "notes_plain menu"
  shows "newlines (db_prompt (build_delta_prompt P sha sg asn entry objectives baseline downstream menu)) =
    50 + (length objectives - 1) + (length (bs_of_list downstream) - 1) + (menu_rows menu - 1)"
proof -
  have "newlines (join [LF] (map (objective_line P sg entry) objectives)) = length objectives - 1"
    using newlines_joined_plain [of "map (objective_line P sg entry) objectives"]
      newlines_objective_line [of _ P sg entry] assms(1) by (auto simp: list_all_iff)
  then show ?thesis
    using newlines_render_menu [OF assms(2)] newlines_downstream_text [of P sg downstream asn]
    unfolding build_delta_prompt_eq
    by (simp add: Let_def assemble_prompt_def render_evidence_def render_changes_block_def
          split: prod.split)
qed

theorem prompt_lines_fixed_witness:
  "newlines (db_prompt (build_delta_prompt adj_ops (\<lambda>s. s) ex_sg [] web_key
      [(''db'', \<lparr>a_tactic = CredentialAccess, technique_id = ''T1552'', technique_name = ''Unsecured Credentials''\<rparr>),
       (''cache'', \<lparr>a_tactic = Impact, technique_id = ''T1485'', technique_name = ''Data Destruction''\<rparr>)]
      None [''a'', ''b'', ''a''] \<lparr>selectable = [], uncontainable = [''n'' @ [LF]]\<rparr>)) = 52"
  by (subst prompt_lines_fixed)
     (simp_all add: attack_plain_def newlines_text notes_plain_def menu_rows_def bs_of_list_def)

section \<open>The cache key\<close>

lemma hex_digit_inj: "m < 16 \<Longrightarrow> n < 16 \<Longrightarrow> hex_digit m = hex_digit n \<Longrightarrow> m = n"
  by (auto simp: hex_digit_def char_of_eq_iff take_bit_eq_mod split: if_splits)

lemma hex_fixed_inj: "m < 16 ^ w \<Longrightarrow> n < 16 ^ w \<Longrightarrow> hex_fixed w m = hex_fixed w n \<Longrightarrow> m = n"
proof (induction w arbitrary: m n)
  case (Suc w)
  have "m div 16 = n div 16"
    by (rule Suc.IH) (use Suc.prems in \<open>auto simp: less_mult_imp_div_less mult.commute\<close>)
  moreover have "m mod 16 = n mod 16"
    by (rule hex_digit_inj) (use Suc.prems in auto)
  ultimately show ?case by (metis div_mult_mod_eq)
qed simp

lemma of_char_less: "(of_char c :: nat) < 256"
  using nat_of_char_less_256 by simp

lemma hex_bytes_inj:
  "concat (map (\<lambda>b. hex_fixed 2 (of_char b)) xs) = concat (map (\<lambda>b. hex_fixed 2 (of_char b)) ys) \<Longrightarrow> xs = ys"
proof (induction xs arbitrary: ys)
  case Nil
  then show ?case by (cases ys) (auto simp: numeral_2_eq_2)
next
  case (Cons x xs)
  show ?case
  proof (cases ys)
    case Nil
    with Cons.prems show ?thesis by (simp add: numeral_2_eq_2)
  next
    case (Cons y zs)
    with Cons.prems have "hex_fixed 2 (of_char x) = hex_fixed 2 (of_char y)"
      and rest: "concat (map (\<lambda>b. hex_fixed 2 (of_char b)) xs) = concat (map (\<lambda>b. hex_fixed 2 (of_char b)) zs)"
      by (simp_all add: append_eq_append_conv)
    then have "(of_char x :: nat) = of_char y"
      using hex_fixed_inj [of "of_char x" 2 "of_char y"] of_char_less [of x] of_char_less [of y] by simp
    then have "x = y" by simp
    with Cons Cons.IH [OF rest] show ?thesis by simp
  qed
qed

definition state_prompt ::
  "'g petgraph \<Rightarrow> 'g security_graph \<Rightarrow> asn_db \<Rightarrow> node_key \<Rightarrow> (node_key \<times> attack_ref) list \<Rightarrow> node_key list \<Rightarrow>
     menu \<Rightarrow> string" where
  "state_prompt P sg asn entry objectives downstream menu =
     (let d = reachable_cve_lines P sg entry
      in assemble_prompt entry (render_evidence P sg entry objectives (fst d) (snd d) asn downstream) []
           (render_menu menu))"

lemma cache_key_state:
  "db_cache_key (build_delta_prompt P sha sg asn entry objectives baseline downstream menu) =
     prompt_cache_key sha (state_prompt P sg asn entry objectives downstream menu)"
  by (simp add: build_delta_prompt_def state_prompt_def Let_def split: prod.split)

text \<open>
  The verdict cache is keyed by the full state and by nothing else: with a digest of 32 bytes that
  does not collide on the two states at hand, two prompts have one cache key exactly when the prompts
  without their change section are equal, whatever baselines the change sections were computed from.\<close>

theorem cache_key_identifies_state:
  assumes "\<forall>s. length (sha s) = 32"
    and "sha (state_prompt P sg asn e os ds menu) = sha (state_prompt P sg' asn' e' os' ds' menu') \<Longrightarrow>
         state_prompt P sg asn e os ds menu = state_prompt P sg' asn' e' os' ds' menu'"
  shows "db_cache_key (build_delta_prompt P sha sg asn e os baseline ds menu) =
         db_cache_key (build_delta_prompt P sha sg' asn' e' os' baseline' ds' menu') \<longleftrightarrow>
         state_prompt P sg asn e os ds menu = state_prompt P sg' asn' e' os' ds' menu'"
  unfolding cache_key_state prompt_cache_key_def hex_digest_def
  using assms hex_bytes_inj by fastforce

theorem cache_key_identifies_state_witness:
  "db_cache_key (build_delta_prompt adj_ops (\<lambda>s. replicate 32 CHR ''k'') ex_sg [] web_key [] None []
      \<lparr>selectable = [], uncontainable = []\<rparr>) =
   db_cache_key (build_delta_prompt adj_ops (\<lambda>s. replicate 32 CHR ''k'') ex_sg [] web_key []
      (Some (from_lines [''  - db''] [] [] [] [] [])) [] \<lparr>selectable = [], uncontainable = []\<rparr>)"
  by (subst cache_key_identifies_state) simp_all

end
