(* ===== verification/Policy_Log.thy ===== *)
theory Policy_Log
  imports Verdict_Store Divergence
begin

text \<open>
  The admission-decision log (\<open>engine/src/engine/policy_log.rs\<close>): a ring of at most 256 distinct
  decisions in which a recurrence is folded into its row and moved to the newest end. Every method
  runs under one lock, so it is a function on the rows, oldest first. The counts are 64-bit; \<open>record\<close>
  and \<open>restore\<close> saturate, the sums of \<open>tallies\<close> and \<open>total\<close> wrap in a release build.
\<close>

record policy_decision_record =
  pd_policy :: string
  pd_decision :: string
  pd_subject :: string
  pd_image :: string
  pd_signature :: string
  pd_mesh :: string
  pd_namespace :: string
  pd_reason :: string
  would_admit :: bool
  pd_count :: u64
  pd_at_ms :: u64

definition policy_decision_now ::
  "u64 \<Rightarrow> string \<Rightarrow> string \<Rightarrow> string \<Rightarrow> string \<Rightarrow> string \<Rightarrow> string \<Rightarrow> string \<Rightarrow> string \<Rightarrow>
     policy_decision_record" where
  "policy_decision_now at_ms policy decision subject img signature mesh namespace reason =
     \<lparr>pd_policy = policy, pd_decision = decision, pd_subject = subject, pd_image = img,
      pd_signature = signature, pd_mesh = mesh, pd_namespace = namespace, pd_reason = reason,
      would_admit = True, pd_count = 1, pd_at_ms = at_ms\<rparr>"

definition with_would_admit :: "bool \<Rightarrow> policy_decision_record \<Rightarrow> policy_decision_record" where
  "with_would_admit admit r = r\<lparr>would_admit := admit\<rparr>"

definition dedup_key :: "policy_decision_record \<Rightarrow> string \<times> string \<times> string" where
  "dedup_key r = (pd_subject r, pd_image r, pd_decision r)"

definition POLICY_LOG_CAP :: nat where
  "POLICY_LOG_CAP = 256"

definition saturating_add64 :: "u64 \<Rightarrow> u64 \<Rightarrow> u64" where
  "saturating_add64 a b = (if a + b < a then - 1 else a + b)"

definition remove_at :: "nat \<Rightarrow> 'a list \<Rightarrow> 'a list" where
  "remove_at i xs = take i xs @ drop (Suc i) xs"

definition ring_append :: "policy_decision_record \<Rightarrow> policy_decision_record list \<Rightarrow> policy_decision_record list" where
  "ring_append d rows = (if length rows \<ge> POLICY_LOG_CAP then tl rows else rows) @ [d]"

definition policy_record ::
  "policy_decision_record \<Rightarrow> policy_decision_record list \<Rightarrow> policy_decision_record list" where
  "policy_record d rows =
     (case position (\<lambda>r. dedup_key r = dedup_key d) rows of
        Some pos \<Rightarrow>
          (let e = rows ! pos
           in remove_at pos rows @
              [e\<lparr>pd_count := saturating_add64 (pd_count e) 1, pd_at_ms := max (pd_at_ms e) (pd_at_ms d),
                 pd_reason := pd_reason d, pd_signature := pd_signature d, pd_mesh := pd_mesh d,
                 would_admit := would_admit d\<rparr>])
      | None \<Rightarrow> ring_append d rows)"

definition policy_restore ::
  "policy_decision_record \<Rightarrow> policy_decision_record list \<Rightarrow> policy_decision_record list" where
  "policy_restore d rows =
     (case position (\<lambda>r. dedup_key r = dedup_key d) rows of
        Some pos \<Rightarrow>
          (let e = rows ! pos
           in remove_at pos rows @
              [e\<lparr>pd_count := saturating_add64 (pd_count e) (pd_count d),
                 pd_at_ms := max (pd_at_ms e) (pd_at_ms d)\<rparr>])
      | None \<Rightarrow> ring_append d rows)"

definition policy_snapshot :: "policy_decision_record list \<Rightarrow> policy_decision_record list" where
  "policy_snapshot rows = rev rows"

record decision_tallies =
  admitted :: u64
  audited :: u64
  denied :: u64

definition tally_step :: "policy_decision_record \<Rightarrow> decision_tallies \<Rightarrow> decision_tallies" where
  "tally_step r t =
     (if pd_decision r = ''allow'' then t\<lparr>admitted := admitted t + pd_count r\<rparr>
      else if pd_decision r = ''audit'' then t\<lparr>audited := audited t + pd_count r\<rparr>
      else if pd_decision r = ''deny'' then t\<lparr>denied := denied t + pd_count r\<rparr>
      else t)"

definition tallies :: "policy_decision_record list \<Rightarrow> decision_tallies" where
  "tallies rows = fold tally_step rows \<lparr>admitted = 0, audited = 0, denied = 0\<rparr>"

definition tallies_total :: "decision_tallies \<Rightarrow> u64" where
  "tallies_total t = admitted t + audited t + denied t"

section \<open>The ring\<close>

definition policy_log_ok :: "policy_decision_record list \<Rightarrow> bool" where
  "policy_log_ok rows \<longleftrightarrow> distinct (map dedup_key rows) \<and> length rows \<le> POLICY_LOG_CAP"

lemma position_split:
  assumes "position P rows = Some i"
  obtains pre post where "rows = pre @ rows ! i # post" "P (rows ! i)" "remove_at i rows = pre @ post"
proof
  show "P (rows ! i)" "rows = take i rows @ rows ! i # drop (Suc i) rows"
    using position_Some [OF assms] by (auto simp: id_take_nth_drop [symmetric])
qed (simp add: remove_at_def)

lemma ring_append_ok:
  assumes "policy_log_ok rows" "dedup_key d \<notin> dedup_key ` set rows"
  shows "policy_log_ok (ring_append d rows)"
  using assms by (cases rows) (auto simp: policy_log_ok_def ring_append_def POLICY_LOG_CAP_def)

text \<open>A folded row keeps its key, so both operations keep the ring well-formed.\<close>

lemma policy_fold_ok:
  assumes ok: "policy_log_ok rows" and pos: "position (\<lambda>r. dedup_key r = k) rows = Some i"
    and e: "dedup_key e = dedup_key (rows ! i)"
  shows "policy_log_ok (remove_at i rows @ [e])"
proof -
  obtain pre x post where s: "rows = pre @ x # post" "x = rows ! i" "remove_at i rows = pre @ post"
    using position_split [OF pos] by metis
  from ok have "distinct (map dedup_key (pre @ x # post))" "length (pre @ x # post) \<le> POLICY_LOG_CAP"
    unfolding policy_log_ok_def s(1) by auto
  with e [folded s(2)] show ?thesis unfolding policy_log_ok_def s(3) by auto
qed

lemma policy_ops_ok:
  assumes ok: "policy_log_ok rows" and keeps: "\<And>e. dedup_key (upd e) = dedup_key e"
  shows "policy_log_ok (case position (\<lambda>r. dedup_key r = dedup_key d) rows of
    Some pos \<Rightarrow> remove_at pos rows @ [upd (rows ! pos)] | None \<Rightarrow> ring_append d rows)"
proof (cases "position (\<lambda>r. dedup_key r = dedup_key d) rows")
  case None
  then have "dedup_key d \<notin> dedup_key ` set rows" by (auto simp: position_None)
  with None ok show ?thesis by (simp add: ring_append_ok)
next
  case (Some i)
  with policy_fold_ok [OF ok Some keeps] show ?thesis by simp
qed

lemma policy_record_ok: "policy_log_ok rows \<Longrightarrow> policy_log_ok (policy_record d rows)"
  unfolding policy_record_def Let_def by (rule policy_ops_ok) (simp_all add: dedup_key_def)

lemma policy_restore_ok: "policy_log_ok rows \<Longrightarrow> policy_log_ok (policy_restore d rows)"
  unfolding policy_restore_def Let_def by (rule policy_ops_ok) (simp_all add: dedup_key_def)

end
