(* ===== verification/Journal.thy ===== *)
theory Journal
  imports Policy_Log Evidence Redact
begin

text \<open>
  The durable decision journal (\<open>engine/src/engine/journal/mod.rs\<close>): the decision lines, the append
  with its rotation and self-disabling, and the replay. Files are a map from paths to contents; the
  outcome of the fallible file operations of one append is an argument, a failed write leaving the
  bytes already written. \<open>serde_json\<close> is a third-party codec, the parameters \<open>to_json\<close> and \<open>from_json\<close>.
\<close>

section \<open>Decision lines\<close>

record enrichment_coverage =
  jc_cves :: "string list"
  jc_behavioral :: bool

definition is_backed :: "enrichment_coverage \<Rightarrow> bool" where
  "is_backed c \<longleftrightarrow> jc_cves c \<noteq> [] \<or> jc_behavioral c"

record journaled_cut =
  jn_node :: string
  jn_cut_signature :: string

datatype signing_posture_rank = Unsigned | Unverifiable | KeyBased | Keyless

record signing_baseline_line =
  sb_repo :: string
  sb_identities :: "string list"
  sb_issuers :: "string list"
  sb_first_seen_ms :: u64
  sb_established :: bool
  sb_log_corroborated :: bool
  sb_rank :: signing_posture_rank
  sb_provenance_sources :: "string list"
  sb_provenance_builders :: "string list"

text \<open>The fields of a constructor are in the order of the source's enum.\<close>

datatype journal_decision =
    Breach string nat string "enrichment_coverage option" "string option" "verdict option"
  | Incident string nat assessment string "journaled_cut list" string
  | CutDivergence string divergence_class "string list" "string list"
  | ApplyCut string
  | RevertCut string string
  | Admission policy_decision_record
  | SigningBaseline signing_baseline_line

record journal_entry =
  je_at_ms :: u64
  je_decision :: journal_decision

definition journal_entry_now :: "int \<Rightarrow> journal_decision \<Rightarrow> journal_entry" where
  "journal_entry_now now d =
     \<lparr>je_at_ms = (if now < 0 then 0 else of_int (now div 10 ^ 6)), je_decision = d\<rparr>"

definition journal_entry_at :: "journal_entry \<Rightarrow> int" where
  "journal_entry_at e = uint (je_at_ms e) * 10 ^ 6"

section \<open>Files\<close>

type_synonym files = "string \<Rightarrow> string option"

record append_io =
  io_rename :: bool
  io_open :: bool
  io_written :: "nat option"

text \<open>The decoding check of \<open>std::fs::read_to_string\<close>.\<close>

definition second_byte_ok :: "nat \<Rightarrow> char \<Rightarrow> bool" where
  "second_byte_ok n b \<longleftrightarrow>
     is_cont b \<and> (n = 0xE0 \<longrightarrow> 0xA0 \<le> (of_char b :: nat)) \<and> (n = 0xED \<longrightarrow> (of_char b :: nat) \<le> 0x9F) \<and>
     (n = 0xF0 \<longrightarrow> 0x90 \<le> (of_char b :: nat)) \<and> (n = 0xF4 \<longrightarrow> (of_char b :: nat) \<le> 0x8F)"

fun utf8_valid :: "string \<Rightarrow> bool" where
  "utf8_valid [] \<longleftrightarrow> True"
| "utf8_valid (a # s) \<longleftrightarrow>
     (let n = (of_char a :: nat) in
      if n < 0x80 then utf8_valid s
      else if 0xC2 \<le> n \<and> n \<le> 0xDF then (case s of b # t \<Rightarrow> is_cont b \<and> utf8_valid t | _ \<Rightarrow> False)
      else if 0xE0 \<le> n \<and> n \<le> 0xEF then
        (case s of b # c # t \<Rightarrow> second_byte_ok n b \<and> is_cont c \<and> utf8_valid t | _ \<Rightarrow> False)
      else if 0xF0 \<le> n \<and> n \<le> 0xF4 then
        (case s of b # c # d # t \<Rightarrow> second_byte_ok n b \<and> is_cont c \<and> is_cont d \<and> utf8_valid t | _ \<Rightarrow> False)
      else False)"

definition read_to_string :: "files \<Rightarrow> string \<Rightarrow> string option" where
  "read_to_string fs p = (case fs p of Some c \<Rightarrow> if utf8_valid c then Some c else None | None \<Rightarrow> None)"

section \<open>The journal\<close>

definition MAX_BYTES :: nat where
  "MAX_BYTES = 1024 * 1024"

record decision_journal =
  dj_path :: "string option"
  dj_disabled :: bool

definition journal_disabled :: decision_journal where
  "journal_disabled = \<lparr>dj_path = None, dj_disabled = False\<rparr>"

text \<open>The probe of \<open>open\<close> creates the file when it is absent; \<open>writable\<close> says whether it succeeds.\<close>

definition journal_open :: "bool \<Rightarrow> string \<Rightarrow> files \<Rightarrow> decision_journal \<times> files" where
  "journal_open writable path fs =
     (if writable then
        (\<lparr>dj_path = Some path, dj_disabled = False\<rparr>,
         case fs path of None \<Rightarrow> fs(path \<mapsto> []) | Some _ \<Rightarrow> fs)
      else (journal_disabled, fs))"

definition journal_from_env :: "bool \<Rightarrow> string option \<Rightarrow> files \<Rightarrow> decision_journal \<times> files" where
  "journal_from_env writable env fs =
     (case env of
        Some path \<Rightarrow> if trim path \<noteq> [] then journal_open writable (trim path) fs else (journal_disabled, fs)
      | None \<Rightarrow> (journal_disabled, fs))"

definition journal_is_enabled :: "decision_journal \<Rightarrow> bool" where
  "journal_is_enabled j \<longleftrightarrow> dj_path j \<noteq> None \<and> \<not> dj_disabled j"

definition rolled_path :: "string \<Rightarrow> string" where
  "rolled_path path = path @ ''.1''"

definition rotate_if_needed :: "string \<Rightarrow> append_io \<Rightarrow> files \<Rightarrow> files option" where
  "rotate_if_needed path io fs =
     (case fs path of
        Some c \<Rightarrow>
          if MAX_BYTES \<le> length c
          then (if io_rename io then Some (fs(rolled_path path \<mapsto> c, path := None)) else None)
          else Some fs
      | None \<Rightarrow> Some fs)"

definition try_append ::
  "(journal_entry \<Rightarrow> string option) \<Rightarrow> string \<Rightarrow> journal_entry \<Rightarrow> append_io \<Rightarrow> files \<Rightarrow> bool \<times> files" where
  "try_append to_json path e io fs =
     (case to_json e of
        None \<Rightarrow> (False, fs)
      | Some text \<Rightarrow>
          (let line = text @ [LF] in
           case rotate_if_needed path io fs of
             None \<Rightarrow> (False, fs)
           | Some fs1 \<Rightarrow>
               if \<not> io_open io then (False, fs1)
               else
                 (let old = (case fs1 path of Some c \<Rightarrow> c | None \<Rightarrow> []) in
                  case io_written io of
                    None \<Rightarrow> (True, fs1(path \<mapsto> old @ line))
                  | Some n \<Rightarrow> (False, fs1(path \<mapsto> old @ take n line)))))"

definition journal_append ::
  "(journal_entry \<Rightarrow> string option) \<Rightarrow> journal_entry \<Rightarrow> append_io \<Rightarrow> decision_journal \<times> files \<Rightarrow>
     decision_journal \<times> files" where
  "journal_append to_json e io st =
     (case st of (j, fs) \<Rightarrow>
        (case dj_path j of
           None \<Rightarrow> (j, fs)
         | Some path \<Rightarrow>
             if dj_disabled j then (j, fs)
             else (case try_append to_json path e io fs of
                     (True, fs') \<Rightarrow> (j, fs')
                   | (False, fs') \<Rightarrow> (j\<lparr>dj_disabled := True\<rparr>, fs'))))"

definition replay_file :: "(string \<Rightarrow> journal_entry option) \<Rightarrow> files \<Rightarrow> string \<Rightarrow> journal_entry list" where
  "replay_file from_json fs p =
     (case read_to_string fs p of
        None \<Rightarrow> []
      | Some c \<Rightarrow>
          List.map_filter (\<lambda>l. let l' = trim l in if l' = [] then None else from_json l') (lines c))"

definition replay ::
  "(string \<Rightarrow> journal_entry option) \<Rightarrow> decision_journal \<Rightarrow> files \<Rightarrow> journal_entry list" where
  "replay from_json j fs =
     (case dj_path j of
        None \<Rightarrow> []
      | Some path \<Rightarrow> replay_file from_json fs (rolled_path path) @ replay_file from_json fs path)"

section \<open>Decoding\<close>

lemma utf8_valid_append: "utf8_valid a \<Longrightarrow> utf8_valid (a @ b) \<longleftrightarrow> utf8_valid b"
  by (induction a rule: utf8_valid.induct) (auto simp: Let_def split: if_splits list.splits)

lemma utf8_valid_concat: "\<forall>x\<in>set xs. utf8_valid x \<Longrightarrow> utf8_valid (concat xs)"
  by (induction xs) (auto simp: utf8_valid_append)

text \<open>A sequence of three bytes cut short is not completed by what does not continue it.\<close>

lemma torn_three_bytes:
  assumes "utf8_valid p" and "0xE0 \<le> (of_char a :: nat)" "(of_char a :: nat) \<le> 0xEF"
    and "t = [] \<or> \<not> is_cont (hd t)"
  shows "\<not> utf8_valid (p @ [a] @ t)" and "\<not> utf8_valid (p @ [a, b] @ t)"
  using assms by (auto simp: utf8_valid_append Let_def second_byte_ok_def split: list.splits)

section \<open>The lines of a file\<close>

text \<open>
  What the codec promises of an entry: it is read back from its text, and the text is one line of
  valid UTF-8 with no white space around it.
\<close>

definition plain_line :: "string \<Rightarrow> bool" where
  "plain_line l \<longleftrightarrow> l \<noteq> [] \<and> LF \<notin> set l \<and> trim l = l \<and> last l \<noteq> CR \<and> utf8_valid l"

definition codec_for ::
  "(journal_entry \<Rightarrow> string option) \<Rightarrow> (string \<Rightarrow> journal_entry option) \<Rightarrow> journal_entry list \<Rightarrow> bool" where
  "codec_for to_json from_json es \<longleftrightarrow>
     list_all (\<lambda>e. \<exists>l. to_json e = Some l \<and> from_json l = Some e \<and> plain_line l) es"

definition line_of :: "(journal_entry \<Rightarrow> string option) \<Rightarrow> journal_entry \<Rightarrow> string" where
  "line_of to_json e = the (to_json e) @ [LF]"

definition content :: "(journal_entry \<Rightarrow> string option) \<Rightarrow> journal_entry list \<Rightarrow> string" where
  "content to_json es = concat (map (line_of to_json) es)"

lemma content_snoc: "content to_json (es @ [e]) = content to_json es @ line_of to_json e"
  by (simp add: content_def)

lemma content_single: "content to_json [e] = line_of to_json e"
  by (simp add: content_def)

lemma length_content: "length (content to_json es) = sum_list (map (\<lambda>e. length (line_of to_json e)) es)"
  by (simp add: content_def length_concat comp_def)

lemma split_content:
  "\<forall>l\<in>set ls. LF \<notin> set l \<Longrightarrow> split_on LF (concat (map (\<lambda>l. l @ [LF]) ls)) = ls @ [[]]"
  by (induction ls) (auto simp: split_on_append)

lemma strip_cr_plain: "last l \<noteq> CR \<Longrightarrow> strip_cr l = l"
  by (cases l rule: rev_cases)
     (auto simp: strip_cr_def strip_suffix_def strip_prefix_def starts_with_def split: option.split)

lemma lines_content:
  assumes "\<forall>l\<in>set ls. plain_line l"
  shows "lines (concat (map (\<lambda>l. l @ [LF]) ls)) = ls"
proof -
  have "split_on LF (concat (map (\<lambda>l. l @ [LF]) ls)) = ls @ [[]]"
    using assms by (intro split_content) (auto simp: plain_line_def)
  moreover have "map strip_cr ls = ls"
    using assms by (intro map_idI) (auto simp: plain_line_def strip_cr_plain)
  ultimately show ?thesis by (simp add: lines_def)
qed

section \<open>The journal as two generations of entries\<close>

text \<open>
  The abstract journal is the pair of the rolled and the active entries; recording appends, and rolls
  first when the active generation has reached the size limit.
\<close>

definition two_generations ::
  "(journal_entry \<Rightarrow> nat) \<Rightarrow> journal_entry \<Rightarrow> journal_entry list \<times> journal_entry list \<Rightarrow>
     journal_entry list \<times> journal_entry list" where
  "two_generations bytes e RA =
     (case RA of (R, A) \<Rightarrow> if MAX_BYTES \<le> sum_list (map bytes A) then (A, [e]) else (R, A @ [e]))"

definition file_holds :: "(journal_entry \<Rightarrow> string option) \<Rightarrow> string option \<Rightarrow> journal_entry list \<Rightarrow> bool" where
  "file_holds to_json f es \<longleftrightarrow> (case f of None \<Rightarrow> es = [] | Some c \<Rightarrow> c = content to_json es)"

definition files_hold ::
  "(journal_entry \<Rightarrow> string option) \<Rightarrow> string \<Rightarrow> files \<Rightarrow> journal_entry list \<times> journal_entry list \<Rightarrow> bool" where
  "files_hold to_json path fs RA \<longleftrightarrow>
     file_holds to_json (fs (rolled_path path)) (fst RA) \<and> file_holds to_json (fs path) (snd RA)"

definition io_ok :: append_io where
  "io_ok = \<lparr>io_rename = True, io_open = True, io_written = None\<rparr>"

abbreviation line_size :: "(journal_entry \<Rightarrow> string option) \<Rightarrow> journal_entry \<Rightarrow> nat" where
  "line_size to_json e \<equiv> length (line_of to_json e)"

lemma rolled_path_neq [simp]: "rolled_path path \<noteq> path" "path \<noteq> rolled_path path"
  by (simp_all add: rolled_path_def)

lemma journal_append_refines:
  assumes enc: "to_json e = Some l"
    and j: "dj_path j = Some path" "\<not> dj_disabled j"
    and hold: "files_hold to_json path fs RA"
  shows "\<exists>fs'. journal_append to_json e io_ok (j, fs) = (j, fs') \<and>
    files_hold to_json path fs' (two_generations (line_size to_json) e RA)"
proof -
  obtain R A where RA: "RA = (R, A)" by fastforce
  have lin: "line_of to_json e = l @ [LF]" using enc by (simp add: line_of_def)
  show ?thesis
  proof (cases "fs path")
    case None
    with hold have "A = []" by (simp add: files_hold_def file_holds_def RA)
    with None hold show ?thesis
      by (simp add: journal_append_def try_append_def rotate_if_needed_def j enc io_ok_def Let_def RA
          two_generations_def MAX_BYTES_def files_hold_def file_holds_def content_def lin)
  next
    case (Some c)
    with hold have "c = content to_json A" by (simp add: files_hold_def file_holds_def RA)
    with Some hold show ?thesis
      by (cases "fs (rolled_path path)")
         (simp_all add: journal_append_def try_append_def rotate_if_needed_def j enc io_ok_def Let_def RA
          two_generations_def length_content [symmetric] files_hold_def file_holds_def content_snoc
          content_single lin)
  qed
qed

lemma replay_file_holds:
  assumes "codec_for to_json from_json es" "file_holds to_json (fs p) es"
  shows "replay_file from_json fs p = es"
proof -
  have plain: "\<forall>l\<in>set (map (the \<circ> to_json) es). plain_line l"
    and dec: "\<forall>e\<in>set es. from_json (the (to_json e)) = Some e"
    using assms(1) by (auto simp: codec_for_def list_all_iff)
  have c: "content to_json es = concat (map (\<lambda>l. l @ [LF]) (map (the \<circ> to_json) es))"
    by (simp add: content_def line_of_def [abs_def] comp_def)
  have "utf8_valid (content to_json es)"
    unfolding c using plain
    by (intro utf8_valid_concat) (auto simp: plain_line_def utf8_valid_append LF_def)
  moreover have "List.map_filter (\<lambda>l. let l' = trim l in if l' = [] then None else from_json l')
      (map (the \<circ> to_json) es) = es"
    using plain dec by (induction es) (auto simp: map_filter_simps plain_line_def Let_def)
  ultimately show ?thesis
    using assms(2) lines_content [OF plain, folded c]
    by (cases "fs p") (auto simp: replay_file_def read_to_string_def file_holds_def)
qed

subsection \<open>What the two generations retain\<close>

abbreviation bytes_of :: "(journal_entry \<Rightarrow> nat) \<Rightarrow> journal_entry list \<Rightarrow> nat" where
  "bytes_of bytes es \<equiv> sum_list (map bytes es)"

lemma two_generations_inv:
  assumes "\<forall>e\<in>set es. bytes e \<le> L"
  shows "\<exists>pre R A. fold (two_generations bytes) es ([], []) = (R, A) \<and> es = pre @ R @ A \<and>
    (pre = [] \<or> MAX_BYTES \<le> bytes_of bytes R) \<and>
    bytes_of bytes R < MAX_BYTES + L \<and> bytes_of bytes A < MAX_BYTES + L"
  using assms
proof (induction es rule: rev_induct)
  case Nil
  then show ?case by (simp add: MAX_BYTES_def)
next
  case (snoc e es)
  then have "\<forall>e\<in>set es. bytes e \<le> L" by simp
  from snoc.IH [OF this] obtain pre R A where RA: "fold (two_generations bytes) es ([], []) = (R, A)"
    and es: "es = pre @ R @ A" "pre = [] \<or> MAX_BYTES \<le> bytes_of bytes R"
    and size: "bytes_of bytes R < MAX_BYTES + L" "bytes_of bytes A < MAX_BYTES + L"
    by blast
  have e: "bytes e \<le> L" using snoc.prems by simp
  have step: "fold (two_generations bytes) (es @ [e]) ([], []) =
      (if MAX_BYTES \<le> bytes_of bytes A then (A, [e]) else (R, A @ [e]))"
    by (simp add: RA two_generations_def)
  show ?case
  proof (cases "MAX_BYTES \<le> bytes_of bytes A")
    case True
    have "bytes_of bytes [e] < MAX_BYTES + L" using e by (simp add: MAX_BYTES_def)
    moreover have "es @ [e] = (pre @ R) @ A @ [e]" by (simp add: es)
    ultimately show ?thesis using True size(2) step by fastforce
  next
    case False
    have "es @ [e] = pre @ R @ (A @ [e])" by (simp add: es)
    moreover have "bytes_of bytes (A @ [e]) < MAX_BYTES + L" using False e by simp
    ultimately show ?thesis using False es(2) size(1) step by metis
  qed
qed

lemma journal_run_refines:
  assumes "codec_for to_json from_json es" "dj_path j = Some path" "\<not> dj_disabled j"
  shows "\<exists>fs. fold (\<lambda>e. journal_append to_json e io_ok) es (j, Map.empty) = (j, fs) \<and>
    files_hold to_json path fs (fold (two_generations (line_size to_json)) es ([], []))"
  using assms(1)
proof (induction es rule: rev_induct)
  case Nil
  then show ?case by (simp add: files_hold_def file_holds_def)
next
  case (snoc e es)
  then obtain fs l where "fold (\<lambda>e. journal_append to_json e io_ok) es (j, Map.empty) = (j, fs)"
    "files_hold to_json path fs (fold (two_generations (line_size to_json)) es ([], []))" "to_json e = Some l"
    by (auto simp: codec_for_def)
  with journal_append_refines [OF this(3) assms(2,3) this(2)] show ?case by simp
qed

definition disk_bytes :: "string \<Rightarrow> files \<Rightarrow> nat" where
  "disk_bytes path fs = sum_list (map (\<lambda>p. case fs p of Some c \<Rightarrow> length c | None \<Rightarrow> 0) [rolled_path path, path])"

lemma files_hold_bytes:
  assumes "files_hold to_json path fs (R, A)"
  shows "disk_bytes path fs = bytes_of (line_size to_json) R + bytes_of (line_size to_json) A"
  using assms length_content [of to_json]
  by (auto simp: files_hold_def file_holds_def disk_bytes_def split: option.splits)

lemma replay_files_hold:
  assumes "codec_for to_json from_json (R @ A)" "files_hold to_json path fs (R, A)"
    and "dj_path j = Some path"
  shows "replay from_json j fs = R @ A"
  using assms replay_file_holds [of to_json from_json R fs "rolled_path path"]
    replay_file_holds [of to_json from_json A fs path]
  by (simp add: replay_def files_hold_def codec_for_def)

definition journal_at :: "string \<Rightarrow> decision_journal" where
  "journal_at path = \<lparr>dj_path = Some path, dj_disabled = False\<rparr>"

text \<open>
  C34. The journal gives back what was written: after any run of successful appends to an empty
  journal the replay is a final segment of the recorded decisions, in order; it is all of them until
  the retained lines fill a megabyte; and the two generations on disk stay below twice the limit plus
  one line each.\<close>

theorem journal_replays_recent:
  assumes "codec_for to_json from_json es" and "list_all (\<lambda>e. line_size to_json e \<le> L) es"
  shows "(let j = journal_at path;
              fs = snd (fold (\<lambda>e. journal_append to_json e io_ok) es (j, Map.empty));
              kept = replay from_json j fs
          in (\<exists>dropped. es = dropped @ kept \<and>
                (dropped = [] \<or> MAX_BYTES \<le> bytes_of (line_size to_json) kept)) \<and>
             disk_bytes path fs < 2 * (MAX_BYTES + L))"
proof -
  have j: "dj_path (journal_at path) = Some path" "\<not> dj_disabled (journal_at path)"
    by (simp_all add: journal_at_def)
  obtain fs where fs: "fold (\<lambda>e. journal_append to_json e io_ok) es (journal_at path, Map.empty) = (journal_at path, fs)"
    and hold: "files_hold to_json path fs (fold (two_generations (line_size to_json)) es ([], []))"
    using journal_run_refines [OF assms(1) j] by blast
  have sizes: "\<forall>e\<in>set es. line_size to_json e \<le> L" using assms(2) by (simp add: list_all_iff)
  from two_generations_inv [OF sizes] obtain pre R A where
    RA: "fold (two_generations (line_size to_json)) es ([], []) = (R, A)" and es: "es = pre @ R @ A"
    and kept: "pre = [] \<or> MAX_BYTES \<le> bytes_of (line_size to_json) R"
    and size: "bytes_of (line_size to_json) R < MAX_BYTES + L" "bytes_of (line_size to_json) A < MAX_BYTES + L"
    by blast
  have "codec_for to_json from_json (R @ A)" using assms(1) unfolding es by (simp add: codec_for_def)
  from replay_files_hold [OF this hold [unfolded RA] j(1)] files_hold_bytes [OF hold [unfolded RA]]
  show ?thesis using es kept size unfolding Let_def fs snd_conv by auto
qed

definition sample_line :: journal_entry where
  "sample_line = \<lparr>je_at_ms = 7, je_decision = ApplyCut ''a''\<rparr>"

theorem journal_replays_recent_witness:
  "\<exists>dropped. [sample_line, sample_line] = dropped @
     replay (\<lambda>s. if s = ''x'' then Some sample_line else None) (journal_at ''j'')
       (snd (fold (\<lambda>e. journal_append (\<lambda>e. Some ''x'') e io_ok) [sample_line, sample_line]
          (journal_at ''j'', Map.empty)))"
proof -
  have "codec_for (\<lambda>e. Some ''x'') (\<lambda>s. if s = ''x'' then Some sample_line else None) [sample_line, sample_line]"
    by (simp add: codec_for_def plain_line_def LF_def CR_def trim_plain) code_simp
  moreover have "list_all (\<lambda>e. line_size (\<lambda>e. Some ''x'') e \<le> 2) [sample_line, sample_line]"
    by (simp add: line_of_def)
  ultimately show ?thesis using journal_replays_recent [of _ _ _ 2 "''j''"] unfolding Let_def by blast
qed

section \<open>A torn character\<close>

definition io_torn :: "nat \<Rightarrow> append_io" where
  "io_torn n = \<lparr>io_rename = True, io_open = True, io_written = Some n\<rparr>"

lemma torn_append:
  assumes "to_json e = Some (p @ em_dash @ q)" "dj_path j = Some path" "\<not> dj_disabled j"
    and "file_holds to_json (fs path) A" "length (content to_json A) < MAX_BYTES"
  shows "journal_append to_json e (io_torn (Suc (length p))) (j, fs) =
    (j\<lparr>dj_disabled := True\<rparr>, fs(path \<mapsto> content to_json A @ p @ [CHR 0xE2]))"
  using assms
  by (cases "fs path")
     (simp_all add: journal_append_def try_append_def rotate_if_needed_def io_torn_def file_holds_def
        content_def em_dash_def)

lemma append_small:
  assumes "to_json e = Some l" "dj_path j = Some path" "\<not> dj_disabled j"
    and "fs path = Some c" "length c < MAX_BYTES"
  shows "journal_append to_json e io_ok (j, fs) = (j, fs(path \<mapsto> c @ l @ [LF]))"
  using assms by (simp add: journal_append_def try_append_def rotate_if_needed_def io_ok_def Let_def)

text \<open>
  C35. A write torn inside a character hides the whole file, not one line: when the process dies after
  the first byte of an em dash (every journaled verdict has one), the replay of the next start
  returns nothing of the active file, however many complete lines precede the torn one, and stays so
  after further records, because the file is decoded as a whole before it is split into lines.\<close>

theorem torn_write_hides_file:
  assumes enc: "to_json e = Some (p @ em_dash @ q)" "utf8_valid p"
    and nxt: "to_json e' = Some l'" "l' \<noteq> []" "\<not> is_cont (hd l')"
    and codec: "codec_for to_json from_json (R @ A)"
    and hold: "files_hold to_json path fs (R, A)"
    and room: "length (content to_json A) + length p + 1 < MAX_BYTES"
  shows "(let j = journal_at path;
              fs1 = snd (journal_append to_json e (io_torn (Suc (length p))) (j, fs));
              fs2 = snd (journal_append to_json e' io_ok (j, fs1))
          in replay from_json j fs = R @ A \<and> replay from_json j fs1 = R \<and> replay from_json j fs2 = R)"
proof -
  let ?j = "journal_at path"
  let ?torn = "content to_json A @ p @ [CHR 0xE2]"
  have j: "dj_path ?j = Some path" "\<not> dj_disabled ?j" by (simp_all add: journal_at_def)
  have R: "codec_for to_json from_json R" "codec_for to_json from_json A"
    using codec by (simp_all add: codec_for_def)
  have A: "utf8_valid (content to_json A)"
    using R(2) unfolding content_def codec_for_def list_all_iff
    by (intro utf8_valid_concat) (fastforce simp: line_of_def plain_line_def utf8_valid_append LF_def)
  have bad: "\<not> utf8_valid ((content to_json A @ p) @ [CHR 0xE2] @ t)" if "t = [] \<or> \<not> is_cont (hd t)" for t
    by (rule torn_three_bytes(1)) (use that A enc(2) in \<open>simp_all add: utf8_valid_append\<close>)
  have fs1: "journal_append to_json e (io_torn (Suc (length p))) (?j, fs) =
      (?j\<lparr>dj_disabled := True\<rparr>, fs(path \<mapsto> ?torn))"
    using enc(1) j hold room by (intro torn_append) (simp_all add: files_hold_def)
  have fs2: "journal_append to_json e' io_ok (?j, fs(path \<mapsto> ?torn)) = (?j, fs(path \<mapsto> ?torn @ l' @ [LF]))"
    using append_small [where to_json = to_json and e = e' and fs = "fs(path \<mapsto> ?torn)" and c = ?torn]
      nxt(1) j room by simp
  have old: "replay_file from_json g (rolled_path path) = R" if "g (rolled_path path) = fs (rolled_path path)" for g
    using replay_file_holds [OF R(1), of g "rolled_path path"] hold that by (simp add: files_hold_def)
  have lost: "replay_file from_json (fs(path \<mapsto> ?torn @ t)) path = []" if "t = [] \<or> \<not> is_cont (hd t)" for t
    using bad [OF that] by (simp add: replay_file_def read_to_string_def)
  show ?thesis
    unfolding Let_def fs1 fs2 snd_conv
    using replay_files_hold [OF codec hold j(1)] old lost [of "[]"] lost [of "l' @ [LF]"] nxt
    by (simp add: replay_def j)
qed

theorem torn_write_hides_file_witness:
  "(let to_json = (\<lambda>e. if e = sample_line then Some ''x'' else Some (''y'' @ em_dash @ ''z''));
        from_json = (\<lambda>s. if s = ''x'' then Some sample_line else None);
        j = journal_at ''j''; fs = [''j'' \<mapsto> ''x'' @ [LF]];
        fs1 = snd (journal_append to_json (sample_line\<lparr>je_at_ms := 8\<rparr>) (io_torn (Suc (length ''y''))) (j, fs));
        fs2 = snd (journal_append to_json sample_line io_ok (j, fs1))
    in replay from_json j fs = [] @ [sample_line] \<and> replay from_json j fs1 = [] \<and> replay from_json j fs2 = [])"
proof -
  let ?to = "\<lambda>e. if e = sample_line then Some ''x'' else Some (''y'' @ em_dash @ ''z'')"
  let ?from = "\<lambda>s. if s = ''x'' then Some sample_line else None"
  have x: "plain_line ''x''" by (simp add: plain_line_def LF_def CR_def trim_plain) code_simp
  have "codec_for ?to ?from ([] @ [sample_line])" using x by (simp add: codec_for_def)
  moreover have "files_hold ?to ''j'' [''j'' \<mapsto> ''x'' @ [LF]] ([], [sample_line])"
    by (simp add: files_hold_def file_holds_def content_def line_of_def rolled_path_def)
  moreover have "length (content ?to [sample_line]) + length ''y'' + 1 < MAX_BYTES"
    by (simp add: content_def line_of_def MAX_BYTES_def)
  moreover have "?to (sample_line\<lparr>je_at_ms := 8\<rparr>) = Some (''y'' @ em_dash @ ''z'')"
    by (simp add: sample_line_def)
  moreover have "utf8_valid ''y''" "\<not> is_cont (hd ''x'')" by (simp_all add: is_cont_def)
  ultimately show ?thesis
    unfolding Let_def
    using torn_write_hides_file [of ?to "sample_line\<lparr>je_at_ms := 8\<rparr>" "''y''" "''z''" sample_line "''x''"
        ?from "[]" "[sample_line]" "''j''" "[''j'' \<mapsto> ''x'' @ [LF]]"]
    unfolding Let_def by simp
qed

end
