(* ===== verification/Adj_Pass.thy ===== *)
theory Adj_Pass
  imports Adj_Gate Judge Prompt Journal
begin

text \<open>
  The adjudication pass (\<open>engine/src/engine/adj_pass.rs\<close>, with \<open>prepare_pending\<close> of \<open>adj_gate.rs\<close>): the
  breach-relevant chains are grouped by entry, each entry goes through the re-judge gate, the entries
  the gate sends on are judged concurrently, the answers are folded into the stores in the order in
  which they complete, and every entry's chains are stamped in entry order.

  What a pass reads of its surroundings is the record \<open>adj_env\<close>: the third-party parameters, the
  observed state and the order of completion. The engine's fields the pass changes are the record
  \<open>adj_state\<close>, the journal being the list of the recorded decisions. Metrics, logs and the notifier are
  not part of it. \<open>None\<close> is a panic of the reply parser or of the backoff arithmetic.
\<close>

section \<open>Types\<close>

record pending_entry =
  pe_entry_key :: string
  pe_entry :: node_key
  pe_objectives :: "(node_key \<times> attack_ref) list"
  pe_downstream :: "node_key list"
  pe_prompt :: string
  pe_fingerprint :: string
  pe_sections :: prompt_sections
  pe_chain :: string
  pe_surface :: judged_surface
  pe_idxs :: "nat list"
  pe_menu :: menu

record restored_decision =
  rd_fingerprint :: string
  rd_assessment :: assessment
  rd_reason :: string
  rd_cuts :: "journaled_cut list"

text \<open>
  \<open>ae_chat prompt n\<close> is the model's answer to the \<open>n\<close>th attempt with that prompt; \<open>ae_completion k\<close> is the
  order in which \<open>k\<close> concurrent calls complete, a permutation of the indices below \<open>k\<close>.
\<close>

record 'g adj_env =
  ae_ops :: "'g petgraph"
  ae_sha :: sha
  ae_from_str :: "string \<Rightarrow> json option"
  ae_chat :: "string \<Rightarrow> nat \<Rightarrow> string option"
  ae_jitter_seed :: "string \<Rightarrow> u64"
  ae_completion :: "nat \<Rightarrow> nat list"
  ae_asn :: asn_db
  ae_graph :: "'g security_graph"
  ae_health :: health_report
  ae_now :: instant
  ae_active :: enabled_actions

type_synonym decisions = "(string, incident_decision) btree"

record adj_state =
  as_verdicts :: verdict_store
  as_decisions :: decisions
  as_restored :: "(string, restored_decision) btree"
  as_journal :: "journal_decision list"

definition completion_ok :: "'g adj_env \<Rightarrow> bool" where
  "completion_ok env \<longleftrightarrow> (\<forall>n. distinct (ae_completion env n) \<and> set (ae_completion env n) = {0..<n})"

section \<open>Grouping\<close>

definition group_idx :: "nat \<times> proven_chain \<Rightarrow> (string, nat list) btree \<Rightarrow> (string, nat list) btree" where
  "group_idx ic m =
     (case ic of (i, c) \<Rightarrow>
        if is_breach_relevant c
        then bt_put (pc_entry c) ((case bt_get m (pc_entry c) of Some is \<Rightarrow> is | None \<Rightarrow> []) @ [i]) m
        else m)"

definition idx_by_entry :: "proven_chain list \<Rightarrow> (string, nat list) btree" where
  "idx_by_entry chs = fold group_idx (enumerate 0 chs) []"

fun dedup_objectives :: "(node_key \<times> attack_ref) list \<Rightarrow> (node_key \<times> attack_ref) list" where
  "dedup_objectives (a # b # rest) =
     (if fst a = fst b then dedup_objectives (a # rest) else a # dedup_objectives (b # rest))"
| "dedup_objectives os = os"

definition entry_objectives :: "proven_chain list \<Rightarrow> nat list \<Rightarrow> (node_key \<times> attack_ref) list" where
  "entry_objectives chs idxs =
     dedup_objectives (sort_key fst (map (\<lambda>i. (pc_objective (chs ! i), pc_attack (chs ! i))) idxs))"

definition downstream_workloads :: "node_key \<Rightarrow> nat list \<Rightarrow> proven_chain list \<Rightarrow> node_key list" where
  "downstream_workloads entry idxs chs =
     bs_of_list (filter (\<lambda>k. k \<noteq> entry \<and> kind_of k = ''workload'')
       (concat (map (\<lambda>lk. [l_from lk, l_to lk]) (concat (concat (map (\<lambda>i. pc_paths (chs ! i)) idxs))))))"

definition entry_menu ::
  "'g petgraph \<Rightarrow> 'g security_graph \<Rightarrow> health_report \<Rightarrow> node_key list \<Rightarrow> nat list \<Rightarrow> proven_chain list \<Rightarrow> menu" where
  "entry_menu P sg health model_attack idxs chs =
     (let ms = map (\<lambda>i. build_menu P sg health model_attack (chs ! i)) idxs
      in normalize_menu (concat (map selectable ms)) (concat (map uncontainable ms)))"

definition model_attack_set :: "decisions \<Rightarrow> node_key list" where
  "model_attack_set decisions =
     bs_of_list (concat (map (\<lambda>d. map cc_node (d_cuts d))
       (filter (\<lambda>d. d_assessment d = Attack) (map snd decisions))))"

definition prepare_pending ::
  "'g adj_env \<Rightarrow> verdict_store \<Rightarrow> string \<Rightarrow> node_key \<Rightarrow> (node_key \<times> attack_ref) list \<Rightarrow> node_key list \<Rightarrow>
     nat list \<Rightarrow> menu \<Rightarrow> pending_entry \<times> bool \<times> verdict_baseline option" where
  "prepare_pending env verdicts entry_key entry objectives downstream idxs menu =
     (let baseline = baseline_for verdicts entry_key;
          delta = build_delta_prompt (ae_ops env) (ae_sha env) (ae_graph env) (ae_asn env) entry objectives
                    (map_option vb_surface baseline) downstream menu;
          pend = \<lparr>pe_entry_key = entry_key, pe_entry = entry, pe_objectives = objectives,
            pe_downstream = downstream, pe_prompt = db_prompt delta, pe_fingerprint = db_cache_key delta,
            pe_sections = db_sections delta, pe_chain = chain_shape_hash (ae_sha env) objectives,
            pe_surface = db_surface delta, pe_idxs = idxs, pe_menu = menu\<rparr>
      in (pend, db_additive delta, baseline))"

section \<open>The replay lock\<close>

fun rearm_cuts :: "menu \<Rightarrow> journaled_cut list \<Rightarrow> chosen_cut list option" where
  "rearm_cuts menu [] = Some []"
| "rearm_cuts menu (c # cs) =
     (case resolve menu (jn_node c) of
        None \<Rightarrow> None
      | Some r \<Rightarrow>
          if cc_signature r \<noteq> jn_cut_signature c then None
          else map_option (\<lambda>rs. r # rs) (rearm_cuts menu cs))"

definition rearm_restored_decision ::
  "restored_decision \<Rightarrow> string \<Rightarrow> menu \<Rightarrow> incident_decision option" where
  "rearm_restored_decision restored current_fingerprint current_menu =
     (if rd_fingerprint restored \<noteq> current_fingerprint then None
      else map_option
             (\<lambda>cuts. \<lparr>d_assessment = rd_assessment restored, d_reason = rd_reason restored, d_cuts = cuts\<rparr>)
             (rearm_cuts current_menu (rd_cuts restored)))"

definition try_rearm_decision :: "pending_entry \<Rightarrow> adj_state \<Rightarrow> adj_state" where
  "try_rearm_decision pend st =
     (if bt_get (as_decisions st) (pe_entry_key pend) \<noteq> None then st
      else
        (case bt_get (as_restored st) (pe_entry_key pend) of
           None \<Rightarrow> st
         | Some restored \<Rightarrow>
             (let st1 = st\<lparr>as_restored := bt_keep (\<lambda>k. k \<noteq> pe_entry_key pend) (as_restored st)\<rparr>
              in case rearm_restored_decision restored (pe_fingerprint pend) (pe_menu pend) of
                   Some d \<Rightarrow> st1\<lparr>as_decisions := bt_put (pe_entry_key pend) d (as_decisions st1)\<rparr>
                 | None \<Rightarrow> st1)))"

section \<open>Phase 1: classify\<close>

type_synonym classified = "(pending_entry \<times> verdict) list \<times> pending_entry list"

definition classify_entry ::
  "'g adj_env \<Rightarrow> proven_chain list \<Rightarrow> node_key list \<Rightarrow> string \<times> nat list \<Rightarrow> adj_state \<times> classified \<Rightarrow>
     adj_state \<times> classified" where
  "classify_entry env chs model_attack ei acc =
     (case (ei, acc) of ((entry_key, idxs), st, resolved, to_judge) \<Rightarrow>
        (let entry = pc_entry (chs ! hd idxs);
             menu = entry_menu (ae_ops env) (ae_graph env) (ae_health env) model_attack idxs chs
         in case prepare_pending env (as_verdicts st) entry_key entry (entry_objectives chs idxs)
                   (downstream_workloads entry idxs chs) idxs menu of
              (pend, additive, baseline) \<Rightarrow>
                (let st1 = try_rearm_decision pend st
                 in case classify_adjudication (pe_entry_key pend) (pe_fingerprint pend) additive baseline
                           (ae_now env) (as_verdicts st1) of
                      (gate, verdicts) \<Rightarrow>
                        (let st2 = st1\<lparr>as_verdicts := verdicts\<rparr>
                         in case gate of
                              Resolved v _ \<Rightarrow> (st2, resolved @ [(pend, v)], to_judge)
                            | Skipped v \<Rightarrow> (st2, resolved @ [(pend, v)], to_judge)
                            | Judge \<Rightarrow> (st2, resolved, to_judge @ [pend])))))"

definition classify_all ::
  "'g adj_env \<Rightarrow> proven_chain list \<Rightarrow> adj_state \<Rightarrow> adj_state \<times> classified" where
  "classify_all env chs st =
     fold (classify_entry env chs (model_attack_set (as_decisions st))) (idx_by_entry chs) (st, [], [])"

section \<open>Phase 2: judge\<close>

definition judge_pending :: "'g adj_env \<Rightarrow> pending_entry \<Rightarrow> (pending_entry \<times> incident_decision) option" where
  "judge_pending env p =
     map_option (\<lambda>d. (p, d))
       (judge (ae_ops env) (ae_from_str env) (ae_chat env (pe_prompt p)) (pe_entry p) (ae_graph env)
          (pe_downstream p) (pe_menu p))"

definition judge_all ::
  "'g adj_env \<Rightarrow> pending_entry list \<Rightarrow> (pending_entry \<times> incident_decision) list option" where
  "judge_all env ps =
     map_option (\<lambda>rs. map (\<lambda>i. rs ! i) (ae_completion env (length rs))) (those (map (judge_pending env) ps))"

section \<open>Phase 3: fold the answers\<close>

definition incident_line :: "pending_entry \<Rightarrow> incident_decision \<Rightarrow> journal_decision" where
  "incident_line p d =
     Incident (pe_entry_key p) (length (pe_objectives p)) (d_assessment d) (d_reason d)
       (map (\<lambda>c. \<lparr>jn_node = cc_node c, jn_cut_signature = cc_signature c\<rparr>) (d_cuts d)) (pe_fingerprint p)"

definition fold_decision ::
  "'g adj_env \<Rightarrow> pending_entry \<times> incident_decision \<Rightarrow> adj_state \<times> (pending_entry \<times> verdict) list \<Rightarrow>
     (adj_state \<times> (pending_entry \<times> verdict) list) option" where
  "fold_decision env pd acc =
     (case (pd, acc) of ((p, d), st, resolved) \<Rightarrow>
        (let ek = pe_entry_key p; v = to_verdict d
         in map_option (\<lambda>st'. (st', resolved @ [(p, v)]))
              (if decisive v then
                 Some (st\<lparr>as_journal :=
                            (if bt_get (as_decisions st) ek \<noteq> Some d then as_journal st @ [incident_line p d]
                             else as_journal st),
                          as_decisions := bt_put ek d (as_decisions st),
                          as_verdicts :=
                            record_decisive ek (ae_now env)
                              (set_baseline ek (pe_surface p) v
                                (cache_decisive ek (pe_fingerprint p) v (as_verdicts st)))\<rparr>)
               else
                 map_option (\<lambda>vs. st\<lparr>as_verdicts := vs\<rparr>)
                   (record_inconclusive (ae_jitter_seed env) ek (ae_now env) (as_verdicts st)))))"

fun fold_decisions ::
  "'g adj_env \<Rightarrow> (pending_entry \<times> incident_decision) list \<Rightarrow> adj_state \<times> (pending_entry \<times> verdict) list \<Rightarrow>
     (adj_state \<times> (pending_entry \<times> verdict) list) option" where
  "fold_decisions env [] acc = Some acc"
| "fold_decisions env (pd # pds) acc =
     (case fold_decision env pd acc of None \<Rightarrow> None | Some acc' \<Rightarrow> fold_decisions env pds acc')"

section \<open>Phase 4: display, journal and stamps\<close>

definition stamp_chain :: "bool \<Rightarrow> verdict \<Rightarrow> verdict \<Rightarrow> proven_chain \<Rightarrow> proven_chain" where
  "stamp_chain judgement_armed display v c =
     (let c1 = c\<lparr>proven_chain.verdict := Some (verdict_summary display)\<rparr>
      in if corroborated c1 then (if \<not> is_confirmed v then c1\<lparr>adjudicated := False\<rparr> else c1)
         else if promotes v \<and> judgement_armed then c1\<lparr>promoted := True\<rparr>
         else c1)"

definition breach_line :: "'g adj_env \<Rightarrow> pending_entry \<Rightarrow> verdict \<Rightarrow> verdict \<Rightarrow> journal_decision" where
  "breach_line env p v display =
     (let coverage = entry_coverage_of (ae_ops env) (ae_graph env) (pe_entry p)
      in Breach (pe_entry_key p) (length (pe_objectives p)) (verdict_summary display)
           (Some \<lparr>jc_cves = ec_cves coverage, jc_behavioral = ec_behavioral coverage\<rparr>)
           (if decisive v then Some (pe_fingerprint p) else None) (if decisive v then Some v else None))"

definition settle_entry ::
  "'g adj_env \<Rightarrow> string \<times> pending_entry \<times> verdict \<Rightarrow> adj_state \<times> proven_chain list \<Rightarrow>
     (adj_state \<times> proven_chain list) option" where
  "settle_entry env kpv acc =
     (case (kpv, acc) of ((ek, p, v), st, chs) \<Rightarrow>
        (case resolve_display ek v (as_verdicts st) of
           (None, _) \<Rightarrow> None
         | (Some display, vs1) \<Rightarrow>
             (let vs2 = record_recency ek (of_verdict (Some display)) (ae_now env) vs1;
                  summary = verdict_summary display;
                  st1 = (if decisive display \<and> journaled vs2 ek \<noteq> Some summary
                         then st\<lparr>as_journal := as_journal st @ [breach_line env p v display],
                                 as_verdicts := set_journaled ek summary vs2\<rparr>
                         else st\<lparr>as_verdicts := vs2\<rparr>)
              in Some (st1, fold (\<lambda>i cs. cs[i := stamp_chain (judgement_enabled (ae_active env)) display v (cs ! i)])
                              (pe_idxs p) chs))))"

fun settle_all ::
  "'g adj_env \<Rightarrow> (string \<times> pending_entry \<times> verdict) list \<Rightarrow> adj_state \<times> proven_chain list \<Rightarrow>
     (adj_state \<times> proven_chain list) option" where
  "settle_all env [] acc = Some acc"
| "settle_all env (x # xs) acc =
     (case settle_entry env x acc of None \<Rightarrow> None | Some acc' \<Rightarrow> settle_all env xs acc')"

section \<open>The pass\<close>

definition retain_current :: "string set \<Rightarrow> adj_state \<Rightarrow> adj_state" where
  "retain_current present st =
     st\<lparr>as_verdicts := retain_present present (as_verdicts st),
        as_decisions := bt_keep (\<lambda>k. k \<in> present) (as_decisions st),
        as_restored := bt_keep (\<lambda>k. k \<in> present) (as_restored st)\<rparr>"

definition run_adjudication_pass ::
  "'g adj_env \<Rightarrow> proven_chain list \<Rightarrow> adj_state \<Rightarrow> (adj_state \<times> proven_chain list) option" where
  "run_adjudication_pass env chs st =
     (case classify_all env chs st of (st1, resolved, to_judge) \<Rightarrow>
        do {
          results \<leftarrow> judge_all env to_judge;
          (st2, resolved2) \<leftarrow> fold_decisions env results (st1, resolved);
          (st3, chs3) \<leftarrow> settle_all env (bt_of_list (map (\<lambda>(p, v). (pe_entry_key p, p, v)) resolved2)) (st2, chs);
          Some (retain_current (set (map fst (idx_by_entry chs))) st3, chs3)
        })"

section \<open>Grouping is exact\<close>

definition entry_idxs :: "proven_chain list \<Rightarrow> node_key \<Rightarrow> nat list" where
  "entry_idxs chs k = filter (\<lambda>i. is_breach_relevant (chs ! i) \<and> pc_entry (chs ! i) = k) [0..<length chs]"

lemma entry_idxs_snoc:
  "entry_idxs (chs @ [c]) k =
     entry_idxs chs k @ (if is_breach_relevant c \<and> pc_entry c = k then [length chs] else [])"
proof -
  have "filter (\<lambda>i. is_breach_relevant ((chs @ [c]) ! i) \<and> pc_entry ((chs @ [c]) ! i) = k) [0..<length chs] =
      entry_idxs chs k"
    unfolding entry_idxs_def by (rule filter_cong) (auto simp: nth_append)
  then show ?thesis by (simp add: entry_idxs_def)
qed

lemma idx_by_entry_get:
  "bt_ok (idx_by_entry chs) \<and>
   bt_get (idx_by_entry chs) k = (if entry_idxs chs k = [] then None else Some (entry_idxs chs k))"
proof (induction chs arbitrary: k rule: rev_induct)
  case Nil
  then show ?case by (simp add: idx_by_entry_def entry_idxs_def bt_get_def)
next
  case (snoc c chs)
  have "idx_by_entry (chs @ [c]) = group_idx (length chs, c) (idx_by_entry chs)"
    by (simp add: idx_by_entry_def enumerate_append_eq)
  then show ?case
    using snoc.IH by (auto simp: group_idx_def entry_idxs_snoc bt_get_put split: option.splits)
qed

lemma idx_by_entry_ok [simp]: "bt_ok (idx_by_entry chs)"
  using idx_by_entry_get by blast

lemma idx_by_entry_mem: "(k, is) \<in> set (idx_by_entry chs) \<longleftrightarrow> is = entry_idxs chs k \<and> is \<noteq> []"
  using idx_by_entry_get [of chs k] by (auto simp: bt_entries split: if_splits)

lemma entry_idxs_entry: "entry_idxs chs k \<noteq> [] \<Longrightarrow> pc_entry (chs ! hd (entry_idxs chs k)) = k"
  using hd_in_set [of "entry_idxs chs k"] by (auto simp: entry_idxs_def)

definition breach_entries :: "proven_chain list \<Rightarrow> node_key set" where
  "breach_entries chs = {pc_entry c | c. c \<in> set chs \<and> is_breach_relevant c}"

lemma entry_idxs_empty: "entry_idxs chs k = [] \<longleftrightarrow> k \<notin> breach_entries chs"
  unfolding entry_idxs_def breach_entries_def filter_empty_conv by (auto simp: in_set_conv_nth) metis+

lemma idx_by_entry_keys: "set (map fst (idx_by_entry chs)) = breach_entries chs"
  using idx_by_entry_mem [of _ _ chs] entry_idxs_empty [of chs] by (force simp: image_iff)

section \<open>What the gate lets through\<close>

text \<open>The pending record of an entry, whatever the verdict store at the time.\<close>

definition pending_for :: "'g adj_env \<Rightarrow> proven_chain list \<Rightarrow> node_key list \<Rightarrow> pending_entry \<Rightarrow> bool" where
  "pending_for env chs ma p \<longleftrightarrow>
     (let k = pe_entry_key p; is = entry_idxs chs k
      in is \<noteq> [] \<and>
         (\<exists>vs. p = fst (prepare_pending env vs k k (entry_objectives chs is) (downstream_workloads k is chs) is
                     (entry_menu (ae_ops env) (ae_graph env) (ae_health env) ma is chs))))"

lemma prepare_pending_simps [simp]:
  "pe_entry_key (fst (prepare_pending env vs k e os ds is m)) = k"
  "pe_entry (fst (prepare_pending env vs k e os ds is m)) = e"
  "pe_idxs (fst (prepare_pending env vs k e os ds is m)) = is"
  "pe_menu (fst (prepare_pending env vs k e os ds is m)) = m"
  "pe_downstream (fst (prepare_pending env vs k e os ds is m)) = ds"
  "pe_objectives (fst (prepare_pending env vs k e os ds is m)) = os"
  by (simp_all add: prepare_pending_def Let_def)

lemma pending_for_simps:
  assumes "pending_for env chs ma p"
  shows "pe_entry p = pe_entry_key p" "pe_idxs p = entry_idxs chs (pe_entry_key p)"
    "pe_idxs p \<noteq> []" "pe_entry_key p \<in> breach_entries chs"
  using assms entry_idxs_empty [of chs "pe_entry_key p"] unfolding pending_for_def Let_def
  by (auto, metis prepare_pending_simps(2), metis prepare_pending_simps(3), metis prepare_pending_simps(3))

text \<open>
  A restored decision is armed for an entry when the entry has no decision of this run, the journaled
  fingerprint is the current one and every cut resolves to the journaled signature.
\<close>

definition rearmed :: "adj_state \<Rightarrow> pending_entry \<Rightarrow> incident_decision \<Rightarrow> bool" where
  "rearmed st p d \<longleftrightarrow>
     bt_get (as_decisions st) (pe_entry_key p) = None \<and>
     (\<exists>r. bt_get (as_restored st) (pe_entry_key p) = Some r \<and> rd_fingerprint r = pe_fingerprint p \<and>
        d_assessment d = rd_assessment r \<and> d_reason d = rd_reason r \<and>
        list_all2 (\<lambda>j c. resolve (pe_menu p) (jn_node j) = Some c \<and> cc_signature c = jn_cut_signature j)
          (rd_cuts r) (d_cuts d))"

lemma rearm_cuts_iff:
  "rearm_cuts menu js = Some cs \<longleftrightarrow>
     list_all2 (\<lambda>j c. resolve menu (jn_node j) = Some c \<and> cc_signature c = jn_cut_signature j) js cs"
proof (induction js arbitrary: cs)
  case (Cons j js)
  then show ?case by (cases cs) (auto split: option.splits if_splits)
qed auto

lemma rearm_restored_iff:
  "rearm_restored_decision r fp menu = Some d \<longleftrightarrow>
     rd_fingerprint r = fp \<and> d_assessment d = rd_assessment r \<and> d_reason d = rd_reason r \<and>
     list_all2 (\<lambda>j c. resolve menu (jn_node j) = Some c \<and> cc_signature c = jn_cut_signature j)
       (rd_cuts r) (d_cuts d)"
  by (cases d) (auto simp: rearm_restored_decision_def rearm_cuts_iff)

lemma try_rearm_frame [simp]:
  "as_verdicts (try_rearm_decision p st) = as_verdicts st"
  "as_journal (try_rearm_decision p st) = as_journal st"
  by (simp_all add: try_rearm_decision_def Let_def split: option.split)

lemma try_rearm_ok:
  "bt_ok (as_decisions st) \<Longrightarrow> bt_ok (as_restored st) \<Longrightarrow>
     bt_ok (as_decisions (try_rearm_decision p st)) \<and> bt_ok (as_restored (try_rearm_decision p st))"
  by (simp add: try_rearm_decision_def Let_def split: option.split)

lemma try_rearm_other:
  assumes "bt_ok (as_decisions st)" "k \<noteq> pe_entry_key p"
  shows "bt_get (as_decisions (try_rearm_decision p st)) k = bt_get (as_decisions st) k"
    and "bt_get (as_restored (try_rearm_decision p st)) k = bt_get (as_restored st) k"
  using assms by (simp_all add: try_rearm_decision_def Let_def bt_get_put bt_keep_get split: option.split)

lemma try_rearm_own:
  assumes "bt_ok (as_decisions st)"
  shows "bt_get (as_decisions (try_rearm_decision p st)) (pe_entry_key p) = Some d \<longleftrightarrow>
    bt_get (as_decisions st) (pe_entry_key p) = Some d \<or> rearmed st p d"
proof (cases "bt_get (as_decisions st) (pe_entry_key p)")
  case none: None
  show ?thesis
  proof (cases "bt_get (as_restored st) (pe_entry_key p)")
    case (Some r)
    then show ?thesis
      using none assms rearm_restored_iff [of r "pe_fingerprint p" "pe_menu p" d]
      by (cases "rearm_restored_decision r (pe_fingerprint p) (pe_menu p)")
         (auto simp: try_rearm_decision_def Let_def rearmed_def bt_get_put)
  qed (use none in \<open>simp add: try_rearm_decision_def rearmed_def\<close>)
qed (simp add: try_rearm_decision_def rearmed_def)

text \<open>One entry: its pending record joins one of the two lists, with a verdict that never promotes.\<close>

lemma classify_entry_step:
  assumes "is = entry_idxs chs k" "is \<noteq> []"
  obtains p vs r j where
    "classify_entry env chs ma (k, is) (st, res, tj) =
       ((try_rearm_decision p st)\<lparr>as_verdicts := vs\<rparr>, res @ r, tj @ j)"
    "pending_for env chs ma p" "pe_entry_key p = k"
    "(\<exists>v. r = [(p, v)] \<and> j = [] \<and> \<not> promotes v) \<or> (r = [] \<and> j = [p])"
proof -
  have e: "pc_entry (chs ! hd is) = k" using assms entry_idxs_entry by blast
  let ?prep = "prepare_pending env (as_verdicts st) k k (entry_objectives chs is) (downstream_workloads k is chs) is
      (entry_menu (ae_ops env) (ae_graph env) (ae_health env) ma is chs)"
  obtain p add base where p: "?prep = (p, add, base)" by (metis prod_cases3)
  obtain gate vs where g: "classify_adjudication (pe_entry_key p) (pe_fingerprint p) add base (ae_now env)
      (as_verdicts (try_rearm_decision p st)) = (gate, vs)" by fastforce
  have step: "classify_entry env chs ma (k, is) (st, res, tj) =
      (let st2 = (try_rearm_decision p st)\<lparr>as_verdicts := vs\<rparr>
       in case gate of Resolved v _ \<Rightarrow> (st2, res @ [(p, v)], tj) | Skipped v \<Rightarrow> (st2, res @ [(p, v)], tj)
          | Judge \<Rightarrow> (st2, res, tj @ [p]))"
    using p g by (simp add: classify_entry_def e Let_def)
  have fst_p: "p = fst ?prep" using p by simp
  have pk: "pe_entry_key p = k" unfolding fst_p by simp
  have pf: "pending_for env chs ma p"
    unfolding pending_for_def Let_def pk using assms fst_p by blast
  show ?thesis
  proof (cases gate)
    case (Resolved v h)
    then have "\<not> promotes v"
      using resolved_cases [of "pe_entry_key p" "pe_fingerprint p" add base "ae_now env"
          "as_verdicts (try_rearm_decision p st)" v h] g
      by (cases v) (simp_all add: must_reverify_def)
    with Resolved step pk pf show ?thesis by (intro that [where p = p and vs = vs and r = "[(p, v)]" and j = "[]"]) (auto simp: Let_def)
  next
    case (Skipped v)
    then have "\<not> promotes v"
      using g by (auto simp: classify_adjudication_def gate_after_miss_def gate_after_hold_def
          split: option.splits if_splits prod.splits)
    with Skipped step pk pf show ?thesis by (intro that [where p = p and vs = vs and r = "[(p, v)]" and j = "[]"]) (auto simp: Let_def)
  next
    case Judge
    with step pk pf show ?thesis by (intro that [where p = p and vs = vs and r = "[]" and j = "[p]"]) (auto simp: Let_def)
  qed
qed

abbreviation pendings :: "(pending_entry \<times> verdict) list \<Rightarrow> pending_entry list \<Rightarrow> pending_entry list" where
  "pendings res tj \<equiv> map fst res @ tj"

definition classified_inv ::
  "'g adj_env \<Rightarrow> proven_chain list \<Rightarrow> node_key list \<Rightarrow> adj_state \<Rightarrow> string list \<Rightarrow> adj_state \<times> classified \<Rightarrow> bool" where
  "classified_inv env chs ma st0 ks acc \<longleftrightarrow>
     (case acc of (st, res, tj) \<Rightarrow>
        bt_ok (as_decisions st) \<and> bt_ok (as_restored st) \<and> as_journal st = as_journal st0 \<and>
        set (map pe_entry_key (pendings res tj)) = set ks \<and> distinct (map pe_entry_key (pendings res tj)) \<and>
        (\<forall>p\<in>set (pendings res tj). pending_for env chs ma p) \<and> (\<forall>(p, v)\<in>set res. \<not> promotes v) \<and>
        (\<forall>k d. bt_get (as_decisions st) k = Some d \<longleftrightarrow>
           bt_get (as_decisions st0) k = Some d \<or>
           (\<exists>p\<in>set (pendings res tj). pe_entry_key p = k \<and> rearmed st0 p d)) \<and>
        (\<forall>k. k \<notin> set ks \<longrightarrow> bt_get (as_restored st) k = bt_get (as_restored st0) k))"

lemma distinct_map_insert:
  "distinct (map f (xs @ y # ys)) \<longleftrightarrow> distinct (map f (xs @ ys)) \<and> f y \<notin> f ` set (xs @ ys)"
  by auto

lemma classified_inv_step:
  assumes inv: "classified_inv env chs ma st0 ks acc"
    and k: "k \<notin> set ks" "is = entry_idxs chs k" "is \<noteq> []"
  shows "classified_inv env chs ma st0 (ks @ [k]) (classify_entry env chs ma (k, is) acc)"
proof -
  obtain st res tj where acc: "acc = (st, res, tj)" by (metis prod_cases3)
  note I = inv [unfolded acc classified_inv_def prod.case]
  obtain p vs r j where step: "classify_entry env chs ma (k, is) acc =
       ((try_rearm_decision p st)\<lparr>as_verdicts := vs\<rparr>, res @ r, tj @ j)"
    and p: "pending_for env chs ma p" "pe_entry_key p = k"
    and rj: "(\<exists>v. r = [(p, v)] \<and> j = [] \<and> \<not> promotes v) \<or> (r = [] \<and> j = [p])"
    unfolding acc by (rule classify_entry_step [OF k(2,3), of env ma st res tj]) blast
  have set_new: "set (pendings (res @ r) (tj @ j)) = insert p (set (pendings res tj))" using rj by auto
  have fresh: "pe_entry_key q \<noteq> k" if "q \<in> set (pendings res tj)" for q
    using I k(1) that by (metis (no_types, lifting) image_eqI list.set_map)
  have dec_k: "bt_get (as_decisions st) k = bt_get (as_decisions st0) k"
    using I fresh by (metis option.exhaust)
  have res_k: "bt_get (as_restored st) k = bt_get (as_restored st0) k" using I k(1) by blast
  have rearm: "rearmed st p d \<longleftrightarrow> rearmed st0 p d" for d
    unfolding rearmed_def p(2) dec_k res_k by simp
  have ok: "bt_ok (as_decisions st)" "bt_ok (as_restored st)" using I by blast+
  have dec: "bt_get (as_decisions (try_rearm_decision p st)) k' = Some d \<longleftrightarrow>
      bt_get (as_decisions st0) k' = Some d \<or>
      (\<exists>q\<in>set (pendings (res @ r) (tj @ j)). pe_entry_key q = k' \<and> rearmed st0 q d)" for k' d
  proof (cases "k' = k")
    case True
    then show ?thesis
      using try_rearm_own [OF ok(1), of p d, unfolded p(2)] rearm dec_k fresh p(2) unfolding set_new by auto
  next
    case False
    then show ?thesis
      using try_rearm_other(1) [OF ok(1), of k' p] I p(2) unfolding set_new by auto
  qed
  have keys: "distinct (map pe_entry_key (pendings (res @ r) (tj @ j)))"
  proof -
    have "distinct (map pe_entry_key (pendings res tj))" using I by blast
    moreover have "k \<notin> pe_entry_key ` set (pendings res tj)" using fresh by blast
    ultimately have "distinct (map pe_entry_key (map fst res @ p # tj))"
      "distinct (map pe_entry_key ((map fst res @ tj) @ p # []))"
      unfolding distinct_map_insert p(2) by auto
    moreover have "pendings (res @ r) (tj @ j) = map fst res @ p # tj \<or>
        pendings (res @ r) (tj @ j) = (map fst res @ tj) @ p # []"
      using rj by auto
    ultimately show ?thesis by metis
  qed
  have all: "\<forall>q\<in>set (pendings (res @ r) (tj @ j)). pending_for env chs ma q"
    unfolding set_new using I p(1) by simp
  have names: "set (map pe_entry_key (pendings (res @ r) (tj @ j))) = set (ks @ [k])"
  proof -
    have "pe_entry_key ` set (pendings res tj) = set ks" using I by (metis set_map)
    then show ?thesis unfolding set_map set_new image_insert p(2) by simp
  qed
  have calm: "\<forall>(q, v)\<in>set (res @ r). \<not> promotes v" using I rj by auto
  have rest: "bt_get (as_restored (try_rearm_decision p st)) k' = bt_get (as_restored st0) k'"
    if "k' \<notin> set (ks @ [k])" for k'
    using try_rearm_other(2) [OF ok(1), of k' p] I that p(2) by simp
  have frame: "as_journal st = as_journal st0" using I by blast
  show ?thesis
    unfolding step classified_inv_def prod.case
    using try_rearm_ok [OF ok, of p] keys all names calm rest dec frame by simp
qed

lemma classify_all_inv:
  assumes "bt_ok (as_decisions st)" "bt_ok (as_restored st)"
  shows "classified_inv env chs (model_attack_set (as_decisions st)) st (map fst (idx_by_entry chs)) (classify_all env chs st)"
proof -
  have "classified_inv env chs ma st (map fst es) (fold (classify_entry env chs ma) es (st, [], []))"
    if "\<forall>(k, is)\<in>set es. is = entry_idxs chs k \<and> is \<noteq> []" "distinct (map fst es)" for es ma
    using that
  proof (induction es rule: rev_induct)
    case Nil
    then show ?case using assms by (simp add: classified_inv_def)
  next
    case (snoc e es)
    then show ?case
      using classified_inv_step [of env chs ma st "map fst es" _ "fst e" "snd e"] by (cases e) auto
  qed
  moreover have "distinct (map fst (idx_by_entry chs))"
    using idx_by_entry_ok bt.distinct_entries by blast
  moreover have "\<forall>(k, is)\<in>set (idx_by_entry chs). is = entry_idxs chs k \<and> is \<noteq> []"
    using idx_by_entry_mem [of _ _ chs] by auto
  ultimately show ?thesis unfolding classify_all_def by blast
qed

section \<open>The concurrent answers\<close>

declare to_verdict.simps [simp del] of_verdict.simps [simp del]

lemma reorder:
  assumes "distinct is" "set is = {0..<length xs}"
  shows "set (map (\<lambda>i. xs ! i) is) = set xs"
    and "distinct (map f xs) \<Longrightarrow> distinct (map f (map (\<lambda>i. xs ! i) is))"
proof -
  show "set (map (\<lambda>i. xs ! i) is) = set xs" using assms(2) by (auto simp: in_set_conv_nth)
  assume d: "distinct (map f xs)"
  have "inj_on (\<lambda>i. f (xs ! i)) (set is)"
    using d assms(2) by (auto simp: inj_on_def distinct_conv_nth, metis)
  then show "distinct (map f (map (\<lambda>i. xs ! i) is))"
    using assms(1) by (simp add: distinct_map comp_def)
qed

definition answers :: "'g adj_env \<Rightarrow> pending_entry list \<Rightarrow> (pending_entry \<times> incident_decision) set" where
  "answers env ps = {(p, d). p \<in> set ps \<and> judge_pending env p = Some (p, d)}"

lemma judge_pending_fst: "judge_pending env p = Some pd \<Longrightarrow> fst pd = p"
  by (auto simp: judge_pending_def)

lemma judge_all_Some:
  assumes "completion_ok env" "judge_all env ps = Some rs" "distinct (map pe_entry_key ps)"
  shows "set rs = answers env ps" "distinct (map (pe_entry_key \<circ> fst) rs)" "fst ` set rs = set ps"
proof -
  obtain qs where qs: "those (map (judge_pending env) ps) = Some qs"
    and rs: "rs = map (\<lambda>i. qs ! i) (ae_completion env (length qs))"
    using assms(2) by (auto simp: judge_all_def)
  have perm: "distinct (ae_completion env (length qs))" "set (ae_completion env (length qs)) = {0..<length qs}"
    using assms(1) by (auto simp: completion_ok_def)
  have l: "list_all2 (\<lambda>p pd. judge_pending env p = Some pd) ps qs" using qs by (simp add: those_map_eq_Some)
  have fst_qs: "map fst qs = ps"
    using l by (induction rule: list_all2_induct) (auto dest: judge_pending_fst)
  have "set qs = answers env ps"
    using those_map_set [OF qs] judge_pending_fst by (fastforce simp: answers_def)
  then show "set rs = answers env ps" unfolding rs using reorder(1) [OF perm] by simp
  show "distinct (map (pe_entry_key \<circ> fst) rs)"
    unfolding rs using reorder(2) [OF perm, of "pe_entry_key \<circ> fst"] assms(3) fst_qs
    by (metis map_map)
  show "fst ` set rs = set ps" unfolding rs reorder(1) [OF perm] using fst_qs by (metis set_map)
qed

text \<open>What one answer makes of its entry's record.\<close>

definition decided_entry :: "'g adj_env \<Rightarrow> nat \<Rightarrow> pending_entry \<times> incident_decision \<Rightarrow> verdict_entry \<Rightarrow> verdict_entry" where
  "decided_entry env slots pd e =
     (case pd of (p, d) \<Rightarrow>
        (let v = to_verdict d
         in if decisive v
            then e\<lparr>ve_cached := lru_insert (pe_fingerprint p) v slots (ve_cached e),
                   ve_baseline := Some \<lparr>vb_surface = pe_surface p, vb_verdict = v\<rparr>,
                   ve_backoff := backoff_success (ve_backoff e), decisive_at := Some (ae_now env)\<rparr>
            else e\<lparr>ve_backoff :=
                     the (backoff_failure (ae_now env) (ae_jitter_seed env (pe_entry_key p)) (ve_backoff e))\<rparr>))"

definition incident_lines :: "decisions \<Rightarrow> (pending_entry \<times> incident_decision) list \<Rightarrow> journal_decision list" where
  "incident_lines ds pds =
     map (\<lambda>(p, d). incident_line p d)
       (filter (\<lambda>(p, d). decisive (to_verdict d) \<and> bt_get ds (pe_entry_key p) \<noteq> Some d) pds)"

lemma fold_decision_char:
  assumes ok: "bt_ok (vs_entries (as_verdicts st))"
  shows "\<exists>vs. fold_decision env (p, d) (st, res) =
      Some (st\<lparr>as_verdicts := vs,
               as_decisions := (if decisive (to_verdict d) then bt_put (pe_entry_key p) d (as_decisions st)
                                else as_decisions st),
               as_journal := as_journal st @ incident_lines (as_decisions st) [(p, d)]\<rparr>,
            res @ [(p, to_verdict d)]) \<and>
    bt_ok (vs_entries vs) \<and> cache_slots vs = cache_slots (as_verdicts st) \<and>
    (\<forall>k. bt_get (vs_entries vs) k =
       (if k = pe_entry_key p
        then Some (decided_entry env (cache_slots (as_verdicts st)) (p, d) (entry_of (as_verdicts st) k))
        else bt_get (vs_entries (as_verdicts st)) k))"
proof (cases "decisive (to_verdict d)")
  case True
  let ?k = "pe_entry_key p"
  let ?a = "cache_decisive ?k (pe_fingerprint p) (to_verdict d) (as_verdicts st)"
  let ?b = "set_baseline ?k (pe_surface p) (to_verdict d) ?a"
  have a: "bt_ok (vs_entries ?a)" using ok by (simp add: cache_decisive_def vs_update_bt_ok)
  have b: "bt_ok (vs_entries ?b)" using a by (simp add: set_baseline_def vs_update_bt_ok)
  have ea: "entry_of ?a ?k = (entry_of (as_verdicts st) ?k)\<lparr>ve_cached :=
      lru_insert (pe_fingerprint p) (to_verdict d) (cache_slots (as_verdicts st)) (ve_cached (entry_of (as_verdicts st) ?k))\<rparr>"
    unfolding entry_of_def [of ?a] using ok by (simp add: cache_decisive_def vs_update_get)
  have eb: "entry_of ?b ?k = (entry_of ?a ?k)\<lparr>ve_baseline := Some \<lparr>vb_surface = pe_surface p, vb_verdict = to_verdict d\<rparr>\<rparr>"
    unfolding entry_of_def [of ?b] using a by (simp add: set_baseline_def vs_update_get)
  have get: "bt_get (vs_entries (record_decisive ?k (ae_now env) ?b)) k =
      (if k = ?k then Some (decided_entry env (cache_slots (as_verdicts st)) (p, d) (entry_of (as_verdicts st) k))
       else bt_get (vs_entries (as_verdicts st)) k)" for k
    using vs_update_get [OF b, of ?k _ k] ok a eb ea True
    by (auto simp: record_decisive_def decided_entry_def set_baseline_def cache_decisive_def vs_update_get Let_def)
  have "bt_ok (vs_entries (record_decisive ?k (ae_now env) ?b))"
    "cache_slots (record_decisive ?k (ae_now env) ?b) = cache_slots (as_verdicts st)"
    using b by (simp_all add: record_decisive_def vs_update_bt_ok set_baseline_def cache_decisive_def)
  with get True show ?thesis
    by (intro exI [of _ "record_decisive ?k (ae_now env) ?b"])
       (simp add: fold_decision_def Let_def incident_lines_def)
next
  case False
  let ?k = "pe_entry_key p"
  obtain b where b: "backoff_failure (ae_now env) (ae_jitter_seed env ?k) (ve_backoff (entry_of (as_verdicts st) ?k)) = Some b"
    using backoff_failure_total by blast
  let ?vs = "(vs_update ?k (\<lambda>e. e\<lparr>ve_backoff := b\<rparr>) (as_verdicts st))\<lparr>vs_breaker :=
      breaker_failure (ae_now env) (vs_breaker (as_verdicts st))\<rparr>"
  have "record_inconclusive (ae_jitter_seed env) ?k (ae_now env) (as_verdicts st) = Some ?vs"
    using b unfolding record_inconclusive_def entry_of_def [symmetric] Let_def by simp
  then show ?thesis
    using False ok b
    by (intro exI [of _ ?vs])
       (auto simp: fold_decision_def Let_def incident_lines_def vs_update_bt_ok vs_update_get decided_entry_def)
qed

text \<open>The answer for a key, and the state after all of them, key by key.\<close>

definition answer_for ::
  "(pending_entry \<times> incident_decision) list \<Rightarrow> string \<Rightarrow> (pending_entry \<times> incident_decision) option" where
  "answer_for pds k = find (\<lambda>pd. pe_entry_key (fst pd) = k) pds"

definition folded_entry ::
  "'g adj_env \<Rightarrow> verdict_store \<Rightarrow> (pending_entry \<times> incident_decision) option \<Rightarrow> string \<Rightarrow> verdict_entry option" where
  "folded_entry env vs a k =
     (case a of Some pd \<Rightarrow> Some (decided_entry env (cache_slots vs) pd (entry_of vs k))
      | None \<Rightarrow> bt_get (vs_entries vs) k)"

definition folded_decision ::
  "decisions \<Rightarrow> (pending_entry \<times> incident_decision) option \<Rightarrow> string \<Rightarrow> incident_decision option" where
  "folded_decision ds a k =
     (case a of Some (p, d) \<Rightarrow> if decisive (to_verdict d) then Some d else bt_get ds k | None \<Rightarrow> bt_get ds k)"

lemma fold_decisions_char:
  assumes "bt_ok (vs_entries (as_verdicts st))" "bt_ok (as_decisions st)"
    and "distinct (map (pe_entry_key \<circ> fst) pds)"
  shows "\<exists>vs ds. fold_decisions env pds (st, res) =
      Some (st\<lparr>as_verdicts := vs, as_decisions := ds,
               as_journal := as_journal st @ incident_lines (as_decisions st) pds\<rparr>,
            res @ map (\<lambda>(p, d). (p, to_verdict d)) pds) \<and>
    bt_ok (vs_entries vs) \<and> bt_ok ds \<and> cache_slots vs = cache_slots (as_verdicts st) \<and>
    (\<forall>k. bt_get (vs_entries vs) k = folded_entry env (as_verdicts st) (answer_for pds k) k) \<and>
    (\<forall>k. bt_get ds k = folded_decision (as_decisions st) (answer_for pds k) k)"
  using assms
proof (induction pds arbitrary: st res)
  case Nil
  then show ?case
    by (intro exI [of _ "as_verdicts st"] exI [of _ "as_decisions st"])
       (simp add: answer_for_def folded_entry_def folded_decision_def incident_lines_def)
next
  case (Cons pd pds)
  obtain p d where pd: "pd = (p, d)" by fastforce
  let ?k = "pe_entry_key p"
  obtain vs where step: "fold_decision env pd (st, res) =
      Some (st\<lparr>as_verdicts := vs,
               as_decisions := (if decisive (to_verdict d) then bt_put ?k d (as_decisions st) else as_decisions st),
               as_journal := as_journal st @ incident_lines (as_decisions st) [pd]\<rparr>, res @ [(p, to_verdict d)])"
    (is "_ = Some (?st1, _)")
    and vs: "bt_ok (vs_entries vs)" "cache_slots vs = cache_slots (as_verdicts st)"
      "\<And>k. bt_get (vs_entries vs) k =
         (if k = ?k then Some (decided_entry env (cache_slots (as_verdicts st)) pd (entry_of (as_verdicts st) k))
          else bt_get (vs_entries (as_verdicts st)) k)"
    using fold_decision_char [OF Cons.prems(1), of env p d res] unfolding pd by blast
  have ok1: "bt_ok (vs_entries (as_verdicts ?st1))" "bt_ok (as_decisions ?st1)"
    using vs(1) Cons.prems(2) by simp_all
  have new: "?k \<notin> (pe_entry_key \<circ> fst) ` set pds" and dist: "distinct (map (pe_entry_key \<circ> fst) pds)"
    using Cons.prems(3) by (simp_all add: pd comp_def)
  have none: "answer_for pds ?k = None"
    using new by (force simp: answer_for_def find_None_iff)
  have dec1: "bt_get (as_decisions ?st1) k = bt_get (as_decisions st) k" if "k \<noteq> ?k" for k
    using that Cons.prems(2) by (simp add: bt_get_put)
  have lns: "incident_lines (as_decisions ?st1) pds = incident_lines (as_decisions st) pds"
  proof -
    have "pe_entry_key (fst q) \<noteq> ?k" if "q \<in> set pds" for q using that new by (metis comp_apply image_eqI)
    then have same: "bt_get (as_decisions ?st1) (pe_entry_key (fst q)) = bt_get (as_decisions st) (pe_entry_key (fst q))"
      if "q \<in> set pds" for q
      using dec1 that by blast
    have "filter (\<lambda>(p, d). decisive (to_verdict d) \<and> bt_get (as_decisions ?st1) (pe_entry_key p) \<noteq> Some d) pds =
        filter (\<lambda>(p, d). decisive (to_verdict d) \<and> bt_get (as_decisions st) (pe_entry_key p) \<noteq> Some d) pds"
      by (intro filter_cong refl) (simp only: split_beta same)
    then show ?thesis by (simp only: incident_lines_def)
  qed
  obtain vs2 ds2 where rest: "fold_decisions env pds (?st1, res @ [(p, to_verdict d)]) =
      Some (?st1\<lparr>as_verdicts := vs2, as_decisions := ds2,
               as_journal := as_journal ?st1 @ incident_lines (as_decisions ?st1) pds\<rparr>,
            (res @ [(p, to_verdict d)]) @ map (\<lambda>(p, d). (p, to_verdict d)) pds)"
    and vs2: "bt_ok (vs_entries vs2)" "bt_ok ds2" "cache_slots vs2 = cache_slots (as_verdicts ?st1)"
      "\<And>k. bt_get (vs_entries vs2) k = folded_entry env (as_verdicts ?st1) (answer_for pds k) k"
      "\<And>k. bt_get ds2 k = folded_decision (as_decisions ?st1) (answer_for pds k) k"
    using Cons.IH [OF ok1 dist, of "res @ [(p, to_verdict d)]"] by blast
  have E: "bt_get (vs_entries vs2) k = folded_entry env (as_verdicts st) (answer_for (pd # pds) k) k" for k
    using vs2(4) [of k] none vs(2) vs(3) [of k]
    by (cases "k = ?k") (auto simp: folded_entry_def answer_for_def pd entry_of_def split: option.split)
  have D: "bt_get ds2 k = folded_decision (as_decisions st) (answer_for (pd # pds) k) k" for k
    using vs2(5) [of k] none dec1 [of k] Cons.prems(2)
    by (cases "k = ?k") (auto simp: folded_decision_def answer_for_def pd bt_get_put split: option.split)
  have J: "as_journal ?st1 @ incident_lines (as_decisions ?st1) pds =
      as_journal st @ incident_lines (as_decisions st) (pd # pds)"
    unfolding lns by (simp add: incident_lines_def pd)
  show ?case
    using step rest vs2 E D J vs(2) by (intro exI [of _ vs2] exI [of _ ds2]) (simp add: pd)
qed

section \<open>Settling the entries\<close>

text \<open>The verdict an entry displays after this pass, and what settling makes of its record.\<close>

definition shown_now :: "verdict_entry \<Rightarrow> verdict \<Rightarrow> verdict" where
  "shown_now e v =
     (if decisive v then v
      else (case ve_display e of Some q \<Rightarrow> if decisive q then q else v | None \<Rightarrow> v))"

definition settled_lines :: "'g adj_env \<Rightarrow> pending_entry \<Rightarrow> verdict \<Rightarrow> verdict_entry \<Rightarrow> journal_decision list" where
  "settled_lines env p v e =
     (let q = shown_now e v
      in if decisive q \<and> ve_journaled e \<noteq> Some (verdict_summary q) then [breach_line env p v q] else [])"

definition settled_entry :: "'g adj_env \<Rightarrow> verdict \<Rightarrow> verdict_entry \<Rightarrow> verdict_entry" where
  "settled_entry env v e =
     (let q = shown_now e v;
          e1 = recency_step (of_verdict (Some q)) (ae_now env) (display_step v e)
      in if decisive q \<and> ve_journaled e \<noteq> Some (verdict_summary q)
         then e1\<lparr>ve_journaled := Some (verdict_summary q)\<rparr> else e1)"

lemma shown_now_display: "ve_display (display_step v e) = Some (shown_now e v)"
  by (simp add: display_step_display shown_now_def split: option.split)

lemma journaled_steps [simp]:
  "ve_journaled (recency_step q t e) = ve_journaled e" "ve_journaled (display_step v e) = ve_journaled e"
  by (simp_all add: recency_step_def display_step_def Let_def)

lemma entry_of_update: "bt_ok (vs_entries st) \<Longrightarrow> entry_of (vs_update k f st) k = f (entry_of st k)"
  unfolding entry_of_def [of "vs_update k f st"] by (simp add: vs_update_get)

lemma settle_entry_char:
  assumes ok: "bt_ok (vs_entries (as_verdicts st))"
  shows "\<exists>vs. settle_entry env (k, p, v) (st, chs) =
      Some (st\<lparr>as_journal := as_journal st @ settled_lines env p v (entry_of (as_verdicts st) k), as_verdicts := vs\<rparr>,
            fold (\<lambda>i cs. cs[i := stamp_chain (judgement_enabled (ae_active env))
                                  (shown_now (entry_of (as_verdicts st) k) v) v (cs ! i)]) (pe_idxs p) chs) \<and>
    bt_ok (vs_entries vs) \<and>
    (\<forall>k'. bt_get (vs_entries vs) k' =
       (if k' = k then Some (settled_entry env v (entry_of (as_verdicts st) k))
        else bt_get (vs_entries (as_verdicts st)) k'))"
proof -
  let ?e = "entry_of (as_verdicts st) k"
  let ?q = "shown_now ?e v"
  let ?vs1 = "vs_update k (display_step v) (as_verdicts st)"
  let ?vs2 = "record_recency k (of_verdict (Some ?q)) (ae_now env) ?vs1"
  let ?vs = "if decisive ?q \<and> ve_journaled ?e \<noteq> Some (verdict_summary ?q) then set_journaled k (verdict_summary ?q) ?vs2
             else ?vs2"
  have ok1: "bt_ok (vs_entries ?vs1)" using ok by (rule vs_update_bt_ok)
  have e1: "entry_of ?vs1 k = display_step v ?e" using ok by (rule entry_of_update)
  have ok2: "bt_ok (vs_entries ?vs2)" unfolding record_recency_def using ok1 by (rule vs_update_bt_ok)
  have e2: "entry_of ?vs2 k = recency_step (of_verdict (Some ?q)) (ae_now env) (display_step v ?e)"
    unfolding record_recency_def entry_of_update [OF ok1] e1 ..
  have d: "resolve_display k v (as_verdicts st) = (Some ?q, ?vs1)"
    using ok by (simp add: resolve_display_def Let_def display_verdict_def vs_update_get shown_now_display)
  have j: "journaled ?vs2 k = ve_journaled ?e"
    unfolding journaled_def record_recency_def using ok1 by (simp add: vs_update_get e1)
  have get2: "bt_get (vs_entries ?vs2) k' =
      (if k' = k then Some (recency_step (of_verdict (Some ?q)) (ae_now env) (display_step v ?e))
       else bt_get (vs_entries (as_verdicts st)) k')" for k'
    unfolding record_recency_def using ok ok1 by (simp add: vs_update_get e1)
  have step: "settle_entry env (k, p, v) (st, chs) =
      Some (st\<lparr>as_journal := as_journal st @ settled_lines env p v ?e, as_verdicts := ?vs\<rparr>,
            fold (\<lambda>i cs. cs[i := stamp_chain (judgement_enabled (ae_active env)) ?q v (cs ! i)]) (pe_idxs p) chs)"
    by (simp add: settle_entry_def d j Let_def settled_lines_def)
  have "bt_ok (vs_entries ?vs)" using ok2 by (simp add: set_journaled_def vs_update_bt_ok)
  moreover have "bt_get (vs_entries ?vs) k' =
      (if k' = k then Some (settled_entry env v ?e) else bt_get (vs_entries (as_verdicts st)) k')" for k'
    using ok2 by (simp add: set_journaled_def vs_update_get e2 get2 settled_entry_def Let_def)
  ultimately show ?thesis using step by blast
qed

lemma fold_stamp:
  assumes "distinct is" "\<forall>i\<in>set is. i < length chs"
  shows "length (fold (\<lambda>i cs. cs[i := f (cs ! i)]) is chs) = length chs \<and>
    (\<forall>i<length chs. fold (\<lambda>i cs. cs[i := f (cs ! i)]) is chs ! i = (if i \<in> set is then f (chs ! i) else chs ! i))"
  using assms
proof (induction "is" arbitrary: chs)
  case (Cons j js)
  then show ?case using Cons.IH [of "chs[j := f (chs ! j)]"] by (auto simp: nth_list_update)
qed simp

text \<open>All entries: the keys are distinct and every record owns the chains of its entry.\<close>

definition outcomes_ok :: "proven_chain list \<Rightarrow> (string \<times> pending_entry \<times> verdict) list \<Rightarrow> bool" where
  "outcomes_ok chs0 xs \<longleftrightarrow>
     distinct (map fst xs) \<and> (\<forall>(k, p, v)\<in>set xs. pe_idxs p = entry_idxs chs0 k)"

definition settled_chain ::
  "'g adj_env \<Rightarrow> verdict_store \<Rightarrow> (pending_entry \<times> verdict) option \<Rightarrow> proven_chain \<Rightarrow> proven_chain" where
  "settled_chain env vs a c =
     (case a of
        Some (p, v) \<Rightarrow>
          if is_breach_relevant c
          then stamp_chain (judgement_enabled (ae_active env)) (shown_now (entry_of vs (pc_entry c)) v) v c
          else c
      | None \<Rightarrow> c)"

lemma entry_idxs_iff:
  "i \<in> set (entry_idxs chs k) \<longleftrightarrow> i < length chs \<and> is_breach_relevant (chs ! i) \<and> pc_entry (chs ! i) = k"
  by (auto simp: entry_idxs_def)

lemma settle_all_char:
  assumes "bt_ok (vs_entries (as_verdicts st))" "outcomes_ok chs0 xs" "length chs = length chs0"
    and "\<forall>i<length chs0. pc_entry (chs0 ! i) \<in> set (map fst xs) \<longrightarrow> chs ! i = chs0 ! i"
  shows "\<exists>vs chs'. settle_all env xs (st, chs) =
      Some (st\<lparr>as_journal := as_journal st @
                 concat (map (\<lambda>(k, p, v). settled_lines env p v (entry_of (as_verdicts st) k)) xs),
               as_verdicts := vs\<rparr>, chs') \<and>
    bt_ok (vs_entries vs) \<and> length chs' = length chs0 \<and>
    (\<forall>k. bt_get (vs_entries vs) k =
       (case map_of xs k of Some (p, v) \<Rightarrow> Some (settled_entry env v (entry_of (as_verdicts st) k))
        | None \<Rightarrow> bt_get (vs_entries (as_verdicts st)) k)) \<and>
    (\<forall>i<length chs0. chs' ! i =
       (if pc_entry (chs0 ! i) \<in> set (map fst xs)
        then settled_chain env (as_verdicts st) (map_of xs (pc_entry (chs0 ! i))) (chs0 ! i) else chs ! i))"
  using assms
proof (induction xs arbitrary: st chs)
  case Nil
  then show ?case by (intro exI [of _ "as_verdicts st"] exI [of _ chs]) simp
next
  case (Cons x xs)
  obtain k p v where x: "x = (k, p, v)" by (cases x)
  let ?e = "entry_of (as_verdicts st) k"
  let ?f = "stamp_chain (judgement_enabled (ae_active env)) (shown_now ?e v) v"
  let ?chs1 = "fold (\<lambda>i cs. cs[i := ?f (cs ! i)]) (pe_idxs p) chs"
  obtain vs where step: "settle_entry env x (st, chs) =
      Some (st\<lparr>as_journal := as_journal st @ settled_lines env p v ?e, as_verdicts := vs\<rparr>, ?chs1)"
      (is "_ = Some (?st1, _)")
    and vs: "bt_ok (vs_entries vs)" "\<And>k'. bt_get (vs_entries vs) k' =
       (if k' = k then Some (settled_entry env v ?e) else bt_get (vs_entries (as_verdicts st)) k')"
    using settle_entry_char [OF Cons.prems(1), of env k p v chs] unfolding x by blast
  have idxs: "pe_idxs p = entry_idxs chs0 k" and new: "k \<notin> set (map fst xs)" and rest: "outcomes_ok chs0 xs"
    using Cons.prems(2) by (auto simp: outcomes_ok_def x)
  have stamped: "length ?chs1 = length chs0" "\<And>i. i < length chs0 \<Longrightarrow> ?chs1 ! i =
      (if i \<in> set (entry_idxs chs0 k) then ?f (chs ! i) else chs ! i)"
    using fold_stamp [of "pe_idxs p" chs ?f] Cons.prems(3) unfolding idxs by (auto simp: entry_idxs_def)
  have same: "entry_of vs k' = entry_of (as_verdicts st) k'" if "k' \<noteq> k" for k'
    using that vs(2) by (simp add: entry_of_def)
  have later: "\<forall>i<length chs0. pc_entry (chs0 ! i) \<in> set (map fst xs) \<longrightarrow> ?chs1 ! i = chs0 ! i"
    using Cons.prems(4) new by (auto simp: stamped(2) entry_idxs_iff x)
  have ok1: "bt_ok (vs_entries (as_verdicts ?st1))" and v1: "as_verdicts ?st1 = vs" using vs(1) by simp_all
  obtain vs2 chs2 where tl: "settle_all env xs (?st1, ?chs1) =
      Some (?st1\<lparr>as_journal := as_journal ?st1 @
                 concat (map (\<lambda>(k, p, v). settled_lines env p v (entry_of (as_verdicts ?st1) k)) xs),
               as_verdicts := vs2\<rparr>, chs2)"
    and vs2: "bt_ok (vs_entries vs2)" "length chs2 = length chs0"
      "\<forall>k'. bt_get (vs_entries vs2) k' =
       (case map_of xs k' of Some (p, v) \<Rightarrow> Some (settled_entry env v (entry_of (as_verdicts ?st1) k'))
        | None \<Rightarrow> bt_get (vs_entries (as_verdicts ?st1)) k')"
      "\<forall>i<length chs0. chs2 ! i =
       (if pc_entry (chs0 ! i) \<in> set (map fst xs)
        then settled_chain env (as_verdicts ?st1) (map_of xs (pc_entry (chs0 ! i))) (chs0 ! i) else ?chs1 ! i)"
    using Cons.IH [OF ok1 rest stamped(1) later] by blast
  note tl = tl [unfolded v1] and vs2 = vs2 [unfolded v1]
  have L: "concat (map (\<lambda>(k, p, v). settled_lines env p v (entry_of vs k)) xs) =
      concat (map (\<lambda>(k, p, v). settled_lines env p v (entry_of (as_verdicts st) k)) xs)"
    using new same by (intro arg_cong [of _ _ concat] map_cong refl) (force simp: image_iff)
  have none: "map_of xs k = None" using new by (simp add: map_of_eq_None_iff)
  have E: "bt_get (vs_entries vs2) k' =
      (case map_of (x # xs) k' of Some (p, v) \<Rightarrow> Some (settled_entry env v (entry_of (as_verdicts st) k'))
       | None \<Rightarrow> bt_get (vs_entries (as_verdicts st)) k')" for k'
    using vs2(3) [rule_format, of k'] vs(2) [of k'] none same [of k'] by (cases "k' = k") (auto simp: x split: option.split)
  have C: "chs2 ! i = (if pc_entry (chs0 ! i) \<in> set (map fst (x # xs))
        then settled_chain env (as_verdicts st) (map_of (x # xs) (pc_entry (chs0 ! i))) (chs0 ! i) else chs ! i)"
    if i: "i < length chs0" for i
    using vs2(4) [rule_format, OF i] stamped(2) [OF i] Cons.prems(4) i new same [of "pc_entry (chs0 ! i)"]
    by (cases "pc_entry (chs0 ! i) = k") (auto simp: x entry_idxs_iff settled_chain_def split: option.split)
  show ?case
    using step tl vs2(1,2) E C L by (intro exI [of _ vs2] exI [of _ chs2]) (simp add: x)
qed

section \<open>The pass, key by key\<close>

definition adj_ok :: "adj_state \<Rightarrow> bool" where
  "adj_ok st \<longleftrightarrow> bt_ok (vs_entries (as_verdicts st)) \<and> bt_ok (as_decisions st) \<and> bt_ok (as_restored st)"

text \<open>The verdict of this pass for an entry: the gate's, or the model's answer.\<close>

definition pass_verdict ::
  "(pending_entry \<times> verdict) list \<Rightarrow> (pending_entry \<times> incident_decision) list \<Rightarrow> string \<Rightarrow>
     (pending_entry \<times> verdict) option" where
  "pass_verdict res rs k =
     map_of (map (\<lambda>(p, v). (pe_entry_key p, p, v)) (res @ map (\<lambda>(p, d). (p, to_verdict d)) rs)) k"

lemma classify_store_bt:
  "bt_ok (vs_entries vs) \<Longrightarrow> bt_ok (vs_entries (snd (classify_adjudication k fp additive base now vs)))"
  by (auto simp: classify_adjudication_def cached_for_def gate_after_miss_def cache_decisive_def
      vs_update_bt_ok split: option.split prod.split)

lemma classify_all_bt:
  assumes "bt_ok (vs_entries (as_verdicts st))"
  shows "bt_ok (vs_entries (as_verdicts (fst (classify_all env chs st))))"
proof -
  have one: "bt_ok (vs_entries (as_verdicts (fst acc))) \<Longrightarrow>
      bt_ok (vs_entries (as_verdicts (fst (classify_entry env chs ma ei acc))))" for ma ei acc
    using classify_store_bt
    by (cases ei; cases acc)
       (auto simp: classify_entry_def Let_def split: prod.split adj_gate.split, (metis snd_conv)+)
  have "bt_ok (vs_entries (as_verdicts (fst (fold (classify_entry env chs ma) es acc))))"
    if "bt_ok (vs_entries (as_verdicts (fst acc)))" for es ma acc
    using that by (induction es arbitrary: acc) (simp_all add: one)
  then show ?thesis using assms by (simp add: classify_all_def)
qed

lemma map_of_rev_distinct: "distinct (map fst xs) \<Longrightarrow> map_of (rev xs) = map_of xs"
  by (rule map_of_eqI) (auto simp: rev_map [symmetric])

definition folded_of :: "'g adj_env \<Rightarrow> adj_state \<Rightarrow> (pending_entry \<times> incident_decision) list \<Rightarrow> string \<Rightarrow> verdict_entry" where
  "folded_of env st1 rs k =
     (case folded_entry env (as_verdicts st1) (answer_for rs k) k of Some e \<Rightarrow> e | None \<Rightarrow> entry_default)"

lemma folded_of_display: "ve_display (folded_of env st1 rs k) = ve_display (entry_of (as_verdicts st1) k)"
  by (simp add: folded_of_def folded_entry_def decided_entry_def entry_of_def Let_def
      split: option.split prod.split)

lemma shown_now_folded: "shown_now (folded_of env st1 rs k) v = shown_now (entry_of (as_verdicts st1) k) v"
  by (simp add: shown_now_def folded_of_display)

text \<open>The outcome of every breach-relevant entry, in key order.\<close>

definition pass_outcomes ::
  "(pending_entry \<times> verdict) list \<Rightarrow> (pending_entry \<times> incident_decision) list \<Rightarrow> (string \<times> pending_entry \<times> verdict) list" where
  "pass_outcomes res rs =
     bt_of_list (map (\<lambda>(p, v). (pe_entry_key p, p, v)) (res @ map (\<lambda>(p, d). (p, to_verdict d)) rs))"

lemma pass_outcomes_keys:
  assumes inv: "classified_inv env chs ma st (map fst (idx_by_entry chs)) (st1, res, tj)"
    and comp: "completion_ok env" and rs: "judge_all env tj = Some rs"
  shows "\<And>k. bt_get (pass_outcomes res rs) k = pass_verdict res rs k" "outcomes_ok chs (pass_outcomes res rs)"
    "set (map fst (pass_outcomes res rs)) = breach_entries chs"
proof -
  let ?xs = "map (\<lambda>(p, v). (pe_entry_key p, p, v)) (res @ map (\<lambda>(p, d). (p, to_verdict d)) rs)"
  have dist: "distinct (map pe_entry_key (pendings res tj))"
    and keys: "set (map pe_entry_key (pendings res tj)) = breach_entries chs"
    and pend: "\<forall>p\<in>set (pendings res tj). pending_for env chs ma p"
    using inv by (simp_all add: classified_inv_def idx_by_entry_keys [simplified])
  have tj: "distinct (map pe_entry_key tj)" using dist by simp
  note rs = judge_all_Some [OF comp rs tj]
  have names: "map fst ?xs = map pe_entry_key (map fst res) @ map (pe_entry_key \<circ> fst) rs"
    by (simp add: split_beta comp_def)
  have set_rs: "set (map (pe_entry_key \<circ> fst) rs) = pe_entry_key ` set tj"
    using rs(3) by (metis image_comp set_map)
  have dist_xs: "distinct (map fst ?xs)"
    unfolding names distinct_append set_rs using dist rs(2) by (simp add: image_image)
  have set_xs: "set (map fst ?xs) = breach_entries chs"
    unfolding names set_append set_rs using keys by (simp add: image_image image_Un)
  show get: "bt_get (pass_outcomes res rs) k = pass_verdict res rs k" for k
    unfolding pass_outcomes_def pass_verdict_def bt_of_list_get using map_of_rev_distinct [OF dist_xs] by simp
  have ok: "bt_ok (pass_outcomes res rs)" by (simp add: pass_outcomes_def)
  have mem: "x \<in> set ?xs" if "x \<in> set (pass_outcomes res rs)" for x
  proof -
    obtain k pv where x: "x = (k, pv)" by (cases x)
    then have "pass_verdict res rs k = Some pv" using that bt_entries [OF ok, of k pv] get [of k] by simp
    then show ?thesis unfolding pass_verdict_def x by (rule map_of_SomeD)
  qed
  have "pe_idxs p = entry_idxs chs k" if "(k, p, v) \<in> set (pass_outcomes res rs)" for k p v
  proof -
    have "p \<in> set (pendings res tj) \<and> pe_entry_key p = k"
    proof -
      have "pe_entry_key p = k \<and> ((p, v) \<in> set res \<or> (\<exists>d. (p, d) \<in> set rs))" using mem [OF that] by auto
      then show ?thesis unfolding set_append set_map rs(3) [symmetric] by (metis UnI1 UnI2 fst_conv imageI)
    qed
    then show ?thesis using pend pending_for_simps(2) by blast
  qed
  then show "outcomes_ok chs (pass_outcomes res rs)"
    using bt.distinct_entries [OF ok] by (auto simp: outcomes_ok_def)
  have "k \<in> set (map fst (pass_outcomes res rs)) \<longleftrightarrow> k \<in> set (map fst ?xs)" for k
    using get [of k] unfolding bt_get_def pass_verdict_def
    by (metis (no_types, lifting) image_set map_of_eq_None_iff)
  then show "set (map fst (pass_outcomes res rs)) = breach_entries chs" using set_xs by blast
qed

lemma retain_current_get:
  assumes "adj_ok st"
  shows "adj_ok (retain_current present st)"
    "as_journal (retain_current present st) = as_journal st"
    "bt_get (as_decisions (retain_current present st)) k = (if k \<in> present then bt_get (as_decisions st) k else None)"
    "bt_get (vs_entries (as_verdicts (retain_current present st))) k =
       (if k \<in> present then bt_get (vs_entries (as_verdicts st)) k else None)"
    "bt_get (as_restored (retain_current present st)) k = (if k \<in> present then bt_get (as_restored st) k else None)"
proof -
  have r: "vs_entries (retain_present present vs) = bt_keep (\<lambda>k. k \<in> present) (vs_entries vs)" for vs
    by (simp add: retain_present_def bt_keep_def)
  show "adj_ok (retain_current present st)" using assms by (simp add: adj_ok_def retain_current_def r)
qed (simp_all add: retain_current_def retain_present_def bt_keep_get bt_keep_def [symmetric])

definition pass_result ::
  "'g adj_env \<Rightarrow> proven_chain list \<Rightarrow> adj_state \<Rightarrow> adj_state \<Rightarrow> (pending_entry \<times> verdict) list \<Rightarrow>
     (pending_entry \<times> incident_decision) list \<Rightarrow> adj_state \<Rightarrow> proven_chain list \<Rightarrow> bool" where
  "pass_result env chs st st1 res rs st' chs' \<longleftrightarrow>
     adj_ok st' \<and> length chs' = length chs \<and>
     (\<forall>k. bt_get (as_decisions st') k =
       (if k \<in> breach_entries chs then folded_decision (as_decisions st1) (answer_for rs k) k else None)) \<and>
     as_journal st' = as_journal st @ incident_lines (as_decisions st1) rs @
       concat (map (\<lambda>(k, p, v). settled_lines env p v (folded_of env st1 rs k)) (pass_outcomes res rs)) \<and>
     (\<forall>k. bt_get (vs_entries (as_verdicts st')) k =
       (case pass_verdict res rs k of Some (p, v) \<Rightarrow> Some (settled_entry env v (folded_of env st1 rs k)) | None \<Rightarrow> None)) \<and>
     (\<forall>i<length chs.
       chs' ! i = settled_chain env (as_verdicts st1) (pass_verdict res rs (pc_entry (chs ! i))) (chs ! i))"

lemma run_pass_Some:
  assumes ok: "adj_ok st" and comp: "completion_ok env"
    and c: "classify_all env chs st = (st1, res, tj)" and rs: "judge_all env tj = Some rs"
  shows "\<exists>st' chs'. run_adjudication_pass env chs st = Some (st', chs') \<and> pass_result env chs st st1 res rs st' chs'"
proof -
  have inv: "classified_inv env chs (model_attack_set (as_decisions st)) st (map fst (idx_by_entry chs)) (st1, res, tj)"
    using classify_all_inv [of st env chs] ok unfolding c adj_ok_def by blast
  have ok1: "bt_ok (vs_entries (as_verdicts st1))" "bt_ok (as_decisions st1)" "bt_ok (as_restored st1)"
    "as_journal st1 = as_journal st" "distinct (map pe_entry_key tj)"
    using classify_all_bt [of st env chs] ok inv unfolding c adj_ok_def classified_inv_def by auto
  note out = pass_outcomes_keys [OF inv comp rs]
  obtain vs2 ds2 where st2: "fold_decisions env rs (st1, res) =
      Some (st1\<lparr>as_verdicts := vs2, as_decisions := ds2,
               as_journal := as_journal st1 @ incident_lines (as_decisions st1) rs\<rparr>,
            res @ map (\<lambda>(p, d). (p, to_verdict d)) rs)" (is "_ = Some (?st2, _)")
    and vs2: "bt_ok (vs_entries vs2)" "bt_ok ds2"
      "\<And>k. bt_get (vs_entries vs2) k = folded_entry env (as_verdicts st1) (answer_for rs k) k"
      "\<And>k. bt_get ds2 k = folded_decision (as_decisions st1) (answer_for rs k) k"
    using fold_decisions_char [OF ok1(1,2) judge_all_Some(2) [OF comp rs ok1(5)], of env res] by blast
  have e2: "entry_of vs2 k = folded_of env st1 rs k" for k
    by (simp add: entry_of_def folded_of_def vs2(3))
  have ok2: "bt_ok (vs_entries (as_verdicts ?st2))" using vs2(1) by simp
  obtain vs3 chs3 where st3: "settle_all env (pass_outcomes res rs) (?st2, chs) =
      Some (?st2\<lparr>as_journal := as_journal ?st2 @
                 concat (map (\<lambda>(k, p, v). settled_lines env p v (entry_of (as_verdicts ?st2) k)) (pass_outcomes res rs)),
               as_verdicts := vs3\<rparr>, chs3)" (is "_ = Some (?st3, _)")
    and vs3: "bt_ok (vs_entries vs3)" "length chs3 = length chs"
      "\<forall>k. bt_get (vs_entries vs3) k =
         (case map_of (pass_outcomes res rs) k of Some (p, v) \<Rightarrow> Some (settled_entry env v (entry_of (as_verdicts ?st2) k))
          | None \<Rightarrow> bt_get (vs_entries (as_verdicts ?st2)) k)"
      "\<forall>i<length chs. chs3 ! i =
         (if pc_entry (chs ! i) \<in> set (map fst (pass_outcomes res rs))
          then settled_chain env (as_verdicts ?st2) (map_of (pass_outcomes res rs) (pc_entry (chs ! i))) (chs ! i)
          else chs ! i)"
    using settle_all_char [OF ok2 out(2) refl, of env] by blast
  have out_of: "map_of (pass_outcomes res rs) k = pass_verdict res rs k" for k using out(1) by (simp add: bt_get_def)
  have none: "pass_verdict res rs k = None \<longleftrightarrow> k \<notin> breach_entries chs" for k
    using out(3) out_of [of k] by (metis map_of_eq_None_iff set_map)
  let ?st' = "retain_current (breach_entries chs) ?st3"
  have run: "run_adjudication_pass env chs st = Some (?st', chs3)"
    unfolding run_adjudication_pass_def
    by (simp only: c prod.case rs Option.bind.bind_lunit st2 pass_outcomes_def [symmetric] st3 idx_by_entry_keys)
  have ok3: "adj_ok ?st3" using vs2 vs3(1) ok1(3) by (simp add: adj_ok_def)
  note keep = retain_current_get [OF ok3, of "breach_entries chs"]
  have J: "as_journal ?st' = as_journal st @ incident_lines (as_decisions st1) rs @
       concat (map (\<lambda>(k, p, v). settled_lines env p v (folded_of env st1 rs k)) (pass_outcomes res rs))"
    unfolding keep(2) by (simp add: ok1(4) e2)
  have E: "bt_get (vs_entries (as_verdicts ?st')) k =
       (case pass_verdict res rs k of Some (p, v) \<Rightarrow> Some (settled_entry env v (folded_of env st1 rs k)) | None \<Rightarrow> None)" for k
    using keep(4) [of k] vs3(3) [rule_format, of k] none [of k]
    by (cases "pass_verdict res rs k") (auto simp: out_of e2)
  have C: "chs3 ! i = settled_chain env (as_verdicts st1) (pass_verdict res rs (pc_entry (chs ! i))) (chs ! i)"
    if "i < length chs" for i
    using vs3(4) that none [of "pc_entry (chs ! i)"] unfolding out(3) out_of
    by (auto simp: settled_chain_def e2 shown_now_folded split: option.split)
  have D: "bt_get (as_decisions ?st') k =
       (if k \<in> breach_entries chs then folded_decision (as_decisions st1) (answer_for rs k) k else None)" for k
    unfolding keep(3) by (simp add: vs2(4))
  show ?thesis using run keep(1) vs3(2) J E C D unfolding pass_result_def by blast
qed

lemma run_pass_char:
  assumes ok: "adj_ok st" and comp: "completion_ok env"
    and run: "run_adjudication_pass env chs st = Some (st', chs')"
  obtains st1 res tj rs where "classify_all env chs st = (st1, res, tj)"
    "classified_inv env chs (model_attack_set (as_decisions st)) st (map fst (idx_by_entry chs)) (st1, res, tj)"
    "judge_all env tj = Some rs" "pass_result env chs st st1 res rs st' chs'"
proof -
  obtain st1 res tj where c: "classify_all env chs st = (st1, res, tj)" by (metis prod_cases3)
  obtain rs where rs: "judge_all env tj = Some rs"
    using run by (auto simp: run_adjudication_pass_def c split: option.splits bind_splits)
  have "classified_inv env chs (model_attack_set (as_decisions st)) st (map fst (idx_by_entry chs)) (st1, res, tj)"
    using classify_all_inv [of st env chs] ok unfolding c adj_ok_def by blast
  with c rs run_pass_Some [OF ok comp c rs] run show thesis by (auto intro: that)
qed

section \<open>A run\<close>

definition demo_env :: "adj_graph adj_env" where
  "demo_env =
     \<lparr>ae_ops = adj_ops, ae_sha = (\<lambda>s. []),
      ae_from_str = (\<lambda>s. if s = [CHR 0x7B, CHR 0x7D] then Some sample_object else None),
      ae_chat = (\<lambda>prompt. web_reply), ae_jitter_seed = (\<lambda>k. 0), ae_completion = (\<lambda>n. [0..<n]), ae_asn = [],
      ae_graph = ex_sg, ae_health = [], ae_now = 0,
      ae_active = \<lparr>enabled = {QuarantineEntry}, judgement = True\<rparr>\<rparr>"

definition demo_chain :: proven_chain where
  "demo_chain = web_chain\<lparr>corroborated := False, promoted := False\<rparr>"

definition demo_state :: adj_state where
  "demo_state =
     \<lparr>as_verdicts = with_cache_slots 32, as_decisions = [], as_restored = [], as_journal = []\<rparr>"

abbreviation demo_menu :: menu where
  "demo_menu \<equiv> entry_menu adj_ops ex_sg [] [] [0] [demo_chain]"

definition demo_pending :: pending_entry where
  "demo_pending =
     fst (prepare_pending demo_env (with_cache_slots 32) web_key web_key (entry_objectives [demo_chain] [0])
            (downstream_workloads web_key [0] [demo_chain]) [0] demo_menu)"

lemma demo_ok: "adj_ok demo_state" "completion_ok demo_env"
  by (simp_all add: adj_ok_def demo_state_def with_cache_slots_def completion_ok_def demo_env_def)

lemma demo_chain_simps [simp]:
  "is_breach_relevant demo_chain" "pc_entry demo_chain = web_key" "\<not> corroborated demo_chain" "\<not> promoted demo_chain"
  by (simp_all add: demo_chain_def web_chain_def is_breach_relevant_def)

lemma demo_idx: "idx_by_entry [demo_chain] = [(web_key, [0])]"
  by (simp add: idx_by_entry_def group_idx_def bt_get_def)

text \<open>With an empty store there is no baseline, so the entry is judged.\<close>

lemma demo_classified: "classify_all demo_env [demo_chain] demo_state = (demo_state, [], [demo_pending])"
proof -
  let ?prep = "prepare_pending demo_env (with_cache_slots 32) web_key web_key (entry_objectives [demo_chain] [0])
            (downstream_workloads web_key [0] [demo_chain]) [0] demo_menu"
  have p: "?prep = (demo_pending, True, None)"
    unfolding demo_pending_def prod_eq_iff
    by (simp add: prepare_pending_def Let_def baseline_for_def with_cache_slots_def bt_get_def
        build_delta_prompt_def split: prod.split)
  have k: "pe_entry_key demo_pending = web_key" by (simp add: demo_pending_def)
  have rearm: "try_rearm_decision demo_pending demo_state = demo_state"
    by (simp add: try_rearm_decision_def demo_state_def bt_get_def)
  have gate: "classify_adjudication web_key fp True None 0 (with_cache_slots 32) = (Judge, with_cache_slots 32)" for fp
    by (simp add: classify_adjudication_def cached_for_def with_cache_slots_def bt_get_def gate_after_miss_def
        gate_after_hold_def breaker_open_def entry_backing_off_def is_open_def breaker_default_def)
  have env: "ae_ops demo_env = adj_ops" "ae_graph demo_env = ex_sg" "ae_health demo_env = []" "ae_now demo_env = 0"
    by (simp_all add: demo_env_def)
  have ma: "model_attack_set [] = []" by (simp add: model_attack_set_def bs_of_list_def)
  show ?thesis
    using p k rearm gate
    by (simp add: classify_all_def demo_idx classify_entry_def demo_state_def ma env Let_def)
qed

lemma demo_judged:
  "\<exists>d. judge_pending demo_env demo_pending = Some (demo_pending, d) \<and> d_assessment d = Attack"
proof -
  have "map_option d_assessment (judge adj_ops (\<lambda>s. if s = [CHR 0x7B, CHR 0x7D] then Some sample_object else None)
      web_reply web_key ex_sg (downstream_workloads web_key [0] [demo_chain]) demo_menu) = Some Attack"
    by code_simp
  then show ?thesis
    by (auto simp: judge_pending_def demo_env_def demo_pending_def)
qed

lemma demo_run:
  obtains st' chs' d where
    "run_adjudication_pass demo_env [demo_chain] demo_state = Some (st', chs')"
    "pass_result demo_env [demo_chain] demo_state demo_state [] [(demo_pending, d)] st' chs'"
    "d_assessment d = Attack"
proof -
  obtain d where d: "judge_pending demo_env demo_pending = Some (demo_pending, d)" "d_assessment d = Attack"
    using demo_judged by blast
  have "judge_all demo_env [demo_pending] = Some [(demo_pending, d)]"
    using d(1) by (simp add: judge_all_def) (simp add: demo_env_def)
  from run_pass_Some [OF demo_ok demo_classified this] d(2) show thesis by (auto intro: that)
qed

section \<open>Where decisions come from\<close>

lemma pass_pendings:
  assumes inv: "classified_inv env chs ma st ks (st1, res, tj)" and comp: "completion_ok env"
    and rs: "judge_all env tj = Some rs" and a: "answer_for rs k = Some (p, d)"
  shows "pending_for env chs ma p \<and> pe_entry_key p = k \<and> judge_pending env p = Some (p, d)"
proof -
  have tj: "distinct (map pe_entry_key tj)" and pend: "\<forall>p\<in>set tj. pending_for env chs ma p"
    using inv by (simp_all add: classified_inv_def)
  have "(p, d) \<in> set rs" "pe_entry_key p = k" using find_SomeD [OF a [unfolded answer_for_def]] by simp_all
  then show ?thesis using judge_all_Some(1) [OF comp rs tj] pend by (auto simp: answers_def)
qed

text \<open>
  C10. A decision that stands after a pass belongs to an entry of a breach-relevant chain of this pass
  and is one of three: the decision that stood before, the model's decisive answer to the prompt of
  this pass, or a journaled decision re-armed because no decision of this run stood, its fingerprint
  is that of the current state and every one of its cuts resolves in the current menu to the
  journaled signature.\<close>

theorem standing_decisions_are_accounted_for:
  assumes "adj_ok st" "completion_ok env" "run_adjudication_pass env chs st = Some (st', chs')"
    and "bt_get (as_decisions st') k = Some d"
  shows "k \<in> breach_entries chs \<and>
    (bt_get (as_decisions st) k = Some d \<or>
     (\<exists>p. pending_for env chs (model_attack_set (as_decisions st)) p \<and> pe_entry_key p = k \<and>
        (rearmed st p d \<or> judge_pending env p = Some (p, d) \<and> decisive (to_verdict d))))"
proof -
  obtain st1 res tj rs where c: "classify_all env chs st = (st1, res, tj)"
    and inv: "classified_inv env chs (model_attack_set (as_decisions st)) st (map fst (idx_by_entry chs)) (st1, res, tj)"
    and rs: "judge_all env tj = Some rs" and R: "pass_result env chs st st1 res rs st' chs'"
    by (rule run_pass_char [OF assms(1-3)])
  have k: "k \<in> breach_entries chs" and d: "folded_decision (as_decisions st1) (answer_for rs k) k = Some d"
    using R assms(4) unfolding pass_result_def by (metis option.distinct(1))+
  have old: "bt_get (as_decisions st1) k = Some d \<Longrightarrow> bt_get (as_decisions st) k = Some d \<or>
      (\<exists>p. pending_for env chs (model_attack_set (as_decisions st)) p \<and> pe_entry_key p = k \<and> rearmed st p d)"
    using inv unfolding classified_inv_def prod.case by meson
  show ?thesis
  proof (cases "answer_for rs k")
    case None
    then show ?thesis using k d old by (auto simp: folded_decision_def)
  next
    case (Some pd)
    obtain p d' where pd: "pd = (p, d')" by (cases pd)
    note a = pass_pendings [OF inv assms(2) rs Some [unfolded pd]]
    from d Some have "decisive (to_verdict d') \<and> d' = d \<or> bt_get (as_decisions st1) k = Some d"
      by (simp add: folded_decision_def pd split: if_splits)
    with a old k show ?thesis by blast
  qed
qed

theorem standing_decisions_are_accounted_for_witness:
  "\<exists>st' chs' d. run_adjudication_pass demo_env [demo_chain] demo_state = Some (st', chs') \<and>
     bt_get (as_decisions st') web_key = Some d \<and> web_key \<in> breach_entries [demo_chain]"
proof -
  obtain st' chs' d where run: "run_adjudication_pass demo_env [demo_chain] demo_state = Some (st', chs')"
    and R: "pass_result demo_env [demo_chain] demo_state demo_state [] [(demo_pending, d)] st' chs'"
    and d: "d_assessment d = Attack" by (rule demo_run)
  have "web_key \<in> breach_entries [demo_chain]" unfolding breach_entries_def by force
  moreover have "pe_entry_key demo_pending = web_key" by (simp add: demo_pending_def)
  ultimately have "bt_get (as_decisions st') web_key = Some d"
    using R d unfolding pass_result_def by (simp add: folded_decision_def answer_for_def to_verdict.simps)
  with standing_decisions_are_accounted_for [OF demo_ok run this] run show ?thesis by blast
qed

section \<open>What the stamps rest on\<close>

lemma pass_verdict_cases:
  assumes inv: "classified_inv env chs ma st ks (st1, res, tj)" and comp: "completion_ok env"
    and rs: "judge_all env tj = Some rs" and v: "pass_verdict res rs k = Some (p, v)"
  shows "pending_for env chs ma p \<and> pe_entry_key p = k \<and>
    (\<not> promotes v \<or> (\<exists>d. judge_pending env p = Some (p, d) \<and> v = to_verdict d))"
proof -
  have tj: "distinct (map pe_entry_key tj)" and pend: "\<forall>p\<in>set (pendings res tj). pending_for env chs ma p"
    and calm: "\<forall>(p, v)\<in>set res. \<not> promotes v"
    using inv by (simp_all add: classified_inv_def)
  note J = judge_all_Some [OF comp rs tj]
  from v have "pe_entry_key p = k \<and> ((p, v) \<in> set res \<or> (\<exists>d. (p, d) \<in> set rs \<and> v = to_verdict d))"
    by (auto simp: pass_verdict_def dest!: map_of_SomeD)
  moreover have "pending_for env chs ma p" if "(p, d) \<in> set rs" for d
    using that J(3) pend by (metis UnI2 fst_conv imageI set_append)
  moreover have "pending_for env chs ma p" if "(p, v) \<in> set res"
    using that pend by (metis UnI1 fst_conv imageI set_append set_map)
  ultimately show ?thesis using J(1) calm by (auto simp: answers_def)
qed

lemma to_verdict_promotes: "promotes (to_verdict d) \<longleftrightarrow> d_assessment d = Attack"
  by (cases "d_assessment d") (simp_all add: to_verdict.simps)

text \<open>
  C9. Promotion is never served from memory: a chain a pass newly promotes is breach-relevant and
  uncorroborated, the judgement class is armed, and the model, asked in this very pass about the
  entry's current state, answered with an attack. No cached, held, carried-forward or journal-restored
  verdict can promote.\<close>

theorem promotion_is_fresh:
  assumes "adj_ok st" "completion_ok env" "run_adjudication_pass env chs st = Some (st', chs')"
    and "i < length chs" "promoted (chs' ! i)" "\<not> promoted (chs ! i)"
  shows "is_breach_relevant (chs ! i) \<and> \<not> corroborated (chs ! i) \<and> judgement_enabled (ae_active env) \<and>
    (\<exists>p d. pending_for env chs (model_attack_set (as_decisions st)) p \<and> pe_entry_key p = pc_entry (chs ! i) \<and>
       judge_pending env p = Some (p, d) \<and> d_assessment d = Attack)"
proof -
  obtain st1 res tj rs where inv: "classified_inv env chs (model_attack_set (as_decisions st)) st
      (map fst (idx_by_entry chs)) (st1, res, tj)"
    and rs: "judge_all env tj = Some rs" and R: "pass_result env chs st st1 res rs st' chs'"
    by (rule run_pass_char [OF assms(1-3)])
  have "promoted (settled_chain env (as_verdicts st1) (pass_verdict res rs (pc_entry (chs ! i))) (chs ! i))"
    using R assms(4,5) unfolding pass_result_def by metis
  then obtain p v where v: "pass_verdict res rs (pc_entry (chs ! i)) = Some (p, v)" and b: "is_breach_relevant (chs ! i)"
    and s: "\<not> corroborated (chs ! i)" "promotes v" "judgement_enabled (ae_active env)"
    using assms(6)
    by (auto simp: settled_chain_def stamp_chain_def Let_def split: option.splits if_splits)
  from pass_verdict_cases [OF inv assms(2) rs v] b s show ?thesis by (auto simp: to_verdict_promotes)
qed

theorem promotion_is_fresh_witness:
  "\<exists>st' chs'. run_adjudication_pass demo_env [demo_chain] demo_state = Some (st', chs') \<and>
     promoted (chs' ! 0) \<and> judgement_enabled (ae_active demo_env)"
proof -
  obtain st' chs' d where run: "run_adjudication_pass demo_env [demo_chain] demo_state = Some (st', chs')"
    and R: "pass_result demo_env [demo_chain] demo_state demo_state [] [(demo_pending, d)] st' chs'"
    and d: "d_assessment d = Attack" by (rule demo_run)
  have v: "pass_verdict [] [(demo_pending, d)] web_key = Some (demo_pending, to_verdict d)"
    by (simp add: pass_verdict_def) (simp add: demo_pending_def)
  have j: "judgement_enabled (ae_active demo_env)" by (simp add: demo_env_def judgement_enabled_def)
  have "promoted (chs' ! 0)"
    using R v d j unfolding pass_result_def
    by (simp add: settled_chain_def stamp_chain_def Let_def to_verdict_promotes)
  with promotion_is_fresh [OF demo_ok run, of 0] run show ?thesis by auto
qed

section \<open>The breaker, and the stamps of decisive answers\<close>

text \<open>What the breaker makes of a run of answers, in the order they are folded.\<close>

definition breaker_over :: "instant \<Rightarrow> (pending_entry \<times> incident_decision) list \<Rightarrow> circuit_breaker \<Rightarrow> circuit_breaker" where
  "breaker_over now rs b =
     fold (\<lambda>(p, d). if decisive (to_verdict d) then breaker_success else breaker_failure now) rs b"

lemma entry_of_updated:
  "bt_ok (vs_entries st) \<Longrightarrow> entry_of (vs_update k f st) k' = (if k' = k then f (entry_of st k) else entry_of st k')"
  unfolding entry_of_def [of "vs_update k f st"] by (simp add: vs_update_get entry_of_def)

lemma cached_for_frame:
  "vs_breaker (snd (cached_for k fp vs)) = vs_breaker vs" "cache_slots (snd (cached_for k fp vs)) = cache_slots vs"
  "bt_ok (vs_entries vs) \<Longrightarrow> decisive_at (entry_of (snd (cached_for k fp vs)) k') = decisive_at (entry_of vs k')"
  by (auto simp: cached_for_def entry_of_def bt_get_put split: option.split prod.split)

lemma gate_after_miss_frame:
  "vs_breaker (snd (gate_after_miss k fp additive base now vs)) = vs_breaker vs"
  "cache_slots (snd (gate_after_miss k fp additive base now vs)) = cache_slots vs"
  "bt_ok (vs_entries vs) \<Longrightarrow>
     decisive_at (entry_of (snd (gate_after_miss k fp additive base now vs)) k') = decisive_at (entry_of vs k')"
  by (auto simp: gate_after_miss_def cache_decisive_def entry_of_updated split: option.split)

lemma classify_adjudication_frame:
  defines "after k fp additive base now vs \<equiv> snd (classify_adjudication k fp additive base now vs)"
  shows "vs_breaker (after k fp additive base now vs) = vs_breaker vs"
    and "cache_slots (after k fp additive base now vs) = cache_slots vs"
    and "bt_ok (vs_entries vs) \<Longrightarrow> decisive_at (entry_of (after k fp additive base now vs) k') = decisive_at (entry_of vs k')"
proof -
  have ok: "bt_ok (vs_entries vs) \<Longrightarrow> bt_ok (vs_entries (snd (cached_for k fp vs)))"
    by (auto simp: cached_for_def split: option.split prod.split)
  show "vs_breaker (after k fp additive base now vs) = vs_breaker vs"
    and "cache_slots (after k fp additive base now vs) = cache_slots vs"
    and "bt_ok (vs_entries vs) \<Longrightarrow> decisive_at (entry_of (after k fp additive base now vs) k') = decisive_at (entry_of vs k')"
    using cached_for_frame [where k = k and fp = fp and vs = vs] ok
      gate_after_miss_frame [where k = k and fp = fp and vs = "snd (cached_for k fp vs)"]
    by (auto simp: after_def classify_adjudication_def case_prod_beta split: option.split)
qed

definition same_stamps :: "verdict_store \<Rightarrow> verdict_store \<Rightarrow> bool" where
  "same_stamps vs vs' \<longleftrightarrow>
     vs_breaker vs' = vs_breaker vs \<and> cache_slots vs' = cache_slots vs \<and> bt_ok (vs_entries vs') \<and>
     (\<forall>k. decisive_at (entry_of vs' k) = decisive_at (entry_of vs k))"

lemma classify_entry_stamps:
  assumes "same_stamps vs (as_verdicts (fst acc))"
  shows "same_stamps vs (as_verdicts (fst (classify_entry env chs ma ei acc)))"
proof -
  obtain k "is" where ei: "ei = (k, is)" by (cases ei)
  obtain st res tj where acc: "acc = (st, res, tj)" by (cases acc)
  obtain pend additive base where p: "prepare_pending env (as_verdicts st) k (pc_entry (chs ! hd is))
      (entry_objectives chs is) (downstream_workloads (pc_entry (chs ! hd is)) is chs) is
      (entry_menu (ae_ops env) (ae_graph env) (ae_health env) ma is chs) = (pend, additive, base)"
    by (metis prod_cases3)
  obtain gate vs1 where g: "classify_adjudication (pe_entry_key pend) (pe_fingerprint pend) additive base (ae_now env)
      (as_verdicts st) = (gate, vs1)" by fastforce
  have "as_verdicts (fst (classify_entry env chs ma ei acc)) = vs1"
    unfolding classify_entry_def ei acc by (simp add: p g Let_def split: adj_gate.split)
  moreover have "same_stamps vs vs1"
    using assms classify_adjudication_frame [where k = "pe_entry_key pend" and fp = "pe_fingerprint pend" and
        additive = additive and base = base and now = "ae_now env" and vs = "as_verdicts st"]
      classify_store_bt [of "as_verdicts st" "pe_entry_key pend" "pe_fingerprint pend" additive base "ae_now env"]
    unfolding same_stamps_def acc by (simp add: g)
  ultimately show ?thesis by simp
qed

lemma classify_all_stamps:
  assumes "bt_ok (vs_entries (as_verdicts st))"
  shows "same_stamps (as_verdicts st) (as_verdicts (fst (classify_all env chs st)))"
proof -
  have "same_stamps vs (as_verdicts (fst acc)) \<Longrightarrow>
      same_stamps vs (as_verdicts (fst (fold (classify_entry env chs ma) es acc)))" for vs acc ma es
    by (induction es arbitrary: acc) (simp_all add: classify_entry_stamps)
  moreover have "same_stamps (as_verdicts st) (as_verdicts (fst (st, [] :: (pending_entry \<times> verdict) list, [] :: pending_entry list)))"
    using assms by (simp add: same_stamps_def)
  ultimately show ?thesis unfolding classify_all_def by blast
qed

lemma fold_decision_frame:
  assumes "fold_decision env (p, d) (st, res) = Some (st', res')"
  shows "vs_breaker (as_verdicts st') = breaker_over (ae_now env) [(p, d)] (vs_breaker (as_verdicts st))"
    "cache_slots (as_verdicts st') = cache_slots (as_verdicts st)" "as_restored st' = as_restored st"
  using assms
  by (auto simp: fold_decision_def Let_def record_decisive_def set_baseline_def cache_decisive_def record_inconclusive_def
      breaker_over_def bind_eq_Some_conv split: if_splits option.splits)

lemma fold_decisions_frame:
  "fold_decisions env rs (st, res) = Some (st', res') \<Longrightarrow>
     vs_breaker (as_verdicts st') = breaker_over (ae_now env) rs (vs_breaker (as_verdicts st)) \<and>
     cache_slots (as_verdicts st') = cache_slots (as_verdicts st) \<and> as_restored st' = as_restored st"
proof (induction rs arbitrary: st res)
  case (Cons pd rs)
  obtain p d where pd: "pd = (p, d)" by (cases pd)
  obtain st1 res1 where one: "fold_decision env (p, d) (st, res) = Some (st1, res1)"
    and tl: "fold_decisions env rs (st1, res1) = Some (st', res')"
    using Cons.prems by (auto simp: pd split: option.splits)
  show ?case using Cons.IH [OF tl] fold_decision_frame [OF one] by (simp add: pd breaker_over_def)
qed (simp add: breaker_over_def)

lemma settle_entry_frame:
  assumes "settle_entry env x (st, chs) = Some (st', chs')"
  shows "vs_breaker (as_verdicts st') = vs_breaker (as_verdicts st)"
    "cache_slots (as_verdicts st') = cache_slots (as_verdicts st)" "as_restored st' = as_restored st"
  using assms
  by (auto simp: settle_entry_def resolve_display_def record_recency_def set_journaled_def Let_def
      split: prod.splits option.splits if_splits)

lemma settle_all_frame:
  "settle_all env xs (st, chs) = Some (st', chs') \<Longrightarrow>
     vs_breaker (as_verdicts st') = vs_breaker (as_verdicts st) \<and>
     cache_slots (as_verdicts st') = cache_slots (as_verdicts st) \<and> as_restored st' = as_restored st"
proof (induction xs arbitrary: st chs)
  case (Cons x xs)
  obtain st1 chs1 where one: "settle_entry env x (st, chs) = Some (st1, chs1)"
    and tl: "settle_all env xs (st1, chs1) = Some (st', chs')"
    using Cons.prems by (auto split: option.splits)
  show ?case using Cons.IH [OF tl] settle_entry_frame [OF one] by simp
qed simp

text \<open>The parts of the state that the description by keys leaves out.\<close>

lemma run_pass_frame:
  assumes ok: "bt_ok (vs_entries (as_verdicts st))" and c: "classify_all env chs st = (st1, res, tj)"
    and rs: "judge_all env tj = Some rs" and run: "run_adjudication_pass env chs st = Some (st', chs')"
  shows "vs_breaker (as_verdicts st') = breaker_over (ae_now env) rs (vs_breaker (as_verdicts st))"
    "cache_slots (as_verdicts st') = cache_slots (as_verdicts st)"
    "as_restored st' = bt_keep (\<lambda>k. k \<in> breach_entries chs) (as_restored st1)"
proof -
  obtain st2 res2 st3 where f: "fold_decisions env rs (st1, res) = Some (st2, res2)"
    and t: "settle_all env (bt_of_list (map (\<lambda>(p, v). (pe_entry_key p, p, v)) res2)) (st2, chs) = Some (st3, chs')"
    and st': "st' = retain_current (breach_entries chs) st3"
    using run unfolding run_adjudication_pass_def idx_by_entry_keys c
    by (auto simp: rs bind_eq_Some_conv)
  have "same_stamps (as_verdicts st) (as_verdicts st1)" using classify_all_stamps [OF ok, of env chs] by (simp add: c)
  with fold_decisions_frame [OF f] settle_all_frame [OF t]
  show "vs_breaker (as_verdicts st') = breaker_over (ae_now env) rs (vs_breaker (as_verdicts st))"
    "cache_slots (as_verdicts st') = cache_slots (as_verdicts st)"
    "as_restored st' = bt_keep (\<lambda>k. k \<in> breach_entries chs) (as_restored st1)"
    by (simp_all add: st' retain_current_def retain_present_def same_stamps_def)
qed

text \<open>A stamp of a decisive answer is of this pass or was there before.\<close>

lemma run_pass_stamps:
  assumes ok: "adj_ok st" and comp: "completion_ok env" and run: "run_adjudication_pass env chs st = Some (st', chs')"
    and at: "decisive_at (entry_of (as_verdicts st') k) = Some t"
  shows "decisive_at (entry_of (as_verdicts st) k) = Some t \<or>
    (\<exists>st1 res tj p d. classify_all env chs st = (st1, res, tj) \<and> p \<in> set tj \<and> pe_entry_key p = k \<and>
       judge_pending env p = Some (p, d) \<and> decisive (to_verdict d))"
proof -
  obtain st1 res tj rs where c: "classify_all env chs st = (st1, res, tj)"
    and inv: "classified_inv env chs (model_attack_set (as_decisions st)) st (map fst (idx_by_entry chs)) (st1, res, tj)"
    and rs: "judge_all env tj = Some rs" and R: "pass_result env chs st st1 res rs st' chs'"
    by (rule run_pass_char [OF ok comp run])
  have e: "bt_get (vs_entries (as_verdicts st')) k =
      (case pass_verdict res rs k of Some (p, v) \<Rightarrow> Some (settled_entry env v (folded_of env st1 rs k)) | None \<Rightarrow> None)"
    using R by (simp add: pass_result_def)
  have keeps: "decisive_at (settled_entry env v x) = decisive_at x" for v x
    by (simp add: settled_entry_def recency_step_def display_step_def Let_def)
  have "decisive_at (folded_of env st1 rs k) = Some t"
    using at unfolding entry_of_def e
    by (auto simp: keeps entry_default_def split: option.splits prod.splits)
  moreover have "decisive_at (entry_of (as_verdicts st1) k) = decisive_at (entry_of (as_verdicts st) k)"
    using classify_all_stamps [of st env chs] ok by (simp add: c same_stamps_def adj_ok_def)
  ultimately show ?thesis
  proof (cases "answer_for rs k")
    case (Some pd)
    obtain p d where pd: "pd = (p, d)" by (cases pd)
    show ?thesis
    proof (cases "decisive (to_verdict d)")
      case True
      have "distinct (map pe_entry_key tj)" using inv by (simp add: classified_inv_def)
      note j = judge_all_Some(1) [OF comp rs this]
      have "(p, d) \<in> set rs" "pe_entry_key p = k" using Some unfolding answer_for_def pd find_Some_iff by (metis nth_mem, metis fst_conv)
      with True c show ?thesis unfolding j answers_def by blast
    next
      case False
      with Some show ?thesis using \<open>decisive_at (folded_of env st1 rs k) = Some t\<close>
          \<open>decisive_at (entry_of (as_verdicts st1) k) = decisive_at (entry_of (as_verdicts st) k)\<close>
        by (simp add: folded_of_def folded_entry_def decided_entry_def pd)
    qed
  qed (simp add: folded_of_def folded_entry_def entry_of_def)
qed

section \<open>The order of completion\<close>

lemma find_key: "distinct (map f xs) \<Longrightarrow> find (\<lambda>x. f x = k) xs = Some x \<longleftrightarrow> x \<in> set xs \<and> f x = k"
  by (induction xs) (auto simp: rev_image_eqI)

lemma find_perm:
  assumes "set xs = set ys" "distinct (map f xs)" "distinct (map f ys)"
  shows "find (\<lambda>x. f x = k) xs = find (\<lambda>x. f x = k) ys"
proof -
  have "find (\<lambda>x. f x = k) xs = Some z \<longleftrightarrow> find (\<lambda>x. f x = k) ys = Some z" for z
    unfolding find_key [OF assms(2)] find_key [OF assms(3)] assms(1) ..
  then show ?thesis by (metis not_None_eq)
qed

lemma answer_for_perm:
  assumes "set rs = set rs'" "distinct (map (pe_entry_key \<circ> fst) rs)" "distinct (map (pe_entry_key \<circ> fst) rs')"
  shows "answer_for rs k = answer_for rs' k"
  using find_perm [OF assms, of k] by (simp add: answer_for_def)

lemma pass_verdict_answer:
  "pass_verdict res rs k =
     (case map_of (map (\<lambda>(p, v). (pe_entry_key p, p, v)) res) k of
        Some pv \<Rightarrow> Some pv
      | None \<Rightarrow> map_option (\<lambda>(p, d). (p, to_verdict d)) (answer_for rs k))"
proof -
  have "map_of (map (\<lambda>(p, v). (pe_entry_key p, p, v)) (map (\<lambda>(p, d). (p, to_verdict d)) rs)) k =
      map_option (\<lambda>(p, d). (p, to_verdict d)) (answer_for rs k)"
    by (induction rs) (auto simp: answer_for_def)
  then show ?thesis unfolding pass_verdict_def map_append map_of_append map_add_def
    by (simp split: option.split)
qed

text \<open>Only the collection of the answers reads the order in which the calls complete.\<close>

lemma completion_selects:
  fixes env :: "'g adj_env" and c :: "nat \<Rightarrow> nat list"
  defines "env' \<equiv> env\<lparr>ae_completion := c\<rparr>"
  shows "ae_ops env' = ae_ops env" "ae_sha env' = ae_sha env" "ae_from_str env' = ae_from_str env"
    "ae_chat env' = ae_chat env" "ae_jitter_seed env' = ae_jitter_seed env" "ae_asn env' = ae_asn env"
    "ae_graph env' = ae_graph env" "ae_health env' = ae_health env" "ae_now env' = ae_now env"
    "ae_active env' = ae_active env"
  by (simp_all add: env'_def)

lemma completion_frame [simp]:
  "classify_all (env\<lparr>ae_completion := c\<rparr>) = classify_all env"
  "judge_pending (env\<lparr>ae_completion := c\<rparr>) = judge_pending env"
  "folded_of (env\<lparr>ae_completion := c\<rparr>) = folded_of env"
  "settled_lines (env\<lparr>ae_completion := c\<rparr>) = settled_lines env"
  "settled_entry (env\<lparr>ae_completion := c\<rparr>) = settled_entry env"
  "settled_chain (env\<lparr>ae_completion := c\<rparr>) = settled_chain env"
  unfolding fun_eq_iff classify_all_def classify_entry_def prepare_pending_def judge_pending_def
    folded_of_def folded_entry_def decided_entry_def settled_lines_def breach_line_def settled_entry_def
    settled_chain_def completion_selects by simp_all

fun is_incident_line :: "journal_decision \<Rightarrow> bool" where
  "is_incident_line (Incident _ _ _ _ _ _) = True"
| "is_incident_line _ = False"

lemma pass_lines:
  "list_all is_incident_line (incident_lines ds rs)"
  "list_all (\<lambda>l. \<not> is_incident_line l) (settled_lines env p v e)"
  by (auto simp: incident_lines_def incident_line_def settled_lines_def breach_line_def Let_def list_all_iff)

lemma filter_pass_lines [simp]:
  "filter (\<lambda>l. \<not> is_incident_line l) (incident_lines ds rs) = []"
  using pass_lines(1) [of ds rs] by (simp add: filter_empty_conv list_all_iff)

lemma breaker_over_uniform:
  assumes "length rs' = length rs" "set rs' = set rs"
    and "(\<forall>(p, d)\<in>set rs. decisive (to_verdict d)) \<or> (\<forall>(p, d)\<in>set rs. \<not> decisive (to_verdict d))"
  shows "breaker_over now rs' b = breaker_over now rs b"
proof -
  obtain x where x: "y \<in> set rs \<Longrightarrow> decisive (to_verdict (snd y)) = x" for y
  proof (cases "\<forall>(p, d)\<in>set rs. decisive (to_verdict d)")
    case True thus thesis by (intro that [of True]) (auto simp: split_beta)
  next
    case False
    note mp [OF iffD1 [OF disj_imp assms(3)] this]
    thus thesis by (intro that [of False]) (auto simp: split_beta)
  qed
  let ?f = "if x then breaker_success else breaker_failure now"
  have "fold (\<lambda>(p, d). if decisive (to_verdict d) then breaker_success else breaker_failure now) qs b =
      fold (\<lambda>_. ?f) qs b" if "set qs \<subseteq> set rs" for qs
  proof (rule fold_cong)
    fix y assume "y \<in> set qs"
    with that have "y \<in> set rs" by (rule subsetD)
    from x [OF this] show "(case y of (p, d) \<Rightarrow> if decisive (to_verdict d) then breaker_success else breaker_failure now) = ?f"
      by (simp add: split_beta)
  qed (rule refl)+
  moreover have "fold (\<lambda>_. ?f) qs b = (?f ^^ length qs) b" for qs :: "(pending_entry \<times> incident_decision) list"
    by (induction qs arbitrary: b) (simp_all add: funpow_swap1)
  ultimately show ?thesis using assms(1,2) by (simp add: breaker_over_def)
qed

text \<open>
  C22. What the order in which the model's concurrent answers arrive can change. With any other order the
  pass also succeeds; it stamps the same chains, keeps the same decisions, staged decisions and
  verdict memory for every entry, and journals the same lines, the verdict lines in the same order. Two
  things follow the order of arrival: the position of the cut-choice lines among themselves, and the
  circuit breaker, which counts the answers in that order. The breaker is the same in both orders when all
  the answers of the pass are decisive or none is; otherwise each order leaves the breaker that the fold
  over its own sequence of answers gives, so a success that arrives last closes what a failure opened.
\<close>

theorem completion_order_moves_only_the_breaker:
  assumes ok: "adj_ok st" and comp: "completion_ok env" "completion_ok (env\<lparr>ae_completion := c\<rparr>)"
    and run: "run_adjudication_pass env chs st = Some (st1, chs1)"
  shows "\<exists>st2 st0 res tj rs rs'. run_adjudication_pass (env\<lparr>ae_completion := c\<rparr>) chs st = Some (st2, chs1) \<and>
    as_decisions st2 = as_decisions st1 \<and> as_restored st2 = as_restored st1 \<and>
    vs_entries (as_verdicts st2) = vs_entries (as_verdicts st1) \<and>
    cache_slots (as_verdicts st2) = cache_slots (as_verdicts st1) \<and>
    set (as_journal st2) = set (as_journal st1) \<and>
    filter (\<lambda>l. \<not> is_incident_line l) (as_journal st2) = filter (\<lambda>l. \<not> is_incident_line l) (as_journal st1) \<and>
    classify_all env chs st = (st0, res, tj) \<and>
    judge_all env tj = Some rs \<and> judge_all (env\<lparr>ae_completion := c\<rparr>) tj = Some rs' \<and>
    vs_breaker (as_verdicts st1) = breaker_over (ae_now env) rs (vs_breaker (as_verdicts st)) \<and>
    vs_breaker (as_verdicts st2) = breaker_over (ae_now env) rs' (vs_breaker (as_verdicts st)) \<and>
    ((\<forall>(p, d)\<in>set rs. decisive (to_verdict d)) \<or> (\<forall>(p, d)\<in>set rs. \<not> decisive (to_verdict d)) \<longrightarrow>
      as_verdicts st2 = as_verdicts st1)"
proof -
  let ?env = "env\<lparr>ae_completion := c\<rparr>"
  obtain st0 res tj rs where c: "classify_all env chs st = (st0, res, tj)"
    and inv: "classified_inv env chs (model_attack_set (as_decisions st)) st (map fst (idx_by_entry chs)) (st0, res, tj)"
    and rs: "judge_all env tj = Some rs" and r1: "pass_result env chs st st0 res rs st1 chs1"
    using run_pass_char [OF ok comp(1) run] by metis
  have tj: "distinct (map pe_entry_key tj)" using inv by (simp add: classified_inv_def)
  obtain rs' where rs': "judge_all ?env tj = Some rs'" using rs by (auto simp: judge_all_def)
  have c': "classify_all ?env chs st = (st0, res, tj)" using c by simp
  obtain st2 chs2 where run2: "run_adjudication_pass ?env chs st = Some (st2, chs2)"
    and r2: "pass_result ?env chs st st0 res rs' st2 chs2"
    using run_pass_Some [OF ok comp(2) c' rs'] by blast
  note j1 = judge_all_Some [OF comp(1) rs tj] and j2 = judge_all_Some [OF comp(2) rs' tj]
  have same: "set rs' = set rs" unfolding j1(1) j2(1) by (simp add: answers_def)
  have ans: "answer_for rs' k = answer_for rs k" for k by (rule answer_for_perm [OF same j2(2) j1(2)])
  have pv: "pass_verdict res rs' k = pass_verdict res rs k" for k unfolding pass_verdict_answer ans ..
  have fo: "folded_of env st0 rs' = folded_of env st0 rs" by (simp add: fun_eq_iff folded_of_def ans)
  have inv': "classified_inv ?env chs (model_attack_set (as_decisions st)) st (map fst (idx_by_entry chs)) (st0, res, tj)"
    using classify_all_inv [of st ?env chs] ok unfolding c' adj_ok_def by blast
  have out: "pass_outcomes res rs' = pass_outcomes res rs"
    using pass_outcomes_keys(1) [OF inv comp(1) rs] pass_outcomes_keys(1) [OF inv' comp(2) rs'] pv
    by (intro bt_ext) (simp_all add: pass_outcomes_def)
  have lines: "set (incident_lines (as_decisions st0) rs') = set (incident_lines (as_decisions st0) rs)"
    by (simp add: incident_lines_def same)
  have oks: "adj_ok st1" "adj_ok st2" using r1 r2 by (auto simp: pass_result_def)
  have D: "as_decisions st2 = as_decisions st1"
    using r1 r2 oks by (intro bt_ext) (simp_all add: pass_result_def adj_ok_def ans)
  have E: "vs_entries (as_verdicts st2) = vs_entries (as_verdicts st1)"
    using r1 r2 oks unfolding pass_result_def completion_frame pv fo by (intro bt_ext) (simp_all add: adj_ok_def)
  have C: "chs2 = chs1" using r1 r2 by (intro nth_equalityI) (simp_all add: pass_result_def pv)
  have J: "as_journal st1 = as_journal st @ incident_lines (as_decisions st0) rs @
      concat (map (\<lambda>(k, p, v). settled_lines env p v (folded_of env st0 rs k)) (pass_outcomes res rs))"
    "as_journal st2 = as_journal st @ incident_lines (as_decisions st0) rs' @
      concat (map (\<lambda>(k, p, v). settled_lines env p v (folded_of env st0 rs k)) (pass_outcomes res rs))"
    using r1 r2 by (simp_all add: pass_result_def fo out)
  have "set (as_journal st2) = set (as_journal st1)" unfolding J set_append lines ..
  moreover have "filter (\<lambda>l. \<not> is_incident_line l) (as_journal st2) = filter (\<lambda>l. \<not> is_incident_line l) (as_journal st1)"
    unfolding J filter_append filter_pass_lines ..
  moreover note run2 D E
  moreover have F: "vs_breaker (as_verdicts st1) = breaker_over (ae_now env) rs (vs_breaker (as_verdicts st))"
      "vs_breaker (as_verdicts st2) = breaker_over (ae_now env) rs' (vs_breaker (as_verdicts st))"
      "cache_slots (as_verdicts st2) = cache_slots (as_verdicts st1)" "as_restored st2 = as_restored st1"
    using run_pass_frame [OF _ c rs run] run_pass_frame [OF _ c' rs' run2] ok by (simp_all add: adj_ok_def)
  moreover have "as_verdicts st2 = as_verdicts st1"
    if "(\<forall>(p, d)\<in>set rs. decisive (to_verdict d)) \<or> (\<forall>(p, d)\<in>set rs. \<not> decisive (to_verdict d))"
  proof -
    have "length rs' = length rs"
      using same j1(2) j2(2) by (metis distinct_card distinct_map)
    from breaker_over_uniform [OF this same that] show ?thesis
      using E F(1-3) by (intro verdict_store.equality) simp_all
  qed
  ultimately show ?thesis using c rs rs' unfolding C
    by (intro exI [of _ st2] exI [of _ st0] exI [of _ res] exI [of _ tj] exI [of _ rs] exI [of _ rs'] conjI impI)
qed

theorem completion_order_moves_only_the_breaker_witness:
  "\<exists>st2. run_adjudication_pass (demo_env\<lparr>ae_completion := \<lambda>n. rev [0..<n]\<rparr>) [demo_chain] demo_state =
      Some (st2, snd (the (run_adjudication_pass demo_env [demo_chain] demo_state)))"
proof -
  obtain st1 chs1 where run: "run_adjudication_pass demo_env [demo_chain] demo_state = Some (st1, chs1)"
    using demo_run by blast
  have "completion_ok (demo_env\<lparr>ae_completion := \<lambda>n. rev [0..<n]\<rparr>)" by (simp add: completion_ok_def)
  from completion_order_moves_only_the_breaker [OF demo_ok(1) demo_ok(2) this run] run show ?thesis by auto
qed

end
