(* ===== verification/Engine.thy ===== *)
theory Engine
  imports Adj_Pass Action_Log Cluster Scope_Preview
begin

text \<open>
  One pass of the engine (\<open>engine/mod.rs\<close>) and the boot-time replay of the journal
  (\<open>engine/restore.rs\<close>), composed from the parts the other theories model: prove, adjudicate, reconcile
  the ledger, decide and apply, revert. The observed graph, the health report and the clock reads are
  those of \<open>'g adj_env\<close>; the cluster the actuators write to is the field \<open>en_cluster\<close>, and the journal is
  the list of the decisions recorded so far. Metrics, logs and the published findings have no
  effect on a later pass; of the metrics only the node-containment counter is kept, as the list of its labels.
\<close>

section \<open>State\<close>

text \<open>
  \<open>ee_node_actuator\<close> is the revert of the attached node-containment actuator, if one is attached, and
  \<open>ee_wall r\<close> the wall clock, in milliseconds, when the row for the entry or the cut \<open>r\<close> is written.
\<close>

record ('g, 'c) engine_env =
  ee_adj :: "'g adj_env"
  ee_scope :: actuation_scope
  ee_actuator :: "'c actuator"
  ee_node_actuator :: "(mitigation \<Rightarrow> node_fact \<Rightarrow> mitigation list \<Rightarrow> 'c \<Rightarrow> actuation \<times> 'c) option"
  ee_nodes :: "k8s_node list"
  ee_break_glass :: bool
  ee_wall :: "string \<Rightarrow> u64"

record 'c engine =
  en_adj :: adj_state
  en_ledger :: ledger
  en_actions :: action_log
  en_node_facts :: "(string, node_fact) btree"
  en_reversions :: "reversion_record list"
  en_divergence :: "divergence_row list"
  en_scope_preview :: "(mitigation \<times> blast_radius) list"
  en_contain_node :: "(string \<times> string option) list"
  break_glass_was_engaged :: bool
  en_cluster :: 'c

abbreviation ee_ops :: "('g, 'c) engine_env \<Rightarrow> 'g petgraph" where
  "ee_ops env \<equiv> ae_ops (ee_adj env)"

abbreviation ee_graph :: "('g, 'c) engine_env \<Rightarrow> 'g security_graph" where
  "ee_graph env \<equiv> ae_graph (ee_adj env)"

abbreviation ee_health :: "('g, 'c) engine_env \<Rightarrow> health_report" where
  "ee_health env \<equiv> ae_health (ee_adj env)"

abbreviation en_journal :: "'c engine \<Rightarrow> journal_decision list" where
  "en_journal e \<equiv> as_journal (en_adj e)"

abbreviation en_verdicts :: "'c engine \<Rightarrow> verdict_store" where
  "en_verdicts e \<equiv> as_verdicts (en_adj e)"

definition engine_new :: "nat \<Rightarrow> 'c \<Rightarrow> 'c engine" where
  "engine_new slots c =
     \<lparr>en_adj = \<lparr>as_verdicts = with_cache_slots slots, as_decisions = [], as_restored = [], as_journal = []\<rparr>,
      en_ledger = [], en_actions = [], en_node_facts = [], en_reversions = [], en_divergence = [],
      en_scope_preview = [], en_contain_node = [], break_glass_was_engaged = False, en_cluster = c\<rparr>"

definition journal_line :: "journal_decision \<Rightarrow> 'c engine \<Rightarrow> 'c engine" where
  "journal_line d e = e\<lparr>en_adj := (en_adj e)\<lparr>as_journal := en_journal e @ [d]\<rparr>\<rparr>"

section \<open>The steps of a pass\<close>

definition poll_break_glass :: "('g, 'c) engine_env \<Rightarrow> 'c engine \<Rightarrow> enabled_actions \<times> 'c engine" where
  "poll_break_glass env e =
     (let engaged = ee_break_glass env
      in (if engaged then enabled_none else ae_active (ee_adj env), e\<lparr>break_glass_was_engaged := engaged\<rparr>))"

definition JUDGE_FRESHNESS_BOUND :: nat where
  "JUDGE_FRESHNESS_BOUND = 15 * 60 * 10 ^ 9"

definition degraded_reason :: string where
  "degraded_reason =
     ''judge is degraded (breaker open, or no fresh decisive verdict within the trust '' @
     ''window); held as a proposal until the model verifiably answers again''"

definition gate_on_judge_freshness :: "verdict_store \<Rightarrow> mitigation \<Rightarrow> decision \<Rightarrow> instant \<Rightarrow> decision" where
  "gate_on_judge_freshness vs m d now =
     (if d \<noteq> AutoApply then d
      else if list_ex (\<lambda>entry. verdict_fresh vs entry now JUDGE_FRESHNESS_BOUND) (live_corroborating_entries m)
      then d
      else Propose degraded_reason)"

definition record_divergence :: "('g, 'c) engine_env \<Rightarrow> divergence_record \<Rightarrow> 'c engine \<Rightarrow> 'c engine" where
  "record_divergence env r e =
     (let row = divergence_now (ee_wall env (dr_entry r)) r;
          e1 = journal_line (CutDivergence (dw_entry row) (dw_class row) (dw_model_cuts row)
                               (dw_deterministic_cuts row)) e
      in e1\<lparr>en_divergence := divergence_push row (en_divergence e1)\<rparr>)"

definition surface_proposal :: "mitigation \<Rightarrow> 'c engine \<Rightarrow> 'c engine" where
  "surface_proposal m e =
     (if m_action m = ContainNode then e\<lparr>en_contain_node := en_contain_node e @ [(''proposed'', None)]\<rparr> else e)"

definition refresh_node_facts :: "('g, 'c) engine_env \<Rightarrow> 'c engine \<Rightarrow> 'c engine" where
  "refresh_node_facts env e =
     (if ee_nodes env \<noteq> []
      then e\<lparr>en_node_facts := bt_of_list (map (\<lambda>f. (nf_name f, f)) (observe_node_facts (ee_nodes env)))\<rparr>
      else e)"

definition actuation_decision ::
  "('g, 'c) engine_env \<Rightarrow> enabled_actions \<Rightarrow> verdict_store \<Rightarrow> mitigation \<Rightarrow> decision" where
  "actuation_decision env effective vs m =
     gate_on_judge_freshness vs m
       (decide m effective (ee_scope env)
         (predict_blast_radius (ee_ops env) (ee_graph env) m (ee_health env)))
       (ae_now (ee_adj env))"

definition apply_decided :: "('g, 'c) engine_env \<Rightarrow> mitigation \<Rightarrow> decision \<Rightarrow> 'c engine \<Rightarrow> 'c engine" where
  "apply_decided env m d e =
     (case d of
        AutoApply \<Rightarrow>
          if \<not> log_is_active (en_actions e) m then
            journal_line (ApplyCut (mitigation_signature m))
              (e\<lparr>en_cluster := snd (act_apply (ee_actuator env) m (en_cluster e)),
                 en_actions := log_record m (alive_workloads (ee_health env)) (en_actions e)\<rparr>)
          else e
      | Propose _ \<Rightarrow> e
      | Forbidden _ \<Rightarrow> e)"

definition propose_node :: "('g, 'c) engine_env \<Rightarrow> enabled_actions \<Rightarrow> mitigation \<Rightarrow> 'c engine \<Rightarrow> 'c engine" where
  "propose_node env effective m e =
     (let armed = is_enabled effective ContainNode;
          in_sc = (if m_action m = ContainNode
                   then contain_node_in_scope (ee_ops env) (ee_graph env) (l_from (m_cut m)) (ee_scope env)
                   else in_scope (ee_scope env) m)
      in case evaluate_proposal m armed in_sc (map snd (en_node_facts e)) of
           None \<Rightarrow> e
         | Some Proposed \<Rightarrow> e\<lparr>en_contain_node := en_contain_node e @ [(''eligible'', None)]\<rparr>
         | Some (Refuse refusal) \<Rightarrow>
             e\<lparr>en_contain_node := en_contain_node e @ [(''rail_refused'', Some (metric_reason refusal))]\<rparr>)"

definition actuate :: "('g, 'c) engine_env \<Rightarrow> enabled_actions \<Rightarrow> mitigation \<Rightarrow> 'c engine \<Rightarrow> 'c engine" where
  "actuate env effective m e =
     propose_node env effective m
       (apply_decided env m (actuation_decision env effective (en_verdicts e) m) e)"

definition revert_contain_node ::
  "('g, 'c) engine_env \<Rightarrow> (string, node_fact) btree \<Rightarrow> mitigation \<Rightarrow> 'c \<Rightarrow> 'c" where
  "revert_contain_node env facts m c =
     (case ee_node_actuator env of
        None \<Rightarrow> c
      | Some actuator \<Rightarrow>
          (case bt_get facts (short_of (l_from (m_cut m))) of
             None \<Rightarrow> c
           | Some target \<Rightarrow>
               snd (actuator m target (co_resident_denies (ee_ops env) (ee_graph env) (l_from (m_cut m))) c)))"

definition lift_cut :: "('g, 'c) engine_env \<Rightarrow> (string, node_fact) btree \<Rightarrow> reversion \<Rightarrow> 'c \<Rightarrow> 'c" where
  "lift_cut env facts r c =
     (if m_action (rv_mitigation r) = ContainNode then revert_contain_node env facts (rv_mitigation r) c
      else snd (act_revert (ee_actuator env) (rv_mitigation r) c))"

definition record_reversion :: "('g, 'c) engine_env \<Rightarrow> reversion \<Rightarrow> 'c engine \<Rightarrow> 'c engine" where
  "record_reversion env r e =
     (let sig = mitigation_signature (rv_mitigation r)
      in journal_line (RevertCut sig (rv_reason r))
           (e\<lparr>en_cluster := lift_cut env (en_node_facts e) r (en_cluster e),
              en_reversions := reversion_push
                \<lparr>rr_cut = sig, rr_reason = rv_reason r, rr_at_ms = ee_wall env sig\<rparr> (en_reversions e)\<rparr>))"

section \<open>The pass\<close>

text \<open>
  \<open>respond_pass\<close> is what follows the adjudication in \<open>process\<close>, from the divergence comparator to the
  revert loop.
\<close>

definition revert_loop :: "('g, 'c) engine_env \<Rightarrow> enabled_actions \<Rightarrow> 'c engine \<Rightarrow> 'c engine" where
  "revert_loop env effective e =
     (let justified = set (map (\<lambda>(_, m). mitigation_signature m) (en_ledger e));
          (reversions, kept) = log_reconcile (ee_health env) justified effective (en_actions e)
      in fold (record_reversion env) reversions (e\<lparr>en_actions := kept\<rparr>))"

definition actuation_loop :: "('g, 'c) engine_env \<Rightarrow> enabled_actions \<Rightarrow> 'c engine \<Rightarrow> 'c engine" where
  "actuation_loop env effective e =
     (let active_mitigations = map snd (en_ledger e);
          blasts = map (\<lambda>m. predict_blast_radius (ee_ops env) (ee_graph env) m (ee_health env)) active_mitigations;
          e1 = fold (actuate env effective) active_mitigations e
      in e1\<lparr>en_scope_preview := zip active_mitigations blasts\<rparr>)"

definition respond_pass :: "('g, 'c) engine_env \<Rightarrow> proven_chain list \<Rightarrow> 'c engine \<Rightarrow> 'c engine" where
  "respond_pass env chs e =
     (let decisions = as_decisions (en_adj e);
          e1 = fold (record_divergence env) (compute_divergence chs decisions) e;
          (active, delta) = reconcile chs decisions (en_ledger e1);
          e2 = refresh_node_facts env (fold surface_proposal (proposed delta) (e1\<lparr>en_ledger := active\<rparr>));
          (effective, e3) = poll_break_glass env e2
      in revert_loop env effective (actuation_loop env effective e3))"

definition process :: "('g, 'c) engine_env \<Rightarrow> 'c engine \<Rightarrow> 'c engine option" where
  "process env e =
     do {
       chs \<leftarrow> prove (ee_ops env) (ee_graph env);
       (adj, chs') \<leftarrow> run_adjudication_pass (ee_adj env) chs (en_adj e);
       Some (respond_pass env chs' (e\<lparr>en_adj := adj\<rparr>))
     }"

section \<open>Replay on boot\<close>

definition restore_entry :: "instant \<Rightarrow> journal_entry \<Rightarrow> 'c engine \<Rightarrow> 'c engine" where
  "restore_entry restored_at line e =
     (case je_decision line of
        Breach k _ words _ fp typed \<Rightarrow>
          let vs1 = seed_restored k words restored_at (en_verdicts e);
              vs2 = (case (fp, typed) of (Some f, Some v) \<Rightarrow> cache_decisive k f v vs1 | _ \<Rightarrow> vs1)
          in e\<lparr>en_adj := (en_adj e)\<lparr>as_verdicts := vs2\<rparr>\<rparr>
      | RevertCut c reason \<Rightarrow>
          e\<lparr>en_reversions := reversion_push \<lparr>rr_cut = c, rr_reason = reason, rr_at_ms = je_at_ms line\<rparr>
              (en_reversions e)\<rparr>
      | Incident k _ assessment reason cuts fp \<Rightarrow>
          e\<lparr>en_adj := (en_adj e)\<lparr>as_restored := bt_put k
              \<lparr>rd_fingerprint = fp, rd_assessment = assessment, rd_reason = reason, rd_cuts = cuts\<rparr>
              (as_restored (en_adj e))\<rparr>\<rparr>
      | CutDivergence k class model deterministic \<Rightarrow>
          e\<lparr>en_divergence := divergence_push \<lparr>dw_entry = k, dw_class = class, dw_model_cuts = model,
              dw_deterministic_cuts = deterministic, dw_at_ms = je_at_ms line\<rparr> (en_divergence e)\<rparr>
      | ApplyCut _ \<Rightarrow> e
      | Admission _ \<Rightarrow> e
      | SigningBaseline _ \<Rightarrow> e)"

definition replay_journal :: "instant \<Rightarrow> journal_entry list \<Rightarrow> 'c engine \<Rightarrow> 'c engine" where
  "replay_journal restored_at entries e = fold (restore_entry restored_at) entries e"

section \<open>What a pass does to the applied cuts\<close>

text \<open>The classes armed for the pass, and a mitigation every gate of the pass lets through.\<close>

definition effective_active :: "('g, 'c) engine_env \<Rightarrow> enabled_actions" where
  "effective_active env = (if ee_break_glass env then enabled_none else ae_active (ee_adj env))"

definition clears :: "('g, 'c) engine_env \<Rightarrow> verdict_store \<Rightarrow> mitigation \<Rightarrow> bool" where
  "clears env vs m \<longleftrightarrow> actuation_decision env (effective_active env) vs m = AutoApply"

lemma poll_effective: "poll_break_glass env e = (effective_active env, e\<lparr>break_glass_was_engaged := ee_break_glass env\<rparr>)"
  by (simp add: poll_break_glass_def effective_active_def Let_def)

lemma clears_iff:
  "clears env vs m \<longleftrightarrow>
     is_additive_live (m_action m) \<and> \<not> reachability_incomplete (ee_graph env) \<and>
     (\<forall>peer. bystander (ee_ops env) (ee_graph env) m peer \<longrightarrow> health_of (ee_health env) peer \<noteq> Alive) \<and>
     \<not> ee_break_glass env \<and> is_enabled (ae_active (ee_adj env)) (m_action m) \<and> in_scope (ee_scope env) m \<and>
     (\<exists>k\<in>set (live_corroborating_entries m). verdict_fresh vs k (ae_now (ee_adj env)) JUDGE_FRESHNESS_BOUND)"
proof -
  have "clears env vs m \<longleftrightarrow>
     decide m (effective_active env) (ee_scope env) (predict_blast_radius (ee_ops env) (ee_graph env) m (ee_health env)) =
       AutoApply \<and>
     (\<exists>k\<in>set (live_corroborating_entries m). verdict_fresh vs k (ae_now (ee_adj env)) JUDGE_FRESHNESS_BOUND)"
    by (auto simp: clears_def actuation_decision_def gate_on_judge_freshness_def list_ex_iff)
  then show ?thesis
    unfolding decide_auto alive_collateral_empty blast_incomplete is_live_corroborated_def effective_active_def
    by (auto simp: is_enabled_def enabled_none_def)
qed

lemma clears_action: "clears env vs m \<Longrightarrow> is_enabled (effective_active env) (m_action m) \<and> m_action m \<noteq> ContainNode"
  by (auto simp: clears_iff effective_active_def is_additive_live_def)

abbreviation applied_action :: "('g, 'c) engine_env \<Rightarrow> mitigation \<Rightarrow> active_action" where
  "applied_action env m \<equiv> \<lparr>aa_mitigation = m, baseline_alive = alive_workloads (ee_health env)\<rparr>"

abbreviation apply_all :: "('g, 'c) engine_env \<Rightarrow> mitigation list \<Rightarrow> 'c \<Rightarrow> 'c" where
  "apply_all env ms c \<equiv> fold (\<lambda>m c. snd (act_apply (ee_actuator env) m c)) ms c"

lemma journal_line_simps [simp]:
  "en_adj (journal_line d e) = (en_adj e)\<lparr>as_journal := en_journal e @ [d]\<rparr>"
  "en_ledger (journal_line d e) = en_ledger e" "en_actions (journal_line d e) = en_actions e"
  "en_node_facts (journal_line d e) = en_node_facts e" "en_reversions (journal_line d e) = en_reversions e"
  "en_divergence (journal_line d e) = en_divergence e" "en_cluster (journal_line d e) = en_cluster e"
  by (simp_all add: journal_line_def)

lemma propose_node_frame [simp]:
  "en_adj (propose_node env eff m e) = en_adj e" "en_ledger (propose_node env eff m e) = en_ledger e"
  "en_actions (propose_node env eff m e) = en_actions e" "en_node_facts (propose_node env eff m e) = en_node_facts e"
  "en_reversions (propose_node env eff m e) = en_reversions e"
  "en_divergence (propose_node env eff m e) = en_divergence e" "en_cluster (propose_node env eff m e) = en_cluster e"
  by (simp_all add: propose_node_def Let_def split: option.split proposal_outcome.split)

lemma record_new: "mitigation_signature m \<notin> live_cuts log \<Longrightarrow> log_record m b log = log @ [\<lparr>aa_mitigation = m, baseline_alive = b\<rparr>]"
  by (force simp: log_record_def live_cuts_def filter_id_conv)

lemma actuate_skip:
  assumes "\<not> (clears env (en_verdicts e) m \<and> mitigation_signature m \<notin> live_cuts (en_actions e))"
  shows "actuate env (effective_active env) m e = propose_node env (effective_active env) m e"
  using assms by (auto simp: actuate_def apply_decided_def clears_def log_is_active_iff split: decision.split)

lemma actuate_apply:
  assumes "clears env (en_verdicts e) m" "mitigation_signature m \<notin> live_cuts (en_actions e)"
  shows "actuate env (effective_active env) m e = propose_node env (effective_active env) m
    (journal_line (ApplyCut (mitigation_signature m))
      (e\<lparr>en_cluster := snd (act_apply (ee_actuator env) m (en_cluster e)),
         en_actions := en_actions e @ [applied_action env m]\<rparr>))"
  using assms by (simp add: actuate_def apply_decided_def clears_def log_is_active_iff record_new)

text \<open>
  The actuation loop applies a list \<open>ms'\<close> of the mitigations \<open>ms\<close>: all cleared, none live before, each
  recorded with the workloads alive now.
\<close>

definition actuated :: "('g, 'c) engine_env \<Rightarrow> mitigation list \<Rightarrow> mitigation list \<Rightarrow> 'c engine \<Rightarrow> 'c engine \<Rightarrow> bool" where
  "actuated env ms ms' e e' \<longleftrightarrow>
     (\<forall>m\<in>set ms'. m \<in> set ms \<and> clears env (en_verdicts e) m \<and> mitigation_signature m \<notin> live_cuts (en_actions e)) \<and>
     (\<forall>m\<in>set ms. clears env (en_verdicts e) m \<longrightarrow>
        mitigation_signature m \<in> live_cuts (en_actions e) \<or> mitigation_signature m \<in> mitigation_signature ` set ms') \<and>
     distinct (map mitigation_signature ms') \<and>
     en_adj e' = (en_adj e)\<lparr>as_journal := en_journal e @ map (\<lambda>m. ApplyCut (mitigation_signature m)) ms'\<rparr> \<and>
     en_actions e' = en_actions e @ map (applied_action env) ms' \<and>
     en_cluster e' = apply_all env ms' (en_cluster e) \<and>
     en_ledger e' = en_ledger e \<and> en_node_facts e' = en_node_facts e \<and> en_reversions e' = en_reversions e \<and>
     en_divergence e' = en_divergence e"

lemma live_cuts_append: "live_cuts (log @ map (applied_action env) ms) = live_cuts log \<union> mitigation_signature ` set ms"
  by (auto simp: live_cuts_def)

lemma actuation_fold: "\<exists>ms'. actuated env ms ms' e (fold (actuate env (effective_active env)) ms e)"
proof (induction ms arbitrary: e)
  case Nil
  have "actuated env [] [] e e" by (simp add: actuated_def)
  then show ?case by auto
next
  case (Cons m ms)
  let ?e = "actuate env (effective_active env) m e"
  obtain ms' where IH: "actuated env ms ms' ?e (fold (actuate env (effective_active env)) ms ?e)"
    using Cons.IH by blast
  show ?case
  proof (cases "clears env (en_verdicts e) m \<and> mitigation_signature m \<notin> live_cuts (en_actions e)")
    case True
    have "live_cuts (en_actions e @ [applied_action env m]) = insert (mitigation_signature m) (live_cuts (en_actions e))"
      using live_cuts_append [of "en_actions e" env "[m]"] by simp
    then have "actuated env (m # ms) (m # ms') e (fold (actuate env (effective_active env)) ms ?e)"
      using IH True unfolding actuated_def actuate_apply [OF conjunct1 [OF True] conjunct2 [OF True]] by auto
    then show ?thesis by auto
  next
    case False
    have "actuated env (m # ms) ms' e (fold (actuate env (effective_active env)) ms ?e)"
      using IH False unfolding actuated_def actuate_skip [OF False] by auto
    then show ?thesis by auto
  qed
qed

lemma reversion_fold:
  "en_adj (fold (record_reversion env) revs e) =
     (en_adj e)\<lparr>as_journal := en_journal e @
       map (\<lambda>r. RevertCut (mitigation_signature (rv_mitigation r)) (rv_reason r)) revs\<rparr> \<and>
   en_cluster (fold (record_reversion env) revs e) = fold (lift_cut env (en_node_facts e)) revs (en_cluster e) \<and>
   en_ledger (fold (record_reversion env) revs e) = en_ledger e \<and>
   en_actions (fold (record_reversion env) revs e) = en_actions e \<and>
   en_node_facts (fold (record_reversion env) revs e) = en_node_facts e \<and>
   en_divergence (fold (record_reversion env) revs e) = en_divergence e \<and>
   (length (en_reversions e) \<le> REVERSION_CAP \<longrightarrow>
      length (en_reversions (fold (record_reversion env) revs e)) \<le> REVERSION_CAP)"
  by (induction revs arbitrary: e)
     (auto simp: record_reversion_def Let_def reversion_push_def REVERSION_CAP_def)

fun is_cut_line :: "journal_decision \<Rightarrow> bool" where
  "is_cut_line (ApplyCut _) = True"
| "is_cut_line (RevertCut _ _) = True"
| "is_cut_line _ = False"

lemma record_divergence_step:
  "\<exists>l. en_adj (record_divergence env r e) = (en_adj e)\<lparr>as_journal := en_journal e @ [l]\<rparr> \<and> \<not> is_cut_line l"
  "en_cluster (record_divergence env r e) = en_cluster e" "en_ledger (record_divergence env r e) = en_ledger e"
  "en_actions (record_divergence env r e) = en_actions e" "en_node_facts (record_divergence env r e) = en_node_facts e"
  "en_reversions (record_divergence env r e) = en_reversions e"
  "length (en_divergence e) \<le> DIVERGENCE_CAP \<Longrightarrow> length (en_divergence (record_divergence env r e)) \<le> DIVERGENCE_CAP"
  by (simp_all add: record_divergence_def Let_def divergence_push_def DIVERGENCE_CAP_def) force

lemma divergence_fold:
  "\<exists>ls. en_adj (fold (record_divergence env) rs e) = (en_adj e)\<lparr>as_journal := en_journal e @ ls\<rparr> \<and>
     list_all (\<lambda>l. \<not> is_cut_line l) ls \<and>
     en_cluster (fold (record_divergence env) rs e) = en_cluster e \<and>
     en_ledger (fold (record_divergence env) rs e) = en_ledger e \<and>
     en_actions (fold (record_divergence env) rs e) = en_actions e \<and>
     en_node_facts (fold (record_divergence env) rs e) = en_node_facts e \<and>
     en_reversions (fold (record_divergence env) rs e) = en_reversions e \<and>
     (length (en_divergence e) \<le> DIVERGENCE_CAP \<longrightarrow>
        length (en_divergence (fold (record_divergence env) rs e)) \<le> DIVERGENCE_CAP)"
proof (induction rs arbitrary: e)
  case Nil
  show ?case by (rule exI [of _ "[]"]) simp
next
  case (Cons r rs)
  obtain l where l: "en_adj (record_divergence env r e) = (en_adj e)\<lparr>as_journal := en_journal e @ [l]\<rparr>" "\<not> is_cut_line l"
    using record_divergence_step(1) by blast
  note IH = Cons.IH [of "record_divergence env r e", unfolded record_divergence_step(2-6) l(1)]
  then obtain ls where ls: "en_adj (fold (record_divergence env) (r # rs) e) = (en_adj e)\<lparr>as_journal := en_journal e @ l # ls\<rparr>"
    "list_all (\<lambda>l. \<not> is_cut_line l) ls" by auto
  show ?case
    using IH l(2) ls record_divergence_step(7) [of e env r] by (intro exI [of _ "l # ls"]) auto
qed

lemma surface_frame:
  "en_adj (fold surface_proposal ms e) = en_adj e \<and> en_ledger (fold surface_proposal ms e) = en_ledger e \<and>
   en_actions (fold surface_proposal ms e) = en_actions e \<and> en_cluster (fold surface_proposal ms e) = en_cluster e \<and>
   en_node_facts (fold surface_proposal ms e) = en_node_facts e \<and>
   en_reversions (fold surface_proposal ms e) = en_reversions e \<and>
   en_divergence (fold surface_proposal ms e) = en_divergence e"
  by (induction ms arbitrary: e) (simp_all add: surface_proposal_def)

text \<open>
  The effect of a pass on the applied cuts, after the adjudication left the state \<open>e\<close>: the ledger is
  reconciled, the list \<open>ms\<close> is applied, and the actions the reconcile does not keep are lifted.
\<close>

definition justified_by :: "ledger \<Rightarrow> string set" where
  "justified_by active = set (map (\<lambda>(_, m). mitigation_signature m) active)"

definition responded ::
  "('g, 'c) engine_env \<Rightarrow> 'c engine \<Rightarrow> mitigation list \<Rightarrow> reversion list \<Rightarrow> journal_decision list \<Rightarrow> 'c engine \<Rightarrow> bool" where
  "responded env e ms revs ls e' \<longleftrightarrow>
     (\<forall>m\<in>set ms. m \<in> set (map snd (en_ledger e')) \<and> clears env (en_verdicts e) m \<and>
        mitigation_signature m \<notin> live_cuts (en_actions e)) \<and>
     (\<forall>m\<in>set (map snd (en_ledger e')). clears env (en_verdicts e) m \<longrightarrow>
        mitigation_signature m \<in> live_cuts (en_actions e) \<or> mitigation_signature m \<in> mitigation_signature ` set ms) \<and>
     distinct (map mitigation_signature ms) \<and>
     (revs, en_actions e') = log_reconcile (ee_health env) (justified_by (en_ledger e')) (effective_active env)
        (en_actions e @ map (applied_action env) ms) \<and>
     en_adj e' = (en_adj e)\<lparr>as_journal := en_journal e @ ls @ map (\<lambda>m. ApplyCut (mitigation_signature m)) ms @
        map (\<lambda>r. RevertCut (mitigation_signature (rv_mitigation r)) (rv_reason r)) revs\<rparr> \<and>
     list_all (\<lambda>l. \<not> is_cut_line l) ls \<and>
     en_cluster e' = fold (lift_cut env (en_node_facts e')) revs (apply_all env ms (en_cluster e)) \<and>
     en_node_facts e' = en_node_facts (refresh_node_facts env e) \<and>
     (length (en_reversions e) \<le> REVERSION_CAP \<longrightarrow> length (en_reversions e') \<le> REVERSION_CAP) \<and>
     (length (en_divergence e) \<le> DIVERGENCE_CAP \<longrightarrow> length (en_divergence e') \<le> DIVERGENCE_CAP)"

lemma respond_char:
  "\<exists>ms revs ls. responded env e ms revs ls (respond_pass env chs e) \<and>
     en_ledger (respond_pass env chs e) = fst (reconcile chs (as_decisions (en_adj e)) (en_ledger e))"
proof -
  let ?e1 = "fold (record_divergence env) (compute_divergence chs (as_decisions (en_adj e))) e"
  obtain active delta where rec: "reconcile chs (as_decisions (en_adj e)) (en_ledger ?e1) = (active, delta)"
    by (cases "reconcile chs (as_decisions (en_adj e)) (en_ledger ?e1)")
  let ?e3 = "(refresh_node_facts env (fold surface_proposal (proposed delta) (?e1\<lparr>en_ledger := active\<rparr>)))
      \<lparr>break_glass_was_engaged := ee_break_glass env\<rparr>"
  let ?e4 = "actuation_loop env (effective_active env) ?e3"
  obtain ls where e1: "en_adj ?e1 = (en_adj e)\<lparr>as_journal := en_journal e @ ls\<rparr>"
      "list_all (\<lambda>l. \<not> is_cut_line l) ls" "en_cluster ?e1 = en_cluster e" "en_ledger ?e1 = en_ledger e"
      "en_actions ?e1 = en_actions e" "en_node_facts ?e1 = en_node_facts e" "en_reversions ?e1 = en_reversions e"
      "length (en_divergence e) \<le> DIVERGENCE_CAP \<longrightarrow> length (en_divergence ?e1) \<le> DIVERGENCE_CAP"
    using divergence_fold [of env "compute_divergence chs (as_decisions (en_adj e))" e] by blast
  have e3: "en_adj ?e3 = en_adj ?e1" "en_ledger ?e3 = active" "en_actions ?e3 = en_actions e"
      "en_cluster ?e3 = en_cluster e" "en_reversions ?e3 = en_reversions e" "en_divergence ?e3 = en_divergence ?e1"
      "en_node_facts ?e3 = en_node_facts (refresh_node_facts env e)"
    using surface_frame [of "proposed delta" "?e1\<lparr>en_ledger := active\<rparr>"] e1
    by (simp_all add: refresh_node_facts_def)
  obtain ms where ms: "actuated env (map snd active) ms ?e3 ?e4"
    using actuation_fold [of env "map snd active" ?e3] e3(2)
    by (auto simp: actuation_loop_def Let_def actuated_def)
  obtain revs kept where rk: "log_reconcile (ee_health env) (justified_by active) (effective_active env) (en_actions ?e4) =
      (revs, kept)" by (cases "log_reconcile (ee_health env) (justified_by active) (effective_active env) (en_actions ?e4)")
  have run: "respond_pass env chs e = fold (record_reversion env) revs (?e4\<lparr>en_actions := kept\<rparr>)"
    using rk ms e3(2)
    by (simp add: respond_pass_def rec poll_effective revert_loop_def justified_by_def actuated_def)
  note r = reversion_fold [of env revs "?e4\<lparr>en_actions := kept\<rparr>"]
  have "responded env e ms revs ls (respond_pass env chs e)"
    using r rk ms e1 e3 unfolding run responded_def actuated_def by simp
  moreover have "en_ledger (respond_pass env chs e) = fst (reconcile chs (as_decisions (en_adj e)) (en_ledger e))"
    using r rec ms e1(4) e3(2) unfolding run actuated_def by simp
  ultimately show ?thesis by blast
qed

section \<open>Whole passes\<close>

definition engine_ok :: "'c engine \<Rightarrow> bool" where
  "engine_ok e \<longleftrightarrow>
     adj_ok (en_adj e) \<and> log_ok (en_actions e) \<and> bt_ok (en_node_facts e) \<and>
     length (en_reversions e) \<le> REVERSION_CAP \<and> length (en_divergence e) \<le> DIVERGENCE_CAP"

lemma run_pass_journal:
  assumes "adj_ok st" "completion_ok env" "run_adjudication_pass env chs st = Some (st', chs')"
  shows "adj_ok st' \<and> (\<exists>ls. as_journal st' = as_journal st @ ls \<and> list_all (\<lambda>l. \<not> is_cut_line l) ls)"
proof -
  obtain st1 res tj rs where r: "pass_result env chs st st1 res rs st' chs'"
    using run_pass_char [OF assms] by metis
  have "list_all (\<lambda>l. \<not> is_cut_line l) (incident_lines ds rs)" for ds
    by (auto simp: incident_lines_def incident_line_def list_all_iff)
  moreover have "list_all (\<lambda>l. \<not> is_cut_line l) (settled_lines env p v e)" for p v e
    by (simp add: settled_lines_def breach_line_def Let_def)
  ultimately have "list_all (\<lambda>l. \<not> is_cut_line l) (incident_lines (as_decisions st1) rs @
      concat (map (\<lambda>(k, p, v). settled_lines env p v (folded_of env st1 rs k)) (pass_outcomes res rs)))"
    by (fastforce simp: list_all_iff)
  then show ?thesis using r unfolding pass_result_def by blast
qed

lemma process_char:
  assumes ok: "engine_ok e" and comp: "completion_ok (ee_adj env)" and run: "process env e = Some e'"
  obtains adj ms revs ls ls' where "adj_ok adj" "as_journal adj = en_journal e @ ls'"
    "list_all (\<lambda>l. \<not> is_cut_line l) ls'" "responded env (e\<lparr>en_adj := adj\<rparr>) ms revs ls e'"
proof -
  obtain chs chs' adj where p: "prove (ee_ops env) (ee_graph env) = Some chs"
    and r: "run_adjudication_pass (ee_adj env) chs (en_adj e) = Some (adj, chs')"
    and e': "e' = respond_pass env chs' (e\<lparr>en_adj := adj\<rparr>)"
    using run by (auto simp: process_def bind_eq_Some_conv)
  have "adj_ok (en_adj e)" using ok by (simp add: engine_ok_def)
  from run_pass_journal [OF this comp r] obtain ls' where a: "adj_ok adj" "as_journal adj = en_journal e @ ls'"
    "list_all (\<lambda>l. \<not> is_cut_line l) ls'" by blast
  from respond_char [of env "e\<lparr>en_adj := adj\<rparr>" chs'] obtain ms revs ls where
    "responded env (e\<lparr>en_adj := adj\<rparr>) ms revs ls e'" unfolding e' by blast
  with a that show thesis by blast
qed

lemma responded_log:
  assumes "log_ok (en_actions e)" "responded env e ms revs ls e'"
  defines "log \<equiv> en_actions e @ map (applied_action env) ms"
  shows "log_ok log" "live_cuts log = live_cuts (en_actions e) \<union> mitigation_signature ` set ms"
    "en_actions e' = filter (keeps (ee_health env) (justified_by (en_ledger e')) (effective_active env)) log"
    "revs = fst (log_reconcile (ee_health env) (justified_by (en_ledger e')) (effective_active env) log)"
proof -
  have rec: "log_reconcile (ee_health env) (justified_by (en_ledger e')) (effective_active env) log = (revs, en_actions e')"
    using assms(2) unfolding responded_def log_def by metis
  show "live_cuts log = live_cuts (en_actions e) \<union> mitigation_signature ` set ms"
    unfolding log_def by (rule live_cuts_append)
  have dist: "distinct (map mitigation_signature ms)" using assms(2) unfolding responded_def by blast
  have "mitigation_signature ` set ms \<inter> live_cuts (en_actions e) = {}"
    using assms(2) unfolding responded_def by blast
  then show "log_ok log"
    using assms(1) dist unfolding log_def log_ok_def live_cuts_def by (auto simp: comp_def)
  show "en_actions e' = filter (keeps (ee_health env) (justified_by (en_ledger e')) (effective_active env)) log"
    "revs = fst (log_reconcile (ee_health env) (justified_by (en_ledger e')) (effective_active env) log)"
    using log_reconcile_kept [of "ee_health env" "justified_by (en_ledger e')" "effective_active env" log] rec by simp_all
qed

lemma process_ok:
  assumes "engine_ok e" "completion_ok (ee_adj env)" "process env e = Some e'"
  shows "engine_ok e'"
proof -
  obtain adj ms revs ls ls' where adj: "adj_ok adj" and r: "responded env (e\<lparr>en_adj := adj\<rparr>) ms revs ls e'"
    using process_char [OF assms] by metis
  have "log_ok (en_actions (e\<lparr>en_adj := adj\<rparr>))" using assms(1) by (simp add: engine_ok_def)
  note log = responded_log [OF this r]
  have "log_ok (en_actions e')"
    unfolding log(3) using distinct_map_filter [OF log(1) [unfolded log_ok_def]] unfolding log_ok_def .
  moreover have "adj_ok (en_adj e')" using adj r by (simp add: responded_def adj_ok_def)
  moreover have "bt_ok (en_node_facts e')"
    using r assms(1) by (auto simp: responded_def engine_ok_def refresh_node_facts_def)
  ultimately show ?thesis using r assms(1) by (simp add: responded_def engine_ok_def)
qed

text \<open>The cuts a reader of the journal believes to be in force.\<close>

definition cuts_after :: "journal_decision list \<Rightarrow> string set \<Rightarrow> string set" where
  "cuts_after = fold (\<lambda>d S. case d of ApplyCut c \<Rightarrow> insert c S | RevertCut c _ \<Rightarrow> S - {c} | _ \<Rightarrow> S)"

lemma cuts_after_append: "cuts_after (xs @ ys) S = cuts_after ys (cuts_after xs S)"
  by (simp add: cuts_after_def)

lemma cuts_after_other: "list_all (\<lambda>l. \<not> is_cut_line l) ls \<Longrightarrow> cuts_after ls S = S"
proof (induction ls)
  case (Cons l ls)
  then show ?case by (cases l) (simp_all add: cuts_after_def)
qed (simp add: cuts_after_def)

lemma cuts_after_applies:
  "cuts_after (map (\<lambda>m. ApplyCut (mitigation_signature m)) ms) S = S \<union> mitigation_signature ` set ms"
  by (induction ms arbitrary: S) (auto simp: cuts_after_def)

lemma cuts_after_reverts:
  "cuts_after (map (\<lambda>r. RevertCut (mitigation_signature (rv_mitigation r)) (rv_reason r)) revs) S =
     S - (\<lambda>r. mitigation_signature (rv_mitigation r)) ` set revs"
  by (induction revs arbitrary: S) (auto simp: cuts_after_def)

lemma process_cuts:
  assumes ok: "engine_ok e" and comp: "completion_ok (ee_adj env)" and run: "process env e = Some e'"
    and agree: "cuts_after (en_journal e) {} = live_cuts (en_actions e)"
  shows "cuts_after (en_journal e') {} = live_cuts (en_actions e')"
proof -
  obtain adj ms revs ls ls' where j: "as_journal adj = en_journal e @ ls'" "list_all (\<lambda>l. \<not> is_cut_line l) ls'"
    and r: "responded env (e\<lparr>en_adj := adj\<rparr>) ms revs ls e'"
    using process_char [OF ok comp run] by metis
  have lok: "log_ok (en_actions (e\<lparr>en_adj := adj\<rparr>))" using ok by (simp add: engine_ok_def)
  note log = responded_log [OF lok r]
  have "en_journal e' = en_journal e @ ls' @ ls @ map (\<lambda>m. ApplyCut (mitigation_signature m)) ms @
      map (\<lambda>r. RevertCut (mitigation_signature (rv_mitigation r)) (rv_reason r)) revs"
    using r j(1) by (simp add: responded_def)
  moreover have "list_all (\<lambda>l. \<not> is_cut_line l) ls" using r by (simp add: responded_def)
  ultimately have "cuts_after (en_journal e') {} =
      live_cuts (en_actions e) \<union> mitigation_signature ` set ms - (\<lambda>r. mitigation_signature (rv_mitigation r)) ` set revs"
    using j(2) agree by (simp add: cuts_after_append cuts_after_other cuts_after_applies cuts_after_reverts)
  also have "\<dots> = live_cuts (en_actions e')"
    using live_cuts_reconcile [OF log(1), of "ee_health env" "justified_by (en_ledger e')" "effective_active env"]
    unfolding log(4) [symmetric] log_reconcile_kept log(3) [symmetric] log(2) by simp
  finally show ?thesis .
qed

text \<open>Any number of passes over any observations.\<close>

inductive engine_run :: "('g, 'c) engine_env list \<Rightarrow> 'c engine \<Rightarrow> 'c engine \<Rightarrow> bool" where
  run_start: "engine_run [] e e"
| run_pass: "engine_run envs e0 e \<Longrightarrow> completion_ok (ee_adj env) \<Longrightarrow> process env e = Some e' \<Longrightarrow>
     engine_run (envs @ [env]) e0 e'"

lemma engine_run_ok: "engine_run envs e0 e \<Longrightarrow> engine_ok e0 \<Longrightarrow> engine_ok e"
  by (induction rule: engine_run.induct) (auto intro: process_ok)

lemma engine_new_ok: "engine_ok (engine_new slots c)"
  by (simp add: engine_ok_def engine_new_def adj_ok_def with_cache_slots_def)

lemma engine_run_cuts:
  "engine_run envs e0 e \<Longrightarrow> engine_ok e0 \<Longrightarrow> cuts_after (en_journal e0) {} = live_cuts (en_actions e0) \<Longrightarrow>
     cuts_after (en_journal e) {} = live_cuts (en_actions e)"
proof (induction rule: engine_run.induct)
  case (run_pass envs e0 e env e')
  then show ?case using process_cuts [OF engine_run_ok [OF run_pass(1,5)] run_pass(2,3)] by blast
qed simp

text \<open>What the replay restores, and what it does not.\<close>

definition restored_only :: "'c \<Rightarrow> 'c engine \<Rightarrow> bool" where
  "restored_only c e \<longleftrightarrow>
     engine_ok e \<and> en_actions e = [] \<and> en_ledger e = [] \<and> as_decisions (en_adj e) = [] \<and> en_cluster e = c \<and>
     en_journal e = [] \<and>
     (\<forall>k. decisive_at (entry_of (en_verdicts e) k) = None)"

lemma restore_entry_only: "restored_only c e \<Longrightarrow> restored_only c (restore_entry t line e)"
  by (cases "je_decision line")
     (auto simp: restored_only_def restore_entry_def engine_ok_def adj_ok_def Let_def seed_restored_def
        cache_decisive_def entry_of_updated vs_update_bt_ok reversion_push_def REVERSION_CAP_def divergence_push_def DIVERGENCE_CAP_def
        split: option.split)

lemma replay_only:
  fixes c :: 'c
  shows "restored_only c (replay_journal t entries (engine_new slots c))"
proof -
  have "restored_only c e \<Longrightarrow> restored_only c (fold (restore_entry t) entries e)" for e :: "'c engine"
    by (induction entries arbitrary: e) (simp_all add: restore_entry_only)
  moreover have "restored_only c (engine_new slots c)"
    using engine_new_ok
    by (simp add: restored_only_def engine_new_def with_cache_slots_def entry_of_def bt_get_def entry_default_def)
  ultimately show ?thesis by (simp add: replay_journal_def)
qed

text \<open>
  The model was asked about the entry \<open>k\<close> in a pass that starts in \<open>e\<close>, and its answer was decisive; and
  this happened in one of the passes of a run.
\<close>

definition answered_decisively :: "('g, 'c) engine_env \<Rightarrow> 'c engine \<Rightarrow> string \<Rightarrow> bool" where
  "answered_decisively env e k \<longleftrightarrow>
     (\<exists>chs st res tj p d. prove (ee_ops env) (ee_graph env) = Some chs \<and>
        classify_all (ee_adj env) chs (en_adj e) = (st, res, tj) \<and> p \<in> set tj \<and> pe_entry_key p = k \<and>
        judge_pending (ee_adj env) p = Some (p, d) \<and> decisive (to_verdict d))"

definition answered_in_run :: "('g, 'c) engine_env list \<Rightarrow> 'c engine \<Rightarrow> string \<Rightarrow> bool" where
  "answered_in_run envs e0 k \<longleftrightarrow>
     (\<exists>before env later e. envs = before @ env # later \<and> engine_run before e0 e \<and> answered_decisively env e k)"

lemma process_stamps:
  assumes ok: "engine_ok e" and comp: "completion_ok (ee_adj env)" and run: "process env e = Some e'"
  shows "decisive_at (entry_of (en_verdicts e') k) = Some t \<Longrightarrow>
      decisive_at (entry_of (en_verdicts e) k) = Some t \<or> answered_decisively env e k"
    and "ApplyCut sig \<in> set (en_journal e') \<Longrightarrow> ApplyCut sig \<in> set (en_journal e) \<or>
      (\<exists>m k t. mitigation_signature m = sig \<and> k \<in> set (live_corroborating_entries m) \<and>
         decisive_at (entry_of (en_verdicts e') k) = Some t)"
proof -
  obtain chs chs' adj where p: "prove (ee_ops env) (ee_graph env) = Some chs"
    and r: "run_adjudication_pass (ee_adj env) chs (en_adj e) = Some (adj, chs')"
    and e': "e' = respond_pass env chs' (e\<lparr>en_adj := adj\<rparr>)"
    using run by (auto simp: process_def bind_eq_Some_conv)
  have adj: "adj_ok (en_adj e)" using ok by (simp add: engine_ok_def)
  obtain ms revs ls where resp: "responded env (e\<lparr>en_adj := adj\<rparr>) ms revs ls e'"
    using respond_char [of env "e\<lparr>en_adj := adj\<rparr>" chs'] unfolding e' by blast
  then have vs: "en_verdicts e' = as_verdicts adj"
    and j: "en_journal e' = as_journal adj @ ls @ map (\<lambda>m. ApplyCut (mitigation_signature m)) ms @
        map (\<lambda>r. RevertCut (mitigation_signature (rv_mitigation r)) (rv_reason r)) revs"
    and quiet: "list_all (\<lambda>l. \<not> is_cut_line l) ls"
    and ms: "\<forall>m\<in>set ms. clears env (as_verdicts adj) m"
    by (simp_all add: responded_def)
  show "decisive_at (entry_of (en_verdicts e') k) = Some t \<Longrightarrow>
      decisive_at (entry_of (en_verdicts e) k) = Some t \<or> answered_decisively env e k"
    using run_pass_stamps [OF adj comp r, of k t] p unfolding vs answered_decisively_def by blast
  obtain ls' where ls': "as_journal adj = en_journal e @ ls'" "list_all (\<lambda>l. \<not> is_cut_line l) ls'"
    using run_pass_journal [OF adj comp r] by blast
  assume "ApplyCut sig \<in> set (en_journal e')"
  then have "ApplyCut sig \<in> set (en_journal e) \<or> (\<exists>m\<in>set ms. mitigation_signature m = sig)"
    using ls'(2) quiet unfolding j ls'(1) by (auto simp: list_all_iff)
  moreover have "\<exists>k\<in>set (live_corroborating_entries m). \<exists>t. decisive_at (entry_of (en_verdicts e') k) = Some t"
    if "m \<in> set ms" for m
    using ms that unfolding clears_iff verdict_fresh_iff vs by blast
  ultimately show "ApplyCut sig \<in> set (en_journal e) \<or>
      (\<exists>m k t. mitigation_signature m = sig \<and> k \<in> set (live_corroborating_entries m) \<and>
         decisive_at (entry_of (en_verdicts e') k) = Some t)" by blast
qed

lemma answered_in_run_snoc:
  "answered_in_run envs e0 k \<Longrightarrow> answered_in_run (envs @ [env]) e0 k"
  "engine_run envs e0 e \<Longrightarrow> answered_decisively env e k \<Longrightarrow> answered_in_run (envs @ [env]) e0 k"
  unfolding answered_in_run_def by (metis append.assoc append_Cons, blast)

lemma engine_run_stamps:
  assumes "engine_run envs e0 e" "engine_ok e0" "\<And>k. decisive_at (entry_of (en_verdicts e0) k) = None"
  shows "decisive_at (entry_of (en_verdicts e) k) = Some t \<Longrightarrow> answered_in_run envs e0 k"
  using assms
proof (induction arbitrary: k t rule: engine_run.induct)
  case (run_pass envs e0 e env e')
  from process_stamps(1) [OF engine_run_ok [OF run_pass.hyps(1) run_pass.prems(2)] run_pass.hyps(2,3) run_pass.prems(1)]
  show ?case
  proof
    assume "decisive_at (entry_of (en_verdicts e) k) = Some t"
    from answered_in_run_snoc(1) [OF run_pass.IH [OF this run_pass.prems(2,3)]] show ?thesis .
  qed (rule answered_in_run_snoc(2) [OF run_pass.hyps(1)])
qed simp

lemma engine_run_applies:
  assumes "engine_run envs e0 e" "engine_ok e0" "\<And>k. decisive_at (entry_of (en_verdicts e0) k) = None"
    "\<And>sig. ApplyCut sig \<notin> set (en_journal e0)"
  shows "ApplyCut sig \<in> set (en_journal e) \<Longrightarrow>
    \<exists>m k. mitigation_signature m = sig \<and> k \<in> set (live_corroborating_entries m) \<and> answered_in_run envs e0 k"
  using assms
proof (induction arbitrary: sig rule: engine_run.induct)
  case (run_pass envs e0 e env e')
  note run' = engine_run.run_pass [OF run_pass.hyps]
  from process_stamps(2) [OF engine_run_ok [OF run_pass.hyps(1) run_pass.prems(2)] run_pass.hyps(2,3) run_pass.prems(1)]
  show ?case
  proof
    assume "ApplyCut sig \<in> set (en_journal e)"
    from run_pass.IH [OF this run_pass.prems(2-4)] show ?thesis using answered_in_run_snoc(1) by blast
  next
    assume "\<exists>m k t. mitigation_signature m = sig \<and> k \<in> set (live_corroborating_entries m) \<and>
        decisive_at (entry_of (en_verdicts e') k) = Some t"
    then show ?thesis using engine_run_stamps [OF run' run_pass.prems(2,3)] by blast
  qed
qed simp

lemma judge_answers:
  assumes "\<And>n r. chat n = Some r \<Longrightarrow> \<not> reversed_braces r"
  shows "judge P from_str chat entry sg downstream menu \<noteq> None"
proof -
  have hard: "is_hard_parse_failure from_str r \<noteq> None" "parse_incident_decision from_str r menu \<noteq> None"
    if "chat n = Some r" for n r
    using assms [OF that] extract_object_None [of from_str r]
    by (auto simp: is_hard_parse_failure_def parse_incident_decision_def split: option.split)
  have "chat_with_retry from_str chat \<noteq> None \<and>
      (\<forall>r. chat_with_retry from_str chat = Some (Some r) \<longrightarrow> (\<exists>n. chat n = Some r))"
    using hard(1) by (fastforce simp: chat_with_retry_def split: option.splits bool.splits)
  then show ?thesis using hard(2) by (fastforce simp: judge_eq split: option.splits)
qed

lemma process_total:
  assumes "stable_graph (ee_ops env)" and "engine_ok e" and "completion_ok (ee_adj env)"
    and "\<And>prompt n r. ae_chat (ee_adj env) prompt n = Some r \<Longrightarrow> \<not> reversed_braces r"
  shows "\<exists>e'. process env e = Some e'"
proof -
  obtain chs where p: "prove (ee_ops env) (ee_graph env) = Some chs"
    using stable_graph.prove_with_spec [OF assms(1)] unfolding prove_def by blast
  obtain st1 res tj where c: "classify_all (ee_adj env) chs (en_adj e) = (st1, res, tj)"
    by (metis prod_cases3)
  have "judge_pending (ee_adj env) q \<noteq> None" for q
    using judge_answers [of "ae_chat (ee_adj env) (pe_prompt q)"] assms(4) by (simp add: judge_pending_def)
  then obtain qs where "those (map (judge_pending (ee_adj env)) tj) = Some qs"
    using those_map_Some [of tj "judge_pending (ee_adj env)"] by blast
  then obtain rs where rs: "judge_all (ee_adj env) tj = Some rs" by (simp add: judge_all_def)
  have "adj_ok (en_adj e)" using assms(2) by (simp add: engine_ok_def)
  from run_pass_Some [OF this assms(3) c rs] show ?thesis using p by (auto simp: process_def)
qed

section \<open>Example engines\<close>

text \<open>An empty cluster observed, and an engine with the quarantine of \<open>web\<close> applied and journaled.\<close>

definition quiet_env :: "bool \<Rightarrow> (adj_graph, object_ref \<Rightarrow> json option) engine_env" where
  "quiet_env glass =
     \<lparr>ee_adj = demo_env\<lparr>ae_graph := sg_new adj_ops\<rparr>, ee_scope = unscoped,
      ee_actuator = isolation_actuator store_api (\<lambda>_. 0), ee_node_actuator = None, ee_nodes = [],
      ee_break_glass = glass, ee_wall = (\<lambda>_. 0)\<rparr>"

definition web_object :: object_ref where
  "web_object = np_api ''app'' (object_name (\<lambda>_. 0) ''protector-isolate'' web_mitigation)"

definition isolated_cluster :: "object_ref \<Rightarrow> json option" where
  "isolated_cluster = [web_object \<mapsto> the (render_isolation (\<lambda>_. 0) web_mitigation)]"

definition standing_engine :: "(object_ref \<Rightarrow> json option) engine" where
  "standing_engine = (engine_new 32 isolated_cluster)
     \<lparr>en_actions := [\<lparr>aa_mitigation = web_mitigation, baseline_alive = []\<rparr>],
      en_adj := \<lparr>as_verdicts = with_cache_slots 32, as_decisions = [], as_restored = [],
        as_journal = [ApplyCut (mitigation_signature web_mitigation)]\<rparr>\<rparr>"

lemma quiet_process: "\<exists>e'. process (quiet_env glass) e = Some e'"
proof -
  have "prove adj_ops (sg_new adj_ops) = Some []" by code_simp
  moreover have "run_adjudication_pass (demo_env\<lparr>ae_graph := sg_new adj_ops\<rparr>) [] st =
      Some (retain_current {} st, [])" for st
    by (simp add: run_adjudication_pass_def classify_all_def idx_by_entry_def judge_all_def demo_env_def bt_of_list_def)
  ultimately show ?thesis by (simp add: process_def quiet_env_def demo_env_def)
qed

lemma quiet_simps:
  "completion_ok (ee_adj (quiet_env glass))" "ee_break_glass (quiet_env glass) = glass"
  "engine_ok standing_engine" "live_cuts (en_actions standing_engine) = {mitigation_signature web_mitigation}"
  "en_journal standing_engine = [ApplyCut (mitigation_signature web_mitigation)]"
  by (simp_all add: quiet_env_def completion_ok_def demo_env_def engine_ok_def standing_engine_def engine_new_def
      adj_ok_def with_cache_slots_def log_ok_def live_cuts_def)

text \<open>The example cluster with an attack decided on \<open>web\<close> and a fresh verdict, before the response.\<close>

definition web_health :: health_report where
  "web_health = [(''workload/app/Deployment/api'', Halted), (web_key, Alive)]"

definition web_env :: "(adj_graph, object_ref \<Rightarrow> json option) engine_env" where
  "web_env = (quiet_env False)\<lparr>ee_adj := demo_env\<lparr>ae_health := web_health\<rparr>\<rparr>"

definition web_engine :: "(object_ref \<Rightarrow> json option) engine" where
  "web_engine = (engine_new 32 (\<lambda>_. None))
     \<lparr>en_adj := \<lparr>as_verdicts = record_decisive web_key 0 (with_cache_slots 32), as_decisions = web_attack,
        as_restored = [], as_journal = []\<rparr>\<rparr>"

lemma web_ledger: "en_ledger (respond_pass web_env [web_chain] web_engine) = [(cut_signature web_quarantine, web_mitigation)]"
  using respond_char [of web_env web_engine "[web_chain]"] web_decided by (auto simp: web_engine_def engine_new_def)

lemma web_clears: "clears web_env (en_verdicts web_engine) web_mitigation"
proof -
  have "decide web_mitigation \<lparr>enabled = {QuarantineEntry}, judgement = True\<rparr> unscoped
      (predict_blast_radius adj_ops ex_sg web_mitigation web_health) = AutoApply" by code_simp
  moreover have "list_ex (\<lambda>k. verdict_fresh (record_decisive web_key 0 (with_cache_slots 32)) k 0 JUDGE_FRESHNESS_BOUND)
      (live_corroborating_entries web_mitigation)"
    by (simp add: live_corroborating_entries_def web_mitigation_def justification_of_def web_chain_def
        is_breach_relevant_def verdict_fresh_iff record_decisive_def breaker_open_def is_open_def breaker_default_def
        breaker_success_def with_cache_slots_def vs_update_def entry_of_def bt_get_def Let_def)
  ultimately show ?thesis
    by (simp add: clears_def actuation_decision_def gate_on_judge_freshness_def web_env_def quiet_env_def demo_env_def
        web_engine_def effective_active_def)
qed

text \<open>A cleared cut that was not live is applied, and stays to the end of the pass.\<close>

lemma responded_applies:
  assumes log: "log_ok (en_actions e)" and health: "bt_ok (ee_health env)" and r: "responded env e ms revs ls e'"
    and m: "m \<in> set (map snd (en_ledger e'))" "clears env (en_verdicts e) m"
      "mitigation_signature m \<notin> live_cuts (en_actions e)"
  shows "\<exists>m'\<in>set (map snd (en_ledger e')). mitigation_signature m' = mitigation_signature m \<and>
    applied_action env m' \<in> set (en_actions e') \<and> ApplyCut (mitigation_signature m) \<in> set (en_journal e')"
proof -
  have all: "\<forall>m\<in>set (map snd (en_ledger e')). clears env (en_verdicts e) m \<longrightarrow>
        mitigation_signature m \<in> live_cuts (en_actions e) \<or> mitigation_signature m \<in> mitigation_signature ` set ms"
    and each: "\<forall>m\<in>set ms. m \<in> set (map snd (en_ledger e')) \<and> clears env (en_verdicts e) m \<and>
        mitigation_signature m \<notin> live_cuts (en_actions e)"
    and j: "en_journal e' = en_journal e @ ls @ map (\<lambda>m. ApplyCut (mitigation_signature m)) ms @
        map (\<lambda>r. RevertCut (mitigation_signature (rv_mitigation r)) (rv_reason r)) revs"
    using r by (simp_all add: responded_def)
  obtain m' where m': "m' \<in> set ms" "mitigation_signature m' = mitigation_signature m"
    using all m by (metis imageE)
  have "keeps (ee_health env) (justified_by (en_ledger e')) (effective_active env) (applied_action env m')"
    using each m'(1) clears_action alive_workloads_health [OF health]
    by (force simp: keeps_def justified_by_def)
  then have "applied_action env m' \<in> set (en_actions e')"
    unfolding responded_log(3) [OF log r] using m'(1) by simp
  moreover have "ApplyCut (mitigation_signature m) \<in> set (en_journal e')"
    unfolding j m'(2) [symmetric] using m'(1) by simp
  ultimately show ?thesis using m' each by blast
qed

lemma web_facts:
  "log_ok (en_actions web_engine)" "live_cuts (en_actions web_engine) = {}" "\<not> log_is_active (en_actions web_engine) m"
  "bt_ok (ee_health web_env)"
proof -
  show "bt_ok (ee_health web_env)" unfolding web_env_def by (simp, code_simp)
qed (simp_all add: web_engine_def engine_new_def live_cuts_def log_is_active_def)

lemma web_applied:
  "applied_action web_env web_mitigation \<in> set (en_actions (respond_pass web_env [web_chain] web_engine))"
  "ApplyCut (mitigation_signature web_mitigation) \<in> set (en_journal (respond_pass web_env [web_chain] web_engine))"
proof -
  obtain ms revs ls where r: "responded web_env web_engine ms revs ls (respond_pass web_env [web_chain] web_engine)"
    using respond_char by blast
  show "applied_action web_env web_mitigation \<in> set (en_actions (respond_pass web_env [web_chain] web_engine))"
    "ApplyCut (mitigation_signature web_mitigation) \<in> set (en_journal (respond_pass web_env [web_chain] web_engine))"
    using responded_applies [OF web_facts(1,4) r _ web_clears] web_ledger web_facts(2) by auto
qed

section \<open>Properties\<close>

text \<open>
  C14. Every engine reached from boot, through the replay of any journal and any sequence of passes, is
  well formed: its verdict store, decisions, staged decisions and node facts are sorted maps, its
  action log holds at most one record per cut, and its two rings are within their caps.
\<close>

theorem reachable_engine_well_formed:
  assumes "engine_run envs (replay_journal t entries (engine_new slots c)) e"
  shows "adj_ok (en_adj e) \<and> bt_ok (en_node_facts e) \<and> log_ok (en_actions e) \<and>
    length (en_reversions e) \<le> REVERSION_CAP \<and> length (en_divergence e) \<le> DIVERGENCE_CAP"
  using engine_run_ok [OF assms] replay_only [of c t entries slots]
  by (simp add: restored_only_def engine_ok_def)

theorem reachable_engine_well_formed_witness:
  "\<exists>e. engine_run [quiet_env True] (replay_journal 0 [] (engine_new 32 isolated_cluster)) e \<and> log_ok (en_actions e)"
proof -
  obtain e where "process (quiet_env True) (replay_journal 0 [] (engine_new 32 isolated_cluster)) = Some e"
    using quiet_process by blast
  then have "engine_run [quiet_env True] (replay_journal 0 [] (engine_new 32 isolated_cluster)) e"
    using run_pass [OF run_start quiet_simps(1)] by fastforce
  from this reachable_engine_well_formed [OF this] show ?thesis by blast
qed

text \<open>
  C7. At the end of a pass every applied action is still earned: the workloads it promised to keep alive
  are alive, its class is armed this pass, and the ledger of this pass has a mitigation of its cut.
\<close>

theorem applied_actions_are_earned:
  assumes "log_ok (en_actions e)" and "a \<in> set (en_actions (respond_pass env chs e))"
  shows "(\<forall>k\<in>set (baseline_alive a). health_of (ee_health env) k = Alive) \<and>
    \<not> ee_break_glass env \<and> is_enabled (ae_active (ee_adj env)) (m_action (aa_mitigation a)) \<and>
    (\<exists>m\<in>set (map snd (en_ledger (respond_pass env chs e))). mitigation_signature m = action_signature a)"
proof -
  obtain ms revs ls where r: "responded env e ms revs ls (respond_pass env chs e)" using respond_char by blast
  have "keeps (ee_health env) (justified_by (en_ledger (respond_pass env chs e))) (effective_active env) a"
    using assms(2) unfolding responded_log(3) [OF assms(1) r] by auto
  then show ?thesis
    by (force simp: keeps_def justified_by_def effective_active_def is_enabled_def enabled_none_def split: if_splits)
qed

theorem applied_actions_are_earned_witness:
  "applied_action web_env web_mitigation \<in> set (en_actions (respond_pass web_env [web_chain] web_engine)) \<and>
   health_of (ee_health web_env) web_key = Alive"
proof -
  have a: "applied_action web_env web_mitigation \<in> set (en_actions (respond_pass web_env [web_chain] web_engine))"
    using web_applied(1) .
  have "log_ok (en_actions web_engine)" "web_key \<in> set (alive_workloads (ee_health web_env))"
    by (simp_all add: web_engine_def engine_new_def web_env_def web_health_def alive_workloads_def)
  with applied_actions_are_earned [OF _ a] a show ?thesis by simp
qed

text \<open>
  C2. A cut goes live only through every gate. Whatever chains and decisions the response is given, a cut
  it journals as applied was not live, is an additive, reversible action of an active mitigation, of a
  class armed and in scope with break-glass off, on a fully modelled graph in which no bystander it would
  sever is alive, and an entry corroborating it has a decisive verdict at most fifteen minutes old while
  the circuit breaker is closed. A node cut is never among them.
\<close>

theorem cuts_go_live_through_the_gates:
  assumes "ApplyCut s \<in> set (drop (length (en_journal e)) (en_journal (respond_pass env chs e)))"
  shows "s \<notin> live_cuts (en_actions e) \<and>
    (\<exists>m\<in>set (map snd (en_ledger (respond_pass env chs e))). mitigation_signature m = s \<and>
       is_additive_live (m_action m) \<and> m_action m \<noteq> ContainNode \<and>
       is_enabled (ae_active (ee_adj env)) (m_action m) \<and> \<not> ee_break_glass env \<and> in_scope (ee_scope env) m \<and>
       \<not> reachability_incomplete (ee_graph env) \<and>
       (\<forall>peer. bystander (ee_ops env) (ee_graph env) m peer \<longrightarrow> health_of (ee_health env) peer \<noteq> Alive) \<and>
       \<not> breaker_open (en_verdicts e) (ae_now (ee_adj env)) \<and>
       (\<exists>k\<in>set (live_corroborating_entries m). \<exists>at. decisive_at (entry_of (en_verdicts e) k) = Some at \<and>
          ae_now (ee_adj env) - at \<le> 15 * 60 * 10 ^ 9))"
proof -
  obtain ms revs ls where r: "responded env e ms revs ls (respond_pass env chs e)" using respond_char by blast
  then have "drop (length (en_journal e)) (en_journal (respond_pass env chs e)) =
      ls @ map (\<lambda>m. ApplyCut (mitigation_signature m)) ms @
      map (\<lambda>r. RevertCut (mitigation_signature (rv_mitigation r)) (rv_reason r)) revs"
    and "list_all (\<lambda>l. \<not> is_cut_line l) ls" by (simp_all add: responded_def)
  with assms obtain m where m: "m \<in> set ms" "s = mitigation_signature m" by (auto simp: list_all_iff)
  then have c: "clears env (en_verdicts e) m" "m \<in> set (map snd (en_ledger (respond_pass env chs e)))"
    "s \<notin> live_cuts (en_actions e)" using r by (auto simp: responded_def)
  have "m_action m \<noteq> ContainNode" using clears_action [OF c(1)] by blast
  with c m(2) show ?thesis unfolding clears_iff verdict_fresh_iff JUDGE_FRESHNESS_BOUND_def by fastforce
qed

theorem cuts_go_live_through_the_gates_witness:
  "ApplyCut (mitigation_signature web_mitigation) \<in>
     set (drop (length (en_journal web_engine)) (en_journal (respond_pass web_env [web_chain] web_engine))) \<and>
   \<not> breaker_open (en_verdicts web_engine) (ae_now (ee_adj web_env))"
proof -
  have "en_journal web_engine = []" by (simp add: web_engine_def)
  then have a: "ApplyCut (mitigation_signature web_mitigation) \<in>
      set (drop (length (en_journal web_engine)) (en_journal (respond_pass web_env [web_chain] web_engine)))"
    using web_applied(2) by simp
  from cuts_go_live_through_the_gates [OF this] a show ?thesis by blast
qed

text \<open>
  C11. A cut that clears the gates goes live in the same pass and stands at its end: the workloads recorded
  with it are those alive now, so the revert loop of the same pass does not undo it.
\<close>

theorem cleared_cut_stands_at_the_end:
  assumes "log_ok (en_actions e)" and "bt_ok (ee_health env)"
    and "m \<in> set (map snd (en_ledger (respond_pass env chs e)))"
    and "actuation_decision env (effective_active env) (en_verdicts e) m = AutoApply"
    and "\<not> log_is_active (en_actions e) m"
  shows "log_is_active (en_actions (respond_pass env chs e)) m \<and>
    ApplyCut (mitigation_signature m) \<in> set (en_journal (respond_pass env chs e))"
proof -
  obtain ms revs ls where r: "responded env e ms revs ls (respond_pass env chs e)" using respond_char by blast
  obtain m' where "mitigation_signature m' = mitigation_signature m"
    "applied_action env m' \<in> set (en_actions (respond_pass env chs e))"
    "ApplyCut (mitigation_signature m) \<in> set (en_journal (respond_pass env chs e))"
    using responded_applies [OF assms(1,2) r assms(3)] assms(4,5) unfolding clears_def log_is_active_iff by blast
  then show ?thesis by (force simp: log_is_active_def list_ex_iff)
qed

theorem cleared_cut_stands_at_the_end_witness:
  "log_is_active (en_actions (respond_pass web_env [web_chain] web_engine)) web_mitigation"
  using cleared_cut_stands_at_the_end [of web_engine web_env web_mitigation "[web_chain]"]
    web_clears web_ledger web_facts by (simp add: clears_def)

text \<open>
  C6. Break-glass is complete for the cuts the engine knows of: a pass with the flag present ends with an
  empty action log, applies nothing, and journals a reversion of every cut that was live.
\<close>

theorem break_glass_lifts_every_known_cut:
  assumes "engine_ok e" and "completion_ok (ee_adj env)" and "ee_break_glass env" and "process env e = Some e'"
  shows "en_actions e' = [] \<and>
    (\<exists>ls. en_journal e' = en_journal e @ ls \<and> (\<forall>s. ApplyCut s \<notin> set ls) \<and>
       (\<forall>s\<in>live_cuts (en_actions e). \<exists>why. RevertCut s why \<in> set ls))"
proof -
  obtain adj ms revs ls ls' where j: "as_journal adj = en_journal e @ ls'" "list_all (\<lambda>l. \<not> is_cut_line l) ls'"
    and r: "responded env (e\<lparr>en_adj := adj\<rparr>) ms revs ls e'"
    using process_char [OF assms(1,2,4)] by metis
  have lok: "log_ok (en_actions (e\<lparr>en_adj := adj\<rparr>))" using assms(1) by (simp add: engine_ok_def)
  note log = responded_log [OF lok r]
  have "\<not> clears env vs m" for vs m using assms(3) by (simp add: clears_iff)
  then have ms: "ms = []" using r unfolding responded_def by (metis last_in_set)
  have off: "\<not> keeps h js (effective_active env) a" for h js a
    using assms(3) by (simp add: keeps_def effective_active_def is_enabled_def enabled_none_def)
  have "en_journal e' = en_journal e @ ls' @ ls @
      map (\<lambda>r. RevertCut (mitigation_signature (rv_mitigation r)) (rv_reason r)) revs"
    "list_all (\<lambda>l. \<not> is_cut_line l) ls"
    using r j(1) ms by (simp_all add: responded_def)
  moreover have "map (\<lambda>r. mitigation_signature (rv_mitigation r)) revs = map action_signature (en_actions e)"
    unfolding log(4) reverted_signatures ms using off by simp
  then have "live_cuts (en_actions e) = (\<lambda>r. mitigation_signature (rv_mitigation r)) ` set revs"
    by (metis live_cuts_def set_map)
  ultimately show ?thesis using j(2) off unfolding log(3) by (auto simp: list_all_iff)
qed

theorem break_glass_lifts_every_known_cut_witness:
  "\<exists>e'. process (quiet_env True) standing_engine = Some e' \<and> en_actions e' = [] \<and>
     (\<exists>why. RevertCut (mitigation_signature web_mitigation) why \<in> set (en_journal e'))"
proof -
  obtain e' where p: "process (quiet_env True) standing_engine = Some e'" using quiet_process by blast
  from break_glass_lifts_every_known_cut [OF quiet_simps(3,1) _ p] p show ?thesis
    by (fastforce simp: quiet_simps)
qed

text \<open>
  C36. But the engine does not know the cuts of its previous life. After a restart, whatever the journal
  says was applied, the replay leaves the action log empty, and a pass with break-glass engaged
  leaves the cluster exactly as it found it: a cut standing from before the restart is not lifted.
\<close>

theorem break_glass_misses_cuts_of_a_previous_run:
  assumes "completion_ok (ee_adj env)" and "ee_break_glass env"
    and "process env (replay_journal t entries (engine_new slots c)) = Some e'"
  shows "en_cluster e' = c \<and> en_actions e' = []"
proof -
  let ?e = "replay_journal t entries (engine_new slots c)"
  have e: "engine_ok ?e" "en_actions ?e = []" "en_cluster ?e = c"
    using replay_only [of c t entries slots] by (simp_all add: restored_only_def)
  obtain adj ms revs ls ls' where r: "responded env (?e\<lparr>en_adj := adj\<rparr>) ms revs ls e'"
    using process_char [OF e(1) assms(1,3)] by metis
  have "\<not> clears env vs m" for vs m using assms(2) by (simp add: clears_iff)
  then have ms: "ms = []" using r unfolding responded_def by (metis last_in_set)
  then have "revs = [] \<and> en_actions e' = []" using r e(2) by (simp add: responded_def log_reconcile_def)
  then show ?thesis using r ms e(3) by (simp add: responded_def)
qed

theorem break_glass_misses_cuts_of_a_previous_run_witness:
  "\<exists>e'. process (quiet_env True) (replay_journal 0
        [\<lparr>je_at_ms = 0, je_decision = ApplyCut (mitigation_signature web_mitigation)\<rparr>]
        (engine_new 32 isolated_cluster)) = Some e' \<and>
      en_cluster e' web_object \<noteq> None"
proof -
  obtain e' where p: "process (quiet_env True) (replay_journal 0
        [\<lparr>je_at_ms = 0, je_decision = ApplyCut (mitigation_signature web_mitigation)\<rparr>]
        (engine_new 32 isolated_cluster)) = Some e'" using quiet_process by blast
  from break_glass_misses_cuts_of_a_previous_run [OF quiet_simps(1) _ p] p show ?thesis
    by (simp add: quiet_simps isolated_cluster_def)
qed

text \<open>
  C5. The journal tells the truth about the run that writes it: from a fresh engine, after any passes, the
  cuts that its apply lines and revert lines leave in force are exactly the cuts of the action log.
\<close>

theorem journal_tells_the_live_cuts:
  assumes "engine_run envs (engine_new slots c) e"
  shows "cuts_after (en_journal e) {} = live_cuts (en_actions e)"
  by (rule engine_run_cuts [OF assms engine_new_ok]) (simp add: engine_new_def cuts_after_def live_cuts_def)

theorem journal_tells_the_live_cuts_witness:
  "\<exists>e. engine_run [quiet_env False, quiet_env True] (engine_new 32 isolated_cluster) e \<and>
     cuts_after (en_journal e) {} = live_cuts (en_actions e)"
proof -
  obtain e1 where "process (quiet_env False) (engine_new 32 isolated_cluster) = Some e1" using quiet_process by blast
  note run1 = run_pass [OF run_start quiet_simps(1) this]
  obtain e2 where "process (quiet_env True) e1 = Some e2" using quiet_process by blast
  note run2 = run_pass [OF run1 quiet_simps(1) this]
  from run2 journal_tells_the_live_cuts [OF run2] show ?thesis by auto
qed


text \<open>The example cluster while the model does not answer, and the journal of a run that had judged \<open>web\<close> an attack.\<close>

definition silent_env :: "(adj_graph, object_ref \<Rightarrow> json option) engine_env" where
  "silent_env = web_env\<lparr>ee_adj := (ee_adj web_env)\<lparr>ae_chat := \<lambda>_ _. None\<rparr>\<rparr>"

definition web_history :: "journal_entry list" where
  "web_history =
     [\<lparr>je_at_ms = 0, je_decision = Incident web_key 1 Attack ''known exploit'' [] []\<rparr>,
      \<lparr>je_at_ms = 1, je_decision =
         Breach web_key 1 ''exploitable'' None (Some []) (Some (Exploitable ''known exploit''))\<rparr>]"

lemma silent_judge: "judge_pending (ee_adj silent_env) p = Some (p, uncertain ''model unavailable'')"
  by (simp add: judge_pending_def judge_eq chat_with_retry_def silent_env_def)

lemma silent_process: "engine_ok e \<Longrightarrow> \<exists>e'. process silent_env e = Some e'"
  using adj.stable_graph_axioms
  by (intro process_total) (simp_all add: silent_env_def web_env_def demo_env_def completion_ok_def)


text \<open>An API server that refuses every patch.\<close>

definition outage_env :: "(adj_graph, object_ref \<Rightarrow> json option) engine_env" where
  "outage_env = web_env\<lparr>ee_actuator := isolation_actuator (store_api\<lparr>api_patch := \<lambda>r j c. (False, c)\<rparr>) (\<lambda>_. 0)\<rparr>"

lemma outage_apply: "act_apply (ee_actuator outage_env) m c = (DryRun, c)"
  by (simp add: outage_env_def isolation_actuator_def apply_isolation_def Let_def split: option.split)

lemma outage_clears: "actuation_decision outage_env (effective_active outage_env) (en_verdicts web_engine) web_mitigation = AutoApply"
  using web_clears
  by (cases "ee_break_glass web_env") (simp_all add: clears_def actuation_decision_def outage_env_def effective_active_def)

lemma outage_ledger: "web_mitigation \<in> set (map snd (en_ledger (respond_pass outage_env [web_chain] web_engine)))"
  using respond_char [of outage_env web_engine "[web_chain]"] web_decided by (auto simp: web_engine_def engine_new_def)

text \<open>
  C37. The outcome of an apply is not looked at. When every apply of a pass fails and leaves the cluster as
  it was, a cleared cut is still journaled as applied and recorded as live, the cluster holds no control
  for it, and as long as it is recorded no later response applies it again.
\<close>

theorem failed_apply_counts_as_live:
  assumes "en_actions e = []" and "bt_ok (ee_health env)"
    and fails: "\<forall>m c. act_apply (ee_actuator env) m c = (DryRun, c)"
    and "m \<in> set (map snd (en_ledger (respond_pass env chs e)))"
    and "actuation_decision env (effective_active env) (en_verdicts e) m = AutoApply"
  shows "log_is_active (en_actions (respond_pass env chs e)) m \<and>
    ApplyCut (mitigation_signature m) \<in> set (en_journal (respond_pass env chs e)) \<and>
    en_cluster (respond_pass env chs e) = en_cluster e \<and>
    (\<forall>e2 env2 chs2. log_is_active (en_actions e2) m \<longrightarrow> ApplyCut (mitigation_signature m) \<notin>
       set (drop (length (en_journal e2)) (en_journal (respond_pass (env2 :: ('g, 'c) engine_env) chs2 e2))))"
proof -
  let ?e' = "respond_pass env chs e"
  have lok: "log_ok (en_actions e)" using assms(1) by simp
  obtain ms revs ls where r: "responded env e ms revs ls ?e'" using respond_char by blast
  obtain m' where m': "mitigation_signature m' = mitigation_signature m" "applied_action env m' \<in> set (en_actions ?e')"
    "ApplyCut (mitigation_signature m) \<in> set (en_journal ?e')"
    using responded_applies [OF lok assms(2) r assms(4)] assms(1,5) by (auto simp: clears_def live_cuts_def)
  have "keeps (ee_health env) (justified_by (en_ledger ?e')) (effective_active env) (applied_action env x)"
    if "x \<in> set ms" for x
    using r that clears_action alive_workloads_health [OF assms(2)]
    by (force simp: responded_def keeps_def justified_by_def)
  then have "map rv_mitigation revs = []"
    unfolding responded_log(4) [OF lok r] log_reconcile_reverted assms(1) by (auto simp: filter_empty_conv)
  moreover have "apply_all env ms c = c" for c using fails by (induction ms) auto
  ultimately have "en_cluster ?e' = en_cluster e" using r by (simp add: responded_def)
  moreover have "ApplyCut (mitigation_signature m) \<notin>
      set (drop (length (en_journal e2)) (en_journal (respond_pass env2 chs2 e2)))"
    if "log_is_active (en_actions e2) m" for e2 chs2 and env2 :: "('g, 'c) engine_env"
  proof -
    obtain ms2 revs2 ls2 where "responded env2 e2 ms2 revs2 ls2 (respond_pass env2 chs2 e2)" using respond_char by blast
    then show ?thesis using that by (auto simp: responded_def log_is_active_iff list_all_iff)
  qed
  ultimately show ?thesis using m' by (force simp: log_is_active_def list_ex_iff)
qed

theorem failed_apply_counts_as_live_witness:
  "log_is_active (en_actions (respond_pass outage_env [web_chain] web_engine)) web_mitigation \<and>
   en_cluster (respond_pass outage_env [web_chain] web_engine) = (\<lambda>_. None)"
proof -
  have "en_actions web_engine = []" "bt_ok (ee_health outage_env)" "en_cluster web_engine = (\<lambda>_. None)"
    using web_facts(4) by (simp_all add: web_engine_def engine_new_def outage_env_def)
  with failed_apply_counts_as_live [OF _ _ _ outage_ledger outage_clears] outage_apply show ?thesis by auto
qed

text \<open>
  C12. A pass always completes, on any graph store, any graph and any state, as long as no reply of the model
  has its last closing brace before its first opening brace: the proof search ends, every entry gets a
  verdict, and no arithmetic of the backoff overflows.
\<close>

theorem pass_completes:
  assumes "stable_graph (ee_ops env)" and "engine_ok e" and "completion_ok (ee_adj env)"
    and "\<And>prompt n r. ae_chat (ee_adj env) prompt n = Some r \<Longrightarrow> \<not> reversed_braces r"
  shows "\<exists>e'. process env e = Some e'"
  by (rule process_total [OF assms])

theorem pass_completes_witness: "\<exists>e'. process web_env web_engine = Some e'"
proof (rule pass_completes)
  have plain: "\<not> reversed_braces ''no answer''" "\<not> reversed_braces [CHR 0x7B, CHR 0x7D]"
    unfolding extract_object_None [of "\<lambda>_. None", symmetric] by code_simp+
  show "stable_graph (ee_ops web_env)"
    using adj.stable_graph_axioms by (simp add: web_env_def demo_env_def)
  show "engine_ok web_engine"
    by (simp add: engine_ok_def web_engine_def engine_new_def adj_ok_def record_decisive_def with_cache_slots_def
        web_attack_def bt_ok_def vs_update_def Let_def)
  show "completion_ok (ee_adj web_env)" by (simp add: web_env_def completion_ok_def demo_env_def)
  show "\<not> reversed_braces r" if "ae_chat (ee_adj web_env) prompt n = Some r" for prompt n r
    using that plain by (auto simp: web_env_def demo_env_def web_reply_def split: if_splits)
qed

end
