(* ===== verification/Signing.thy ===== *)
theory Signing
  imports Journal "HOL-Library.AList"
begin

text \<open>
  Signing history (\<open>policies/signature/posture.rs\<close>, the repository key of \<open>policies/signature/mod.rs\<close>,
  \<open>state/signing_baseline.rs\<close>, \<open>supply_chain/signing_drift.rs\<close>, \<open>supply_chain/provenance_drift.rs\<close> and the
  recording of \<open>supply_chain/signing_sweep.rs\<close>): the postures an image can have, the per-repository baseline
  learned from them, its eviction, journal lines and replay, and the drift of a fresh posture against it.
  A hash map is an association list with distinct keys, listed in its order of iteration.
\<close>

section \<open>Postures\<close>

fun rank_level :: "signing_posture_rank \<Rightarrow> nat" where
  "rank_level Unsigned = 0"
| "rank_level Unverifiable = 1"
| "rank_level KeyBased = 2"
| "rank_level Keyless = 3"

instantiation signing_posture_rank :: linorder
begin

definition less_eq_signing_posture_rank :: "signing_posture_rank \<Rightarrow> signing_posture_rank \<Rightarrow> bool" where
  "less_eq_signing_posture_rank a b \<longleftrightarrow> rank_level a \<le> rank_level b"

definition less_signing_posture_rank :: "signing_posture_rank \<Rightarrow> signing_posture_rank \<Rightarrow> bool" where
  "less_signing_posture_rank a b \<longleftrightarrow> rank_level a < rank_level b"

instance
proof
  fix a b :: signing_posture_rank
  show "a \<le> b \<Longrightarrow> b \<le> a \<Longrightarrow> a = b"
    by (cases a; cases b) (simp_all add: less_eq_signing_posture_rank_def)
qed (auto simp: less_eq_signing_posture_rank_def less_signing_posture_rank_def)

end

record signer =
  si_identity :: string
  si_issuer :: "string option"

datatype signing_posture =
    Signed signer
  | SignedKeyBased
  | UnverifiableHere
  | InvalidSignature
  | NotSigned
  | SigningChecking

fun posture_status :: "signing_posture \<Rightarrow> string" where
  "posture_status (Signed _) = ''signed''"
| "posture_status SignedKeyBased = ''signed-key-based''"
| "posture_status UnverifiableHere = ''unverifiable''"
| "posture_status InvalidSignature = ''invalid-signature''"
| "posture_status NotSigned = ''not-signed''"
| "posture_status SigningChecking = ''checking''"

fun posture_signer :: "signing_posture \<Rightarrow> signer option" where
  "posture_signer (Signed s) = Some s"
| "posture_signer _ = None"

fun signing_rank :: "signing_posture \<Rightarrow> signing_posture_rank option" where
  "signing_rank (Signed _) = Some Keyless"
| "signing_rank SignedKeyBased = Some KeyBased"
| "signing_rank UnverifiableHere = Some Unverifiable"
| "signing_rank NotSigned = Some Unsigned"
| "signing_rank InvalidSignature = None"
| "signing_rank SigningChecking = None"

definition TAG_REF_MARKER :: string where
  "TAG_REF_MARKER = ''@refs/tags/''"

text \<open>\<open>str::rfind\<close>: the start of the last occurrence.\<close>

definition rfind_str :: "string \<Rightarrow> string \<Rightarrow> nat option" where
  "rfind_str p s =
     (case filter (\<lambda>i. starts_with (drop i s) p) [0..<Suc (length s)] of
        [] \<Rightarrow> None
      | is \<Rightarrow> Some (last is))"

definition canonical_identity :: "string \<Rightarrow> string" where
  "canonical_identity identity =
     (case rfind_str TAG_REF_MARKER identity of
        Some pos \<Rightarrow> take (pos + length TAG_REF_MARKER) identity @ ''*''
      | None \<Rightarrow> identity)"

definition signer_identity :: "signer \<Rightarrow> string" where
  "signer_identity s = canonical_identity (si_identity s)"

section \<open>The repository key\<close>

definition canonical_host :: "string \<Rightarrow> string" where
  "canonical_host host =
     (let host = map ascii_lower host;
          without_port =
            (case rsplit_once (CHR '':'') host of
               Some (h, port) \<Rightarrow> if port = ''443'' \<or> port = ''80'' then h else host
             | None \<Rightarrow> host)
      in case strip_suffix without_port ''.'' of Some h \<Rightarrow> h | None \<Rightarrow> without_port)"

definition normalize_registry_host :: "string \<Rightarrow> string" where
  "normalize_registry_host img =
     (case split_once (CHR ''/'') img of
        Some (host, rest) \<Rightarrow>
          if CHR ''.'' \<in> set host \<or> CHR '':'' \<in> set host then canonical_host host @ ''/'' @ rest else img
      | None \<Rightarrow> img)"

definition strip_tag :: "string \<Rightarrow> string" where
  "strip_tag s = (case rsplit_once (CHR '':'') s of Some (before, _) \<Rightarrow> before | None \<Rightarrow> s)"

definition repo_key :: "string \<Rightarrow> string" where
  "repo_key img =
     (let normalized = normalize_registry_host img;
          without_digest = (case split_once (CHR ''@'') normalized of Some (before, _) \<Rightarrow> before | None \<Rightarrow> normalized)
      in case rsplit_once (CHR ''/'') without_digest of
           Some (path, segment) \<Rightarrow> path @ ''/'' @ strip_tag segment
         | None \<Rightarrow> strip_tag without_digest)"

section \<open>Baselines\<close>

definition ESTABLISH_AGE_MS :: u64 where
  "ESTABLISH_AGE_MS = 24 * 60 * 60 * 1000"

definition DEFAULT_MAX_REPOS :: nat where
  "DEFAULT_MAX_REPOS = 4096"

definition saturating_sub64 :: "u64 \<Rightarrow> u64 \<Rightarrow> u64" where
  "saturating_sub64 a b = (if a < b then 0 else a - b)"

record signing_baseline =
  bl_identities :: "string list"
  bl_issuers :: "string list"
  bl_first_seen_ms :: u64
  established :: bool
  log_corroborated :: bool
  bl_rank :: signing_posture_rank
  provenance_sources :: "string list"
  provenance_builders :: "string list"
  last_updated_ms :: u64

record signing_store =
  baselines :: "(string \<times> signing_baseline) list"
  max_repos :: nat

definition has_provenance :: "signing_baseline \<Rightarrow> bool" where
  "has_provenance b \<longleftrightarrow> provenance_builders b \<noteq> [] \<or> provenance_sources b \<noteq> []"

definition to_decision :: "string \<Rightarrow> signing_baseline \<Rightarrow> journal_decision" where
  "to_decision repo b =
     SigningBaseline
       \<lparr>sb_repo = repo, sb_identities = bl_identities b, sb_issuers = bl_issuers b,
        sb_first_seen_ms = bl_first_seen_ms b, sb_established = established b,
        sb_log_corroborated = log_corroborated b, sb_rank = bl_rank b,
        sb_provenance_sources = provenance_sources b, sb_provenance_builders = provenance_builders b\<rparr>"

definition store_with_capacity :: "nat \<Rightarrow> signing_store" where
  "store_with_capacity n = \<lparr>baselines = [], max_repos = max n 1\<rparr>"

definition store_get :: "signing_store \<Rightarrow> string \<Rightarrow> signing_baseline option" where
  "store_get st repo = map_of (baselines st) repo"

fun min_by_key :: "('a \<Rightarrow> 'b::linorder) \<Rightarrow> 'a list \<Rightarrow> 'a option" where
  "min_by_key f [] = None"
| "min_by_key f (x # xs) =
     (case min_by_key f xs of
        None \<Rightarrow> Some x
      | Some y \<Rightarrow> if f y < f x then Some y else Some x)"

definition evict_if_full :: "signing_store \<Rightarrow> signing_store" where
  "evict_if_full st =
     (if length (baselines st) < max_repos st then st
      else
        (let oldest = min_by_key (\<lambda>(_, b). last_updated_ms b);
             victim =
               (case oldest (filter (\<lambda>(_, b). \<not> established b) (baselines st)) of
                  Some v \<Rightarrow> Some v
                | None \<Rightarrow> oldest (baselines st))
         in case victim of
              Some (repo, _) \<Rightarrow> st\<lparr>baselines := AList.delete repo (baselines st)\<rparr>
            | None \<Rightarrow> st))"

text \<open>\<open>BTreeSet::insert\<close>: whether the element is new, and the set with it.\<close>

definition set_insert :: "string \<Rightarrow> string list \<Rightarrow> bool \<times> string list" where
  "set_insert x xs = (x \<notin> set xs, if x \<in> set xs then xs else bs_of_list (x # xs))"

definition set_insert_opt :: "string option \<Rightarrow> string list \<Rightarrow> bool \<times> string list" where
  "set_insert_opt x xs = (case x of Some y \<Rightarrow> set_insert y xs | None \<Rightarrow> (False, xs))"

definition store_put :: "string \<Rightarrow> signing_baseline \<Rightarrow> signing_store \<Rightarrow> signing_store" where
  "store_put repo b st = st\<lparr>baselines := AList.update repo b (baselines st)\<rparr>"

definition refresh_baseline ::
  "signing_posture \<Rightarrow> signer \<Rightarrow> u64 \<Rightarrow> signing_baseline \<Rightarrow> bool \<times> signing_baseline" where
  "refresh_baseline posture s now_ms b =
     (let (new_id, ids) = set_insert (signer_identity s) (bl_identities b);
          (new_issuer, iss) = set_insert_opt (si_issuer s) (bl_issuers b);
          est = (established b \<or> ESTABLISH_AGE_MS \<le> saturating_sub64 now_ms (bl_first_seen_ms b));
          raised = (case signing_rank posture of Some r \<Rightarrow> bl_rank b < r | None \<Rightarrow> False);
          rank = (case signing_rank posture of Some r \<Rightarrow> if bl_rank b < r then r else bl_rank b | None \<Rightarrow> bl_rank b)
      in (new_id \<or> new_issuer \<or> est \<noteq> established b \<or> raised,
          b\<lparr>bl_identities := ids, bl_issuers := iss, established := est, bl_rank := rank,
            last_updated_ms := now_ms\<rparr>))"

definition first_baseline :: "signing_posture \<Rightarrow> signer \<Rightarrow> u64 \<Rightarrow> signing_baseline" where
  "first_baseline posture s now_ms =
     \<lparr>bl_identities = [signer_identity s], bl_issuers = (case si_issuer s of Some i \<Rightarrow> [i] | None \<Rightarrow> []),
      bl_first_seen_ms = now_ms, established = False, log_corroborated = False,
      bl_rank = (case signing_rank posture of Some r \<Rightarrow> r | None \<Rightarrow> Keyless),
      provenance_sources = [], provenance_builders = [], last_updated_ms = now_ms\<rparr>"

definition store_observe ::
  "string \<Rightarrow> signing_posture \<Rightarrow> u64 \<Rightarrow> signing_store \<Rightarrow> string option \<times> signing_store" where
  "store_observe img posture now_ms st =
     (case posture_signer posture of
        None \<Rightarrow> (None, st)
      | Some s \<Rightarrow>
          (let repo = repo_key img
           in case store_get st repo of
                Some existing \<Rightarrow>
                  (case refresh_baseline posture s now_ms existing of
                     (changed, b) \<Rightarrow> (if changed then Some repo else None, store_put repo b st))
              | None \<Rightarrow> (Some repo, store_put repo (first_baseline posture s now_ms) (evict_if_full st))))"

section \<open>Provenance\<close>

record build_provenance =
  bp_source_repo :: string
  bp_builder :: string

datatype provenance_posture =
  ProvVerified build_provenance | ProvUnverifiable | ProvAbsent | ProvChecking

fun posture_provenance :: "provenance_posture \<Rightarrow> build_provenance option" where
  "posture_provenance (ProvVerified p) = Some p"
| "posture_provenance _ = None"

definition observe_provenance ::
  "string \<Rightarrow> provenance_posture \<Rightarrow> u64 \<Rightarrow> signing_store \<Rightarrow> string option \<times> signing_store" where
  "observe_provenance img posture now_ms st =
     (case posture_provenance posture of
        None \<Rightarrow> (None, st)
      | Some p \<Rightarrow>
          (let repo = repo_key img
           in case store_get st repo of
                None \<Rightarrow> (None, st)
              | Some b \<Rightarrow>
                  (let (new_source, sources) =
                         (if bp_source_repo p \<noteq> [] then set_insert (bp_source_repo p) (provenance_sources b)
                          else (False, provenance_sources b));
                       (new_builder, builders) =
                         (if bp_builder p \<noteq> [] then set_insert (bp_builder p) (provenance_builders b)
                          else (False, provenance_builders b));
                       b1 = b\<lparr>provenance_sources := sources, provenance_builders := builders\<rparr>
                   in if new_source \<or> new_builder
                      then (Some repo, store_put repo (b1\<lparr>last_updated_ms := now_ms\<rparr>) st)
                      else (None, store_put repo b1 st))))"

definition mark_corroborated :: "string \<Rightarrow> signing_store \<Rightarrow> bool \<times> signing_store" where
  "mark_corroborated repo st =
     (case store_get st repo of
        Some b \<Rightarrow> if \<not> log_corroborated b then (True, store_put repo (b\<lparr>log_corroborated := True\<rparr>) st) else (False, st)
      | None \<Rightarrow> (False, st))"

section \<open>Journal lines and replay\<close>

definition store_compact :: "bool \<Rightarrow> signing_store \<Rightarrow> journal_decision list" where
  "store_compact journal_enabled st =
     (if baselines st = [] \<or> \<not> journal_enabled then [] else map (\<lambda>(repo, b). to_decision repo b) (baselines st))"

definition store_persist :: "string \<Rightarrow> signing_store \<Rightarrow> journal_decision list" where
  "store_persist repo st = (case store_get st repo of Some b \<Rightarrow> [to_decision repo b] | None \<Rightarrow> [])"

definition store_upsert :: "signing_baseline \<Rightarrow> string \<Rightarrow> signing_store \<Rightarrow> signing_store" where
  "store_upsert b repo st =
     store_put repo b (if store_get st repo = None then evict_if_full st else st)"

definition baseline_of_line :: "u64 \<Rightarrow> signing_baseline_line \<Rightarrow> signing_baseline" where
  "baseline_of_line at_ms l =
     \<lparr>bl_identities = bs_of_list (sb_identities l), bl_issuers = bs_of_list (sb_issuers l),
      bl_first_seen_ms = sb_first_seen_ms l,
      established = (sb_established l \<or> ESTABLISH_AGE_MS \<le> saturating_sub64 at_ms (sb_first_seen_ms l)),
      log_corroborated = sb_log_corroborated l, bl_rank = sb_rank l,
      provenance_sources = bs_of_list (sb_provenance_sources l),
      provenance_builders = bs_of_list (sb_provenance_builders l), last_updated_ms = at_ms\<rparr>"

definition restore_line :: "journal_entry \<Rightarrow> signing_store \<Rightarrow> signing_store" where
  "restore_line e st =
     (case je_decision e of
        SigningBaseline l \<Rightarrow>
          if sb_repo l = [] then st else store_upsert (baseline_of_line (je_at_ms e) l) (sb_repo l) st
      | _ \<Rightarrow> st)"

definition store_restore :: "journal_entry list \<Rightarrow> signing_store \<Rightarrow> nat \<times> signing_store" where
  "store_restore entries st =
     (let st' = fold restore_line entries st in (length (baselines st'), st'))"

section \<open>Drift\<close>

datatype regression_kind =
  RegUnsigned | RegInvalid | IdentityChange string "string option" | Downgrade signing_posture_rank

fun regression_word :: "regression_kind \<Rightarrow> string" where
  "regression_word RegUnsigned = ''unsigned''"
| "regression_word RegInvalid = ''invalid''"
| "regression_word (IdentityChange _ _) = ''identity''"
| "regression_word (Downgrade KeyBased) = ''downgrade-key-based''"
| "regression_word (Downgrade Unverifiable) = ''downgrade-unverifiable''"
| "regression_word (Downgrade _) = ''downgrade''"

fun drift_fingerprint :: "regression_kind \<Rightarrow> string" where
  "drift_fingerprint (IdentityChange new_identity _) = ''identity:'' @ new_identity"
| "drift_fingerprint k = regression_word k"

datatype signing_drift = SigningContinuous | NewRepo | Regression regression_kind bool

fun is_regression :: "signing_drift \<Rightarrow> bool" where
  "is_regression (Regression _ _) = True"
| "is_regression _ = False"

definition would_block :: "signing_drift \<Rightarrow> signing_posture \<Rightarrow> bool" where
  "would_block d posture \<longleftrightarrow>
     (if posture = InvalidSignature then True
      else (case d of Regression _ est \<Rightarrow> est | _ \<Rightarrow> False))"

definition classify_signing :: "signing_baseline option \<Rightarrow> signing_posture \<Rightarrow> signing_drift" where
  "classify_signing base posture =
     (case base of
        None \<Rightarrow> (case posture of Signed _ \<Rightarrow> NewRepo | _ \<Rightarrow> SigningContinuous)
      | Some b \<Rightarrow>
          (case posture of
             SigningChecking \<Rightarrow> SigningContinuous
           | SignedKeyBased \<Rightarrow>
               (case signing_rank posture of
                  Some current \<Rightarrow>
                    if current < bl_rank b then Regression (Downgrade current) (established b) else SigningContinuous
                | None \<Rightarrow> SigningContinuous)
           | UnverifiableHere \<Rightarrow>
               (case signing_rank posture of
                  Some current \<Rightarrow>
                    if current < bl_rank b then Regression (Downgrade current) (established b) else SigningContinuous
                | None \<Rightarrow> SigningContinuous)
           | Signed s \<Rightarrow>
               if list_ex (\<lambda>known. canonical_identity known = signer_identity s) (bl_identities b)
               then SigningContinuous
               else Regression (IdentityChange (si_identity s) (si_issuer s)) (established b)
           | NotSigned \<Rightarrow> Regression RegUnsigned (established b)
           | InvalidSignature \<Rightarrow> Regression RegInvalid (established b)))"

datatype provenance_drift = ProvContinuous | NewProvenance | ProvChange string string bool

definition classify_provenance :: "signing_baseline option \<Rightarrow> provenance_posture \<Rightarrow> provenance_drift" where
  "classify_provenance base posture =
     (case posture_provenance posture of
        None \<Rightarrow> ProvContinuous
      | Some p \<Rightarrow>
          (case base of
             None \<Rightarrow> ProvContinuous
           | Some b \<Rightarrow>
               if \<not> has_provenance b then NewProvenance
               else if bp_source_repo p \<in> set (provenance_sources b) \<and> bp_builder p \<in> set (provenance_builders b)
               then ProvContinuous
               else ProvChange (bp_source_repo p) (bp_builder p) (established b)))"

section \<open>Canonical identities\<close>

lemma starts_with_prefix: "starts_with s p \<longleftrightarrow> (\<exists>r. s = p @ r)"
  by (metis append_eq_conv_conj append_take_drop_id starts_with_def)

definition occurrences :: "string \<Rightarrow> string \<Rightarrow> nat list" where
  "occurrences p s = filter (\<lambda>i. starts_with (drop i s) p) [0..<Suc (length s)]"

lemma rfind_str_occurrences:
  "rfind_str p s = (if occurrences p s = [] then None else Some (last (occurrences p s)))"
  unfolding rfind_str_def occurrences_def [symmetric] by (simp split: list.split)

lemma occurrences_mem [simp]: "i \<in> set (occurrences p s) \<longleftrightarrow> i \<le> length s \<and> starts_with (drop i s) p"
  unfolding occurrences_def set_filter by (simp only: set_upt atLeastLessThan_iff mem_Collect_eq less_Suc_eq_le) simp

lemma sorted_le_last: "sorted xs \<Longrightarrow> x \<in> set xs \<Longrightarrow> x \<le> last xs"
  by (induction xs) auto

lemma rfind_str_Some:
  assumes "rfind_str p s = Some i"
  shows "\<exists>a b. s = a @ p @ b \<and> i = length a"
    and "\<And>j. i < j \<Longrightarrow> j \<le> length s \<Longrightarrow> \<not> starts_with (drop j s) p"
proof -
  have ne: "occurrences p s \<noteq> []" and i: "i = last (occurrences p s)"
    using assms by (simp_all add: rfind_str_occurrences split: if_splits)
  have mem: "i \<in> set (occurrences p s)" using last_in_set [OF ne] i by simp
  then obtain r where "drop i s = p @ r" by (auto simp: starts_with_prefix)
  then have "s = take i s @ p @ r" by (metis append_take_drop_id)
  moreover have "i = length (take i s)" using mem by auto
  ultimately show "\<exists>a b. s = a @ p @ b \<and> i = length a" by blast
  have "sorted (occurrences p s)" unfolding occurrences_def by (rule sorted_wrt_filter) (rule sorted_upt)
  then show "\<not> starts_with (drop j s) p" if "i < j" "j \<le> length s" for j
    using sorted_le_last [of "occurrences p s" j] that i by auto
qed

lemma rfind_str_None: "rfind_str p s = None \<longleftrightarrow> (\<forall>j \<le> length s. \<not> starts_with (drop j s) p)"
proof -
  have "rfind_str p s = None \<longleftrightarrow> set (occurrences p s) = {}" by (simp add: rfind_str_occurrences)
  then show ?thesis by (simp only: set_eq_iff occurrences_mem empty_iff) blast
qed

lemma rfind_strI:
  assumes "s = a @ p @ b" and "\<And>j. length a < j \<Longrightarrow> j \<le> length s \<Longrightarrow> \<not> starts_with (drop j s) p"
  shows "rfind_str p s = Some (length a)"
proof (cases "rfind_str p s")
  case None
  moreover have "starts_with (drop (length a) s) p" by (simp add: assms(1) starts_with_prefix)
  moreover have "length a \<le> length s" by (simp add: assms(1))
  ultimately show ?thesis unfolding rfind_str_None by blast
next
  case (Some i)
  obtain a' b' where s: "s = a' @ p @ b'" and i: "i = length a'" using rfind_str_Some(1) [OF Some] by blast
  have "starts_with (drop i s) p" by (simp add: s i starts_with_prefix)
  then have "\<not> length a < i" using assms(2) [of i] s i by auto
  moreover have "\<not> i < length a"
    using rfind_str_Some(2) [OF Some, of "length a"] assms(1) by (auto simp: starts_with_prefix)
  ultimately show ?thesis using Some by simp
qed

lemma starred_tag_rfind: "rfind_str TAG_REF_MARKER (a @ TAG_REF_MARKER @ ''*'') = Some (length a)"
proof (rule rfind_strI)
  fix j assume j: "length a < j" "j \<le> length (a @ TAG_REF_MARKER @ ''*'')"
  then obtain k where k: "j = length a + Suc k" "Suc k \<le> 12"
    by (auto simp: TAG_REF_MARKER_def less_iff_Suc_add)
  then have "k \<in> {0,1,2,3,4,5,6,7,8,9,10,11}" by simp arith
  then show "\<not> starts_with (drop j (a @ TAG_REF_MARKER @ ''*'')) TAG_REF_MARKER"
    by (auto simp: k(1) starts_with_def TAG_REF_MARKER_def numeral_eq_Suc)
qed simp

lemma canonical_identity_idem [simp]: "canonical_identity (canonical_identity x) = canonical_identity x"
proof (cases "rfind_str TAG_REF_MARKER x")
  case None
  then show ?thesis by (simp add: canonical_identity_def)
next
  case (Some i)
  obtain a b where x: "x = a @ TAG_REF_MARKER @ b" "i = length a" using rfind_str_Some(1) [OF Some] by blast
  have "canonical_identity x = a @ TAG_REF_MARKER @ ''*''" using Some by (simp add: canonical_identity_def x)
  then show ?thesis by (simp add: canonical_identity_def starred_tag_rfind)
qed

section \<open>The shape of the store\<close>

definition signing_store_ok :: "signing_store \<Rightarrow> bool" where
  "signing_store_ok st \<longleftrightarrow>
     distinct (map fst (baselines st)) \<and> length (baselines st) \<le> max_repos st \<and> 0 < max_repos st"

definition full_of_established :: "signing_store \<Rightarrow> bool" where
  "full_of_established st \<longleftrightarrow>
     max_repos st \<le> length (baselines st) \<and> list_all (\<lambda>(_, b). established b) (baselines st)"

lemma min_by_key_None [simp]: "min_by_key f xs = None \<longleftrightarrow> xs = []"
  by (cases xs) (simp_all split: option.split)

lemma min_by_key_Some: "min_by_key f xs = Some x \<Longrightarrow> x \<in> set xs \<and> (\<forall>y \<in> set xs. f x \<le> f y)"
  by (induction xs arbitrary: x) (fastforce split: option.splits if_splits)+

lemma set_insert_simps [simp]:
  "fst (set_insert x xs) = (x \<notin> set xs)" "set (snd (set_insert x xs)) = insert x (set xs)"
  by (auto simp: set_insert_def)

lemma store_get_put [simp]:
  "store_get (store_put r b st) r' = (if r' = r then Some b else store_get st r')"
  by (simp add: store_get_def store_put_def update_conv')

lemma store_put_max [simp]: "max_repos (store_put r b st) = max_repos st"
  by (simp add: store_put_def)

lemma store_get_mem: "signing_store_ok st \<Longrightarrow> store_get st r = Some b \<longleftrightarrow> (r, b) \<in> set (baselines st)"
  by (simp add: store_get_def signing_store_ok_def)

lemma store_get_None: "store_get st r = None \<longleftrightarrow> r \<notin> fst ` set (baselines st)"
  by (simp add: store_get_def map_of_eq_None_iff)

lemma length_update:
  "length (AList.update k v xs) = (if k \<in> fst ` set xs then length xs else Suc (length xs))"
  by (induction xs) auto

lemma length_delete_lt: "k \<in> fst ` set xs \<Longrightarrow> length (AList.delete k xs) < length xs"
proof (induction xs)
  case (Cons x xs)
  then show ?case using length_delete_le [of k xs] by (cases x) (auto simp del: image_iff)
qed simp

lemma store_put_ok:
  assumes "signing_store_ok st" and "store_get st r \<noteq> None \<or> length (baselines st) < max_repos st"
  shows "signing_store_ok (store_put r b st)"
  using assms by (auto simp: signing_store_ok_def store_put_def store_get_None distinct_update length_update)

lemma evict_max [simp]: "max_repos (evict_if_full st) = max_repos st"
  by (simp add: evict_if_full_def Let_def split: option.split)

text \<open>What eviction removes: nothing below the cap, otherwise one entry, an established one only when every
  entry is, and of the candidates one that was updated least recently.\<close>

lemma evict_cases:
  obtains (room) "length (baselines st) < max_repos st" "evict_if_full st = st"
  | (empty) "baselines st = []" "evict_if_full st = st"
  | (victim) v b where "max_repos st \<le> length (baselines st)" "(v, b) \<in> set (baselines st)"
      "evict_if_full st = st\<lparr>baselines := AList.delete v (baselines st)\<rparr>"
      "established b \<Longrightarrow> full_of_established st"
      "\<And>r' b'. (r', b') \<in> set (baselines st) \<Longrightarrow> established b' = established b \<Longrightarrow>
         last_updated_ms b \<le> last_updated_ms b'"
proof (cases "length (baselines st) < max_repos st")
  case True
  then show thesis by (intro room) (simp_all add: evict_if_full_def)
next
  case False
  let ?old = "min_by_key (\<lambda>(_, b). last_updated_ms b)"
  let ?cold = "filter (\<lambda>(_, b). \<not> established b) (baselines st)"
  show thesis
  proof (cases "?old ?cold")
    case (Some vb)
    obtain v b where vb: "vb = (v, b)" by (cases vb)
    note m = min_by_key_Some [OF Some [unfolded vb]]
    show thesis
      using m False Some vb by (intro victim [of v b]) (auto simp: evict_if_full_def Let_def)
  next
    case None
    then have est: "list_all (\<lambda>(_, b). established b) (baselines st)"
      by (auto simp: filter_empty_conv list_all_iff)
    show thesis
    proof (cases "?old (baselines st)")
      case (Some vb)
      obtain v b where vb: "vb = (v, b)" by (cases vb)
      note m = min_by_key_Some [OF Some [unfolded vb]]
      show thesis
        using m False Some vb None est
        by (intro victim [of v b]) (auto simp: evict_if_full_def Let_def full_of_established_def)
    next
      case None': None
      then show thesis using None False by (intro empty) (simp_all add: evict_if_full_def Let_def)
    qed
  qed
qed

lemma evict_room: "signing_store_ok st \<Longrightarrow> length (baselines (evict_if_full st)) < max_repos st"
proof (cases st rule: evict_cases)
  case (victim v b)
  assume "signing_store_ok st"
  moreover have "v \<in> fst ` set (baselines st)" using victim(2) by force
  ultimately show ?thesis using length_delete_lt [of v "baselines st"] by (simp add: victim(3) signing_store_ok_def)
qed (simp_all add: signing_store_ok_def)

lemma evict_ok: "signing_store_ok st \<Longrightarrow> signing_store_ok (evict_if_full st)"
  by (cases st rule: evict_cases)
    (auto simp: signing_store_ok_def distinct_delete intro: order_trans [OF length_delete_le])

lemma evict_get: "store_get (evict_if_full st) r = Some b \<Longrightarrow> store_get st r = Some b"
  by (cases st rule: evict_cases) (auto simp: store_get_def delete_conv' split: if_splits)

lemma evict_protects:
  assumes "signing_store_ok st" "store_get st r = Some b" "established b" "\<not> full_of_established st"
  shows "store_get (evict_if_full st) r = Some b"
proof (cases st rule: evict_cases)
  case (victim v b')
  have "v \<noteq> r" using victim(2,4) assms store_get_mem [OF assms(1)] by (metis option.inject)
  then show ?thesis using assms(2) by (simp add: victim(3) store_get_def delete_conv')
qed (use assms in simp_all)

section \<open>Learning\<close>

datatype store_event =
    Observed string signing_posture u64
  | ObservedProvenance string provenance_posture u64
  | Corroborated string

fun store_step :: "store_event \<Rightarrow> signing_store \<Rightarrow> signing_store" where
  "store_step (Observed img posture now_ms) st = snd (store_observe img posture now_ms st)"
| "store_step (ObservedProvenance img posture now_ms) st = snd (observe_provenance img posture now_ms st)"
| "store_step (Corroborated repo) st = snd (mark_corroborated repo st)"

text \<open>What learning gives a baseline: the top rank, at least one identity and only canonical ones.\<close>

definition learned :: "signing_baseline \<Rightarrow> bool" where
  "learned b \<longleftrightarrow>
     bl_rank b = Keyless \<and> bl_identities b \<noteq> [] \<and>
     (\<forall>i \<in> set (bl_identities b). canonical_identity i = i)"

definition all_learned :: "signing_store \<Rightarrow> bool" where
  "all_learned st \<longleftrightarrow> (\<forall>r b. store_get st r = Some b \<longrightarrow> learned b)"

lemma signer_of_posture: "posture_signer p = Some s \<longleftrightarrow> p = Signed s"
  by (cases p) auto

lemma refresh_fields:
  assumes "refresh_baseline (Signed s) s now_ms b = (changed, b')"
  shows "set (bl_identities b') = insert (signer_identity s) (set (bl_identities b))"
    and "bl_rank b' = Keyless" and "bl_first_seen_ms b' = bl_first_seen_ms b"
    and "established b' = (established b \<or> ESTABLISH_AGE_MS \<le> saturating_sub64 now_ms (bl_first_seen_ms b))"
    and "set (bl_issuers b') = set (bl_issuers b) \<union> set_option (si_issuer s)"
proof -
  have top: "bl_rank b < Keyless \<or> bl_rank b = Keyless"
    by (cases "bl_rank b") (simp_all add: less_signing_posture_rank_def)
  show "set (bl_identities b') = insert (signer_identity s) (set (bl_identities b))"
    "bl_rank b' = Keyless" "bl_first_seen_ms b' = bl_first_seen_ms b"
    "established b' = (established b \<or> ESTABLISH_AGE_MS \<le> saturating_sub64 now_ms (bl_first_seen_ms b))"
    "set (bl_issuers b') = set (bl_issuers b) \<union> set_option (si_issuer s)"
    using assms top
    by (auto simp: refresh_baseline_def set_insert_opt_def Let_def set_insert_def split: option.splits if_splits)
qed

lemma store_observe_cases:
  obtains (unsigned) "posture_signer p = None" "store_observe img p t st = (None, st)"
  | (refreshed) s b changed b' where "p = Signed s" "store_get st (repo_key img) = Some b"
      "refresh_baseline (Signed s) s t b = (changed, b')"
      "snd (store_observe img p t st) = store_put (repo_key img) b' st"
  | (first) s where "p = Signed s" "store_get st (repo_key img) = None"
      "snd (store_observe img p t st) = store_put (repo_key img) (first_baseline p s t) (evict_if_full st)"
proof (cases "posture_signer p")
  case None
  then show thesis by (intro unsigned) (simp_all add: store_observe_def)
next
  case (Some s)
  then have p: "p = Signed s" by (simp add: signer_of_posture)
  show thesis
  proof (cases "store_get st (repo_key img)")
    case None
    then show thesis using p by (intro first) (simp_all add: store_observe_def Let_def)
  next
    case (Some b)
    obtain changed b' where "refresh_baseline (Signed s) s t b = (changed, b')" by fastforce
    then show thesis using p Some by (intro refreshed) (simp_all add: store_observe_def Let_def)
  qed
qed

lemma evict_ok_room: "signing_store_ok st \<Longrightarrow> signing_store_ok (store_put r b (evict_if_full st))"
  by (intro store_put_ok evict_ok) (simp_all add: evict_room)

lemma observe_ok: "signing_store_ok st \<Longrightarrow> signing_store_ok (snd (store_observe img p t st))"
  by (cases rule: store_observe_cases [of p img t st]) (auto intro: store_put_ok evict_ok_room)

lemma observe_provenance_get:
  "store_get (snd (observe_provenance img p t st)) r =
     (case store_get st r of None \<Rightarrow> None
      | Some b \<Rightarrow> Some (if r = repo_key img \<and> posture_provenance p \<noteq> None
          then the (store_get (snd (observe_provenance img p t st)) r) else b))"
  by (simp add: observe_provenance_def Let_def split: option.split prod.split)

lemma observe_provenance_fields:
  assumes "store_get st r = Some b" "store_get (snd (observe_provenance img p t st)) r = Some b'"
  shows "bl_rank b' = bl_rank b \<and> bl_identities b' = bl_identities b \<and> established b' = established b
    \<and> bl_first_seen_ms b' = bl_first_seen_ms b"
  using assms by (auto simp: observe_provenance_def Let_def split: option.splits prod.splits if_splits)

lemma observe_provenance_ok: "signing_store_ok st \<Longrightarrow> signing_store_ok (snd (observe_provenance img p t st))"
  by (auto simp: observe_provenance_def Let_def intro: store_put_ok split: option.split prod.split)

lemma mark_corroborated_ok: "signing_store_ok st \<Longrightarrow> signing_store_ok (snd (mark_corroborated r st))"
  by (auto simp: mark_corroborated_def intro: store_put_ok split: option.split)

lemma store_step_ok: "signing_store_ok st \<Longrightarrow> signing_store_ok (store_step e st)"
  by (cases e) (simp_all add: observe_ok observe_provenance_ok mark_corroborated_ok)

lemma store_step_learned:
  assumes "all_learned st" shows "all_learned (store_step e st)"
proof (cases e)
  case (Observed img p t)
  show ?thesis unfolding Observed store_step.simps
  proof (cases rule: store_observe_cases [of p img t st])
    case (refreshed s b changed b')
    then show "all_learned (snd (store_observe img p t st))" using assms refresh_fields [OF refreshed(3)]
      by (auto simp: all_learned_def learned_def signer_identity_def)
  next
    case (first s)
    then show "all_learned (snd (store_observe img p t st))" using assms
      by (auto simp: all_learned_def learned_def first_baseline_def signer_identity_def dest: evict_get)
  qed (use assms in simp)
next
  case (ObservedProvenance img p t)
  show ?thesis unfolding all_learned_def
  proof (intro allI impI)
    fix r b' assume g: "store_get (store_step e st) r = Some b'"
    then obtain b where b: "store_get st r = Some b"
      using observe_provenance_get [of img p t st r] by (auto simp: ObservedProvenance split: option.splits)
    then show "learned b'" using assms observe_provenance_fields [of st r b img p t b'] g
      by (auto simp: ObservedProvenance all_learned_def learned_def)
  qed
next
  case (Corroborated r)
  then show ?thesis using assms
    by (auto simp: all_learned_def learned_def mark_corroborated_def split: option.splits if_splits)
qed

lemma with_capacity_ok: "signing_store_ok (store_with_capacity n)" "all_learned (store_with_capacity n)"
  by (simp_all add: signing_store_ok_def store_with_capacity_def all_learned_def store_get_def)

lemma reachable_store:
  "signing_store_ok (fold store_step es (store_with_capacity n)) \<and> all_learned (fold store_step es (store_with_capacity n))"
proof -
  have "signing_store_ok st \<Longrightarrow> all_learned st \<Longrightarrow> signing_store_ok (fold store_step es st) \<and> all_learned (fold store_step es st)" for st
    by (induction es arbitrary: st) (simp_all add: store_step_ok store_step_learned)
  then show ?thesis using with_capacity_ok by blast
qed

section \<open>Drift against a learned baseline\<close>

text \<open>
  C19. What the drift check catches and what it misses. Against a repository that the store tracks, after any history
  of observations, a fresh posture is a regression exactly unless it is the transient checking state or a signature of
  an identity already in the baseline: every weaker posture, calm or loud, counts. The issuer plays no part: a
  signature of a known identity by an issuer that the baseline has never seen is continuous, although the module's
  rules and the comment in \<open>classify\<close> count a different issuer as an identity change.
\<close>

theorem drift_check_is_blind_to_the_issuer:
  assumes "store_get (fold store_step evs (store_with_capacity n)) (repo_key img) = Some b"
  shows "(is_regression (classify_signing (Some b) posture) \<longleftrightarrow>
      posture \<noteq> SigningChecking \<and>
      (case posture_signer posture of Some s \<Rightarrow> signer_identity s \<notin> set (bl_identities b) | None \<Rightarrow> True)) \<and>
    (signer_identity s \<in> set (bl_identities b) \<and> issuer \<notin> set (bl_issuers b) \<longrightarrow>
      classify_signing (Some b) (Signed (s\<lparr>si_issuer := Some issuer\<rparr>)) = SigningContinuous)"
proof -
  have l: "learned b" using reachable_store [of evs n] assms by (auto simp: all_learned_def)
  then have "bl_rank b = Keyless" by (simp add: learned_def)
  moreover have "list_ex (\<lambda>k. canonical_identity k = i) (bl_identities b) \<longleftrightarrow> i \<in> set (bl_identities b)" for i
    using l by (auto simp: learned_def list_ex_iff)
  moreover have "signer_identity (s\<lparr>si_issuer := i\<rparr>) = signer_identity s" for i by (simp add: signer_identity_def)
  ultimately show ?thesis
    by (cases posture) (simp_all add: classify_signing_def less_signing_posture_rank_def)
qed

definition ci_signer :: "string \<Rightarrow> signer" where
  "ci_signer tag = \<lparr>si_identity = ''ci@refs/tags/'' @ tag, si_issuer = None\<rparr>"

theorem drift_check_is_blind_to_the_issuer_witness:
  "is_regression (classify_signing (Some (first_baseline (Signed (ci_signer ''1'')) (ci_signer ''1'') 5)) SignedKeyBased) \<and>
   classify_signing (Some (first_baseline (Signed (ci_signer ''1'')) (ci_signer ''1'') 5))
     (Signed ((ci_signer ''2'')\<lparr>si_issuer := Some ''https://other''\<rparr>)) = SigningContinuous"
proof -
  let ?b = "first_baseline (Signed (ci_signer ''1'')) (ci_signer ''1'') 5"
  have get: "store_get (fold store_step [Observed ''a:1'' (Signed (ci_signer ''1'')) 5] (store_with_capacity 2))
    (repo_key ''a:2'') = Some ?b"
    by code_simp
  have "list_ex ((=) (signer_identity (ci_signer ''2''))) (bl_identities ?b)"
      "\<not> list_ex ((=) ''https://other'') (bl_issuers ?b)" by code_simp+
  then have "signer_identity (ci_signer ''2'') \<in> set (bl_identities ?b)" "''https://other'' \<notin> set (bl_issuers ?b)"
    by (simp_all add: list_ex_iff)
  with drift_check_is_blind_to_the_issuer [OF get, of SignedKeyBased "ci_signer ''2''" "''https://other''"]
  show ?thesis by simp
qed

section \<open>Churn\<close>

lemma saturating_sub64_anti:
  assumes "t0 \<le> f" shows "saturating_sub64 t f \<le> saturating_sub64 t t0"
proof (cases "t < f")
  case False
  then have "t0 \<le> t" "f \<le> t" using assms by simp_all
  then show ?thesis using assms
    by (simp add: saturating_sub64_def word_le_nat_alt word_less_nat_alt unat_sub not_less)
qed (simp add: saturating_sub64_def)

definition established_rows :: "signing_store \<Rightarrow> (string \<times> signing_baseline) list" where
  "established_rows st = filter (\<lambda>(_, b). established b) (baselines st)"

definition churned :: "u64 \<Rightarrow> signing_store \<Rightarrow> signing_store \<Rightarrow> bool" where
  "churned t0 st cur \<longleftrightarrow>
     signing_store_ok cur \<and> max_repos cur = max_repos st \<and>
     (\<forall>r b. established b \<longrightarrow> (store_get cur r = Some b \<longleftrightarrow> store_get st r = Some b)) \<and>
     (\<forall>r b. store_get cur r = Some b \<and> store_get st r = None \<longrightarrow> t0 \<le> bl_first_seen_ms b)"

lemma churned_has_cold:
  assumes "churned t0 st cur" "signing_store_ok st" "length (established_rows st) < max_repos st"
  shows "\<not> full_of_established cur"
proof
  assume f: "full_of_established cur"
  have ok: "signing_store_ok cur" using assms(1) by (simp add: churned_def)
  have "set (baselines cur) \<subseteq> set (established_rows st)"
  proof
    fix x assume x: "x \<in> set (baselines cur)"
    obtain r b where rb: "x = (r, b)" by (cases x)
    have "established b" using f x rb by (auto simp: full_of_established_def list_all_iff)
    then show "x \<in> set (established_rows st)"
      using assms(1,2) x ok by (auto simp: churned_def established_rows_def rb store_get_mem)
  qed
  moreover have "distinct (baselines cur)" using ok by (simp add: signing_store_ok_def distinct_map)
  ultimately have "length (baselines cur) \<le> length (established_rows st)"
    by (metis card_mono distinct_card card_length finite_set order_trans)
  then show False using f assms by (simp add: full_of_established_def churned_def)
qed

lemma churned_put:
  assumes "churned t0 st cur" "signing_store_ok (store_put r b cur)" "\<not> established b" "t0 \<le> bl_first_seen_ms b"
    and "store_get st r = None"
  shows "churned t0 st (store_put r b cur)"
proof -
  have "established b' \<Longrightarrow> store_get (store_put r b cur) r' = Some b' \<longleftrightarrow> store_get st r' = Some b'" for r' b'
    using assms by (cases "r' = r") (auto simp: churned_def)
  moreover have "store_get (store_put r b cur) r' = Some b' \<Longrightarrow> store_get st r' = None \<Longrightarrow>
      t0 \<le> bl_first_seen_ms b'" for r' b'
    using assms by (cases "r' = r") (auto simp: churned_def)
  ultimately show ?thesis using assms(1,2) unfolding churned_def by (intro conjI) (simp_all only: store_put_max, blast+)
qed

lemma churned_step:
  assumes ch: "churned t0 st cur" and st: "signing_store_ok st" "length (established_rows st) < max_repos st"
    and new: "store_get st (repo_key img) = None" and t: "t0 \<le> t" "saturating_sub64 t t0 < ESTABLISH_AGE_MS"
  shows "churned t0 st (store_step (Observed img p t) cur)"
proof (cases rule: store_observe_cases [of p img t cur])
  case unsigned
  then show ?thesis using ch by simp
next
  case (refreshed s b changed b')
  have "t0 \<le> bl_first_seen_ms b" and c: "\<not> established b"
    using ch new refreshed(2) by (auto simp: churned_def)
  then have "\<not> established b'" "t0 \<le> bl_first_seen_ms b'"
    using refresh_fields(3,4) [OF refreshed(3)] saturating_sub64_anti [of t0 "bl_first_seen_ms b" t] t(2) by auto
  moreover have "signing_store_ok (store_put (repo_key img) b' cur)"
    using ch refreshed(2) by (intro store_put_ok) (simp_all add: churned_def)
  ultimately show ?thesis using ch by (simp add: refreshed(4) churned_put [OF ch _ _ _ new] c refreshed(2))
next
  case (first s)
  have ok: "signing_store_ok cur" using ch by (simp add: churned_def)
  have keep: "established b \<Longrightarrow> store_get (evict_if_full cur) r = Some b \<longleftrightarrow> store_get cur r = Some b" for r b
    using evict_protects [OF ok _ _ churned_has_cold [OF ch st]] evict_get by blast
  have new0: "store_get (evict_if_full cur) r = Some b \<Longrightarrow> store_get st r = None \<Longrightarrow> t0 \<le> bl_first_seen_ms b" for r b
    using ch evict_get [of cur r b] unfolding churned_def by blast
  have old: "established b \<Longrightarrow> store_get cur r = Some b \<longleftrightarrow> store_get st r = Some b" for r b
    using ch unfolding churned_def by blast
  have "max_repos (evict_if_full cur) = max_repos st" using ch by (simp add: churned_def)
  with evict_ok [OF ok] have "churned t0 st (evict_if_full cur)"
    unfolding churned_def by (simp add: keep old) (blast intro: new0)
  then show ?thesis unfolding store_step.simps first(3)
    by (rule churned_put) (simp_all add: first_baseline_def evict_ok_room [OF ok] t(1) new)
qed

text \<open>
  C20. A flood of images from repositories the store has never seen, however many and in whatever posture, cannot push
  out a matured baseline: while fewer baselines are established than the store can hold, a day of such observations
  leaves every established baseline exactly as it was.
\<close>

theorem established_baselines_survive_churn:
  assumes "signing_store_ok st" "length (established_rows st) < max_repos st"
    and "list_all (\<lambda>(img, p, t). store_get st (repo_key img) = None \<and> t0 \<le> t \<and>
           saturating_sub64 t t0 < ESTABLISH_AGE_MS) obs"
    and "store_get st r = Some b" "established b"
  shows "store_get (fold (\<lambda>(img, p, t) cur. snd (store_observe img p t cur)) obs st) r = Some b"
proof -
  have "churned t0 st cur \<Longrightarrow> churned t0 st (fold (\<lambda>(img, p, t) cur. snd (store_observe img p t cur)) obs cur)" for cur
    using assms(3)
  proof (induction obs arbitrary: cur)
    case (Cons o1 obs)
    obtain img p t where o1: "o1 = (img, p, t)" by (cases o1)
    have "churned t0 st (snd (store_observe img p t cur))"
      using churned_step [OF Cons.prems(1) assms(1,2), of img t p] Cons.prems(2) by (simp add: o1)
    then show ?case using Cons.IH Cons.prems(2) by (simp add: o1)
  qed simp
  moreover have "churned t0 st st" using assms(1) by (auto simp: churned_def)
  ultimately show ?thesis using assms(4,5) by (simp add: churned_def)
qed

definition mature_baseline :: signing_baseline where
  "mature_baseline = (first_baseline (Signed (ci_signer ''1'')) (ci_signer ''1'') 0)\<lparr>established := True\<rparr>"

definition mature_store :: signing_store where
  "mature_store = \<lparr>baselines = [(''a'', mature_baseline)], max_repos = 2\<rparr>"

theorem established_baselines_survive_churn_witness:
  "store_get (fold (\<lambda>(img, p, t) cur. snd (store_observe img p t cur))
     [(''x:1'', Signed (ci_signer ''2''), 5), (''y:1'', Signed (ci_signer ''3''), 6)] mature_store) ''a'' =
   Some mature_baseline"
proof (rule established_baselines_survive_churn [of _ 5])
  show "signing_store_ok mature_store" by (simp add: signing_store_ok_def mature_store_def)
  show "length (established_rows mature_store) < max_repos mature_store"
    by (simp add: established_rows_def mature_store_def)
  show "list_all (\<lambda>(img, p, t). store_get mature_store (repo_key img) = None \<and> 5 \<le> t \<and>
          saturating_sub64 t 5 < ESTABLISH_AGE_MS)
        [(''x:1'', Signed (ci_signer ''2''), 5), (''y:1'', Signed (ci_signer ''3''), 6)]"
    by code_simp
  show "store_get mature_store ''a'' = Some mature_baseline" by (simp add: store_get_def mature_store_def)
  show "established mature_baseline" by (simp add: mature_baseline_def)
qed

section \<open>Restart\<close>

lemma bs_of_list_id: "sorted_wrt (<) xs \<Longrightarrow> bs_of_list xs = (xs :: string list)"
  by (simp add: bs_of_list_def strict_sorted_iff sorted_sort_id remdups_adj_distinct)

definition sets_sorted :: "signing_baseline \<Rightarrow> bool" where
  "sets_sorted b \<longleftrightarrow>
     sorted_wrt (<) (bl_identities b) \<and> sorted_wrt (<) (bl_issuers b) \<and>
     sorted_wrt (<) (provenance_sources b) \<and> sorted_wrt (<) (provenance_builders b)"

lemma set_insert_sorted: "sorted_wrt (<) xs \<Longrightarrow> sorted_wrt (<) (snd (set_insert x xs))"
  by (simp add: set_insert_def)

lemma refresh_sorted:
  assumes "sets_sorted b" "refresh_baseline p s t b = (changed, b')" shows "sets_sorted b'"
proof -
  have "b' = snd (refresh_baseline p s t b)" by (simp add: assms(2))
  then have "bl_identities b' = snd (set_insert (signer_identity s) (bl_identities b))"
    "bl_issuers b' = snd (set_insert_opt (si_issuer s) (bl_issuers b))"
    "provenance_sources b' = provenance_sources b" "provenance_builders b' = provenance_builders b"
    by (simp_all add: refresh_baseline_def Let_def case_prod_beta)
  then show ?thesis using assms(1)
    by (simp add: sets_sorted_def set_insert_sorted set_insert_opt_def split: option.split)
qed

lemma observe_provenance_sorted:
  assumes "store_get st r = Some b" "sets_sorted b" "store_get (snd (observe_provenance img p t st)) r = Some b'"
  shows "sets_sorted b'"
proof (cases "posture_provenance p = None \<or> r \<noteq> repo_key img")
  case True
  then show ?thesis using assms observe_provenance_get [of img p t st r] by auto
next
  case False
  then obtain q where "posture_provenance p = Some q" "r = repo_key img" by auto
  then have "bl_identities b' = bl_identities b" "bl_issuers b' = bl_issuers b"
    "provenance_sources b' = (if bp_source_repo q \<noteq> [] then snd (set_insert (bp_source_repo q) (provenance_sources b))
       else provenance_sources b)"
    "provenance_builders b' = (if bp_builder q \<noteq> [] then snd (set_insert (bp_builder q) (provenance_builders b))
       else provenance_builders b)"
    using assms(1,3) by (auto simp: observe_provenance_def Let_def case_prod_beta split: if_splits)
  then show ?thesis using assms(2) by (simp add: sets_sorted_def set_insert_sorted)
qed

lemma store_step_sorted:
  assumes "\<And>r b. store_get st r = Some b \<Longrightarrow> sets_sorted b"
  shows "store_get (store_step e st) r = Some b' \<Longrightarrow> sets_sorted b'"
proof (cases e)
  case (Observed img p t)
  assume g: "store_get (store_step e st) r = Some b'"
  then show ?thesis unfolding Observed store_step.simps
  proof (cases rule: store_observe_cases [of p img t st])
    case (refreshed s b changed b1)
    show ?thesis
      using g refresh_sorted [OF assms refreshed(3)] refreshed(2) assms
      by (cases "r = repo_key img") (simp_all add: Observed refreshed(4))
  next
    case (first s)
    have "sets_sorted (first_baseline p s t)" by (simp add: sets_sorted_def first_baseline_def split: option.split)
    then show ?thesis using g assms [OF evict_get, of r b']
      by (cases "r = repo_key img") (simp_all add: Observed first(3))
  qed (use g assms in \<open>simp add: Observed\<close>)
next
  case (ObservedProvenance img p t)
  assume g: "store_get (store_step e st) r = Some b'"
  then obtain b where b: "store_get st r = Some b"
    using observe_provenance_get [of img p t st r] by (auto simp: ObservedProvenance split: option.splits)
  show ?thesis using observe_provenance_sorted [OF b assms [OF b]] g by (simp add: ObservedProvenance)
next
  case (Corroborated r0)
  assume "store_get (store_step e st) r = Some b'"
  then show ?thesis using assms
    by (auto simp: Corroborated mark_corroborated_def sets_sorted_def split: option.splits if_splits)
qed

lemma reachable_sorted:
  "store_get (fold store_step es (store_with_capacity n)) r = Some b \<Longrightarrow> sets_sorted b"
proof -
  have "(\<And>r b. store_get st r = Some b \<Longrightarrow> sets_sorted b) \<Longrightarrow>
      store_get (fold store_step es st) r = Some b \<Longrightarrow> sets_sorted b" for st
  proof (induction es arbitrary: st)
    case (Cons e es)
    show ?case using Cons.IH [OF store_step_sorted [OF Cons.prems(1)]] Cons.prems(2) by simp
  qed simp
  moreover have "store_get (store_with_capacity n) r = None" for r
    by (simp add: store_get_def store_with_capacity_def)
  moreover assume "store_get (fold store_step es (store_with_capacity n)) r = Some b"
  ultimately show "sets_sorted b" by (metis option.distinct(1))
qed

text \<open>What a line restores: the baseline as it stood when the line was written, matured by the age it had then.\<close>

definition restored_at :: "u64 \<Rightarrow> signing_baseline \<Rightarrow> signing_baseline" where
  "restored_at at_ms b =
     b\<lparr>established := established b \<or> ESTABLISH_AGE_MS \<le> saturating_sub64 at_ms (bl_first_seen_ms b),
       last_updated_ms := at_ms\<rparr>"

lemma restore_line_fresh:
  assumes "je_decision e = to_decision repo b" "sets_sorted b" "repo \<noteq> []" "store_get st repo = None"
    and "length (baselines st) < max_repos st"
  shows "restore_line e st = st\<lparr>baselines := baselines st @ [(repo, restored_at (je_at_ms e) b)]\<rparr>"
proof -
  have new: "AList.update repo x (baselines st) = baselines st @ [(repo, x)]" for x
  proof -
    have "k \<notin> fst ` set xs \<Longrightarrow> AList.update k x xs = xs @ [(k, x)]" for k :: string and xs
      by (induction xs) auto
    then show ?thesis using assms(4) by (simp add: store_get_None)
  qed
  have "evict_if_full st = st" using assms(5) by (simp add: evict_if_full_def)
  moreover have "baseline_of_line (je_at_ms e)
      \<lparr>sb_repo = repo, sb_identities = bl_identities b, sb_issuers = bl_issuers b,
       sb_first_seen_ms = bl_first_seen_ms b, sb_established = established b,
       sb_log_corroborated = log_corroborated b, sb_rank = bl_rank b,
       sb_provenance_sources = provenance_sources b, sb_provenance_builders = provenance_builders b\<rparr> =
      restored_at (je_at_ms e) b"
    using assms(2) by (simp add: baseline_of_line_def restored_at_def sets_sorted_def bs_of_list_id)
  ultimately show ?thesis
    using assms by (simp add: restore_line_def to_decision_def store_upsert_def store_put_def new)
qed

text \<open>Replay passes over a line without a repository.\<close>

definition named_rows :: "(string \<times> signing_baseline) list \<Rightarrow> (string \<times> signing_baseline) list" where
  "named_rows rows = filter (\<lambda>(r, b). r \<noteq> []) rows"

lemma restore_lines:
  assumes "map je_decision es = map (\<lambda>(repo, b). to_decision repo b) rows"
    and "distinct (map fst (acc @ rows))" "length (acc @ rows) \<le> n"
    and "\<forall>(r, b) \<in> set rows. sets_sorted b"
  shows "\<exists>restored. baselines (fold restore_line es \<lparr>baselines = acc, max_repos = n\<rparr>) = acc @ restored \<and>
    list_all2 (\<lambda>(r', b') (r, b). r' = r \<and> (\<exists>at_ms. b' = restored_at at_ms b)) restored (named_rows rows)"
  using assms
proof (induction rows arbitrary: es acc)
  case (Cons row rows)
  obtain r b where row: "row = (r, b)" by (cases row)
  obtain e es' where es: "es = e # es'" "je_decision e = to_decision r b"
      "map je_decision es' = map (\<lambda>(repo, b). to_decision repo b) rows"
    using Cons.prems(1) by (auto simp: row)
  show ?case
  proof (cases "r = []")
    case True
    then have "restore_line e \<lparr>baselines = acc, max_repos = n\<rparr> = \<lparr>baselines = acc, max_repos = n\<rparr>"
      using es(2) by (simp add: restore_line_def to_decision_def)
    then show ?thesis using Cons.IH [OF es(3), of acc] Cons.prems by (simp add: es(1) row True named_rows_def)
  next
    case False
    let ?row = "(r, restored_at (je_at_ms e) b)"
    have step: "restore_line e \<lparr>baselines = acc, max_repos = n\<rparr> = \<lparr>baselines = acc @ [?row], max_repos = n\<rparr>"
      using Cons.prems es(2) False
      by (subst restore_line_fresh [where repo = r and b = b]) (auto simp: row store_get_None)
    obtain restored where "baselines (fold restore_line es' \<lparr>baselines = acc @ [?row], max_repos = n\<rparr>) =
        (acc @ [?row]) @ restored"
      and "list_all2 (\<lambda>(r', b') (r, b). r' = r \<and> (\<exists>at_ms. b' = restored_at at_ms b)) restored (named_rows rows)"
      using Cons.IH [OF es(3), of "acc @ [?row]"] Cons.prems by (auto simp: row)
    then show ?thesis by (intro exI [of _ "?row # restored"]) (auto simp: es(1) row False step named_rows_def)
  qed
qed (simp add: named_rows_def)

text \<open>
  C21. A restart keeps what was learned, for every repository that has a name. The lines that compaction writes for a
  store, whatever it has observed, rebuild it in an empty store of the same size: the same named repositories in the
  same number, each with its identities, issuers, age, rank, corroboration and provenance, and never less established
  than before. A baseline under the empty key, which an image reference such as \<open>:1\<close> gets, is written but not restored.
\<close>

theorem baselines_survive_restart:
  assumes "st = fold store_step evs (store_with_capacity n)"
    and "map je_decision es = store_compact True st"
  shows "fst (store_restore es (store_with_capacity n)) = length (named_rows (baselines st)) \<and>
    list_all2 (\<lambda>(r', b') (r, b). r' = r \<and> (\<exists>at_ms. b' = restored_at at_ms b))
      (baselines (snd (store_restore es (store_with_capacity n)))) (named_rows (baselines st)) \<and>
    store_get (snd (store_restore es (store_with_capacity n))) [] = None"
proof -
  have ok: "signing_store_ok st" using reachable_store [of evs n] assms(1) by blast
  have "max_repos (store_step e cur) = max_repos cur" for e cur
    by (cases e) (auto simp: observe_provenance_def mark_corroborated_def store_observe_def Let_def
        split: option.splits prod.splits)
  then have "max_repos (fold store_step evs cur) = max_repos cur" for cur
    by (induction evs arbitrary: cur) simp_all
  then have mx: "max_repos st = max n 1" by (simp add: assms(1) store_with_capacity_def)
  have srt: "\<forall>(r, b) \<in> set (baselines st). sets_sorted b"
    using reachable_sorted [of evs n] store_get_mem [OF ok] by (auto simp: assms(1))
  have eqs: "map je_decision es = map (\<lambda>(repo, b). to_decision repo b) (baselines st)"
    using assms(2) by (simp add: store_compact_def split: if_splits)
  have "distinct (map fst ([] @ baselines st))" "length ([] @ baselines st) \<le> max n 1"
    using ok mx by (simp_all add: signing_store_ok_def)
  from restore_lines [OF eqs this srt]
  have l: "list_all2 (\<lambda>(r', b') (r, b). r' = r \<and> (\<exists>at_ms. b' = restored_at at_ms b))
      (baselines (snd (store_restore es (store_with_capacity n)))) (named_rows (baselines st))"
    by (simp add: store_restore_def store_with_capacity_def Let_def)
  have "fst (store_restore es (store_with_capacity n)) = length (baselines (snd (store_restore es (store_with_capacity n))))"
    by (simp add: store_restore_def Let_def)
  moreover have "map fst (baselines (snd (store_restore es (store_with_capacity n)))) = map fst (named_rows (baselines st))"
    using l by (induction rule: list_all2_induct) auto
  then have "fst ` set (baselines (snd (store_restore es (store_with_capacity n)))) = fst ` set (named_rows (baselines st))"
    by (metis set_map)
  then have "store_get (snd (store_restore es (store_with_capacity n))) [] = None"
    by (auto simp: store_get_None named_rows_def)
  ultimately show ?thesis using l list_all2_lengthD [OF l] by simp
qed

text \<open>A store with one named repository and one under the empty key.\<close>

definition sample_store :: signing_store where
  "sample_store = fold store_step [Observed ''a:1'' (Signed (ci_signer ''1'')) 5, Observed '':1'' (Signed (ci_signer ''1'')) 6]
     (store_with_capacity 2)"

theorem baselines_survive_restart_witness:
  "length (baselines sample_store) = 2 \<and>
   fst (store_restore (map (\<lambda>d. \<lparr>je_at_ms = 7, je_decision = d\<rparr>) (store_compact True sample_store))
     (store_with_capacity 2)) = 1"
proof -
  have "length (baselines sample_store) = 2" "length (named_rows (baselines sample_store)) = 1" by code_simp+
  then show ?thesis
    using baselines_survive_restart [OF sample_store_def, of "map (\<lambda>d. \<lparr>je_at_ms = 7, je_decision = d\<rparr>)
        (store_compact True sample_store)"]
    by (simp add: comp_def)
qed

end
