(* ===== verification/Admission_Policy.thy ===== *)
theory Admission_Policy
  imports Signing
begin

text \<open>
  Admission (\<open>src/engine/src/policy.rs\<close>, \<open>policies/mesh.rs\<close>, \<open>policies/signature/mod.rs\<close>,
  \<open>policies/signature/continuity.rs\<close> and the cached observer of \<open>policies/signature/posture.rs\<close>): the enforce scope,
  the signature policy with its continuity gate, the mesh policy and the ordered engine that runs them. The registry
  and the transparency log are reached through sigstore, so what they answer in the course of one loop over images is
  a parameter (\<open>'v registry_walk\<close>) together with the clock at the reads and writes of the cache. The regular expression of
  a pin is the predicate it denotes.
\<close>

section \<open>Requests and the enforce scope\<close>

record admission_object =
  ob_labels :: "(string, string) btree option"
  ob_annotations :: "(string, string) btree option"
  ob_data :: json

record admission_request =
  rq_kind :: string
  rq_name :: string
  rq_namespace :: "string option"
  rq_object :: "admission_object option"

datatype admission_decision = Admit | DenyRequest string | AuditRequest string

datatype shadow_verdict = ShadowNotApplicable | ShadowEvaluated bool bool string

fun shadow_status :: "shadow_verdict \<Rightarrow> string" where
  "shadow_status ShadowNotApplicable = []"
| "shadow_status (ShadowEvaluated passed enforced _) =
     (if \<not> passed then ''would-fail'' else if enforced then ''verified'' else ''would-pass'')"

fun shadow_admits :: "shadow_verdict \<Rightarrow> bool" where
  "shadow_admits (ShadowEvaluated passed _ _) = passed"
| "shadow_admits ShadowNotApplicable = True"

record enforce_scope =
  es_namespaces :: "string set"
  es_labels :: "(string \<times> string) list"

definition enforces :: "enforce_scope \<Rightarrow> admission_request \<Rightarrow> bool" where
  "enforces sc req \<longleftrightarrow>
     (case rq_namespace req of Some ns \<Rightarrow> ns \<in> es_namespaces sc | None \<Rightarrow> False) \<or>
     (if es_labels sc = [] then False
      else (case Option.bind (rq_object req) ob_labels of
              Some labels \<Rightarrow> list_ex (\<lambda>(k, v). bt_get labels k = Some v) (es_labels sc)
            | None \<Rightarrow> False))"

definition scope_decide :: "enforce_scope \<Rightarrow> admission_request \<Rightarrow> string \<Rightarrow> admission_decision" where
  "scope_decide sc req reason = (if enforces sc req then DenyRequest reason else AuditRequest reason)"

fun decision_rank :: "admission_decision \<Rightarrow> nat" where
  "decision_rank (DenyRequest _) = 2"
| "decision_rank (AuditRequest _) = 1"
| "decision_rank Admit = 0"

definition more_severe :: "admission_decision \<Rightarrow> admission_decision \<Rightarrow> admission_decision" where
  "more_severe a b = (if decision_rank a < decision_rank b then b else a)"

section \<open>The images of a Pod\<close>

text \<open>\<open>obj.data["spec"]\<close> is null where the field is absent.\<close>

definition pod_spec :: "admission_object \<Rightarrow> json" where
  "pod_spec obj = (case jget (ob_data obj) ''spec'' of Some j \<Rightarrow> j | None \<Rightarrow> JNull)"

definition pod_containers :: "admission_object \<Rightarrow> string \<Rightarrow> json list option" where
  "pod_containers obj f = (case jget (pod_spec obj) f of Some (JArr xs) \<Rightarrow> Some xs | _ \<Rightarrow> None)"

definition pod_images :: "admission_object \<Rightarrow> string list" where
  "pod_images obj =
     concat (map (\<lambda>f. case pod_containers obj f of
                        Some cs \<Rightarrow> List.map_filter (\<lambda>c. jstr (jget c ''image'')) cs
                      | None \<Rightarrow> [])
       [''containers'', ''initContainers'', ''ephemeralContainers''])"

fun distinct_images :: "string list \<Rightarrow> string list \<Rightarrow> string list" where
  "distinct_images acc [] = acc"
| "distinct_images acc (img # imgs) = distinct_images (if img \<in> set acc then acc else acc @ [img]) imgs"

section \<open>Cached answers\<close>

type_synonym 'v ttl_cache = "(string \<times> 'v \<times> time) list"

record 'v registry_walk =
  wk_answer :: "string \<Rightarrow> 'v"
  wk_read_at :: "string \<Rightarrow> time"
  wk_write_at :: "string \<Rightarrow> time"

definition cache_hit :: "time \<Rightarrow> 'a registry_walk \<Rightarrow> string \<Rightarrow> 'v ttl_cache \<Rightarrow> 'v option" where
  "cache_hit ttl w img cache =
     (case map_of cache img of
        Some (v, cached_at) \<Rightarrow> if max 0 (wk_read_at w img - cached_at) < ttl then Some v else None
      | None \<Rightarrow> None)"

definition is_signed_cached ::
  "time \<Rightarrow> (string + bool) registry_walk \<Rightarrow> string \<Rightarrow> bool ttl_cache \<Rightarrow> (string + bool) \<times> bool ttl_cache" where
  "is_signed_cached ttl w img cache =
     (case cache_hit ttl w img cache of
        Some verified \<Rightarrow> (Inr verified, cache)
      | None \<Rightarrow>
          (case wk_answer w img of
             Inl err \<Rightarrow> (Inl err, cache)
           | Inr verified \<Rightarrow> (Inr verified, AList.update img (verified, wk_write_at w img) cache)))"

definition observe_cached ::
  "time \<Rightarrow> signing_posture registry_walk \<Rightarrow> string \<Rightarrow> signing_posture ttl_cache \<Rightarrow>
     signing_posture \<times> signing_posture ttl_cache" where
  "observe_cached ttl w img cache =
     (case cache_hit ttl w img cache of
        Some posture \<Rightarrow> (posture, cache)
      | None \<Rightarrow>
          (let posture = wk_answer w img
           in (posture, if posture \<noteq> SigningChecking then AList.update img (posture, wk_write_at w img) cache
                        else cache)))"

text \<open>A loop that calls a cached lookup for each image.\<close>

fun lookup_all :: "(string \<Rightarrow> 'c \<Rightarrow> 'v \<times> 'c) \<Rightarrow> string list \<Rightarrow> 'c \<Rightarrow> (string \<times> 'v) list \<times> 'c" where
  "lookup_all f [] c = ([], c)"
| "lookup_all f (img # imgs) c =
     (case f img c of (v, c1) \<Rightarrow> (case lookup_all f imgs c1 of (vs, c2) \<Rightarrow> ((img, v) # vs, c2)))"

section \<open>The continuity gate\<close>

datatype exception_scope = ScopeRepo string | ScopeImage string

record signing_exception =
  se_scope :: exception_scope
  se_fingerprint :: string

text \<open>\<open>split_once(char::is_whitespace)\<close>.\<close>

definition split_ws :: "string \<Rightarrow> (string \<times> string) option" where
  "split_ws s =
     (let w = take_word s; r = drop (length w) s
      in if r = [] then None else Some (w, drop (ws_len r) r))"

definition parse_exception :: "string \<Rightarrow> signing_exception option" where
  "parse_exception raw =
     (let line = trim raw
      in if line = [] \<or> starts_with line ''#'' then None
         else (case split_ws line of
                 None \<Rightarrow> None
               | Some (scope_tok, rest) \<Rightarrow>
                   (let fingerprint = trim rest
                    in if fingerprint = [] then None
                       else (case strip_prefix scope_tok ''repo:'' of
                               Some repo \<Rightarrow> Some \<lparr>se_scope = ScopeRepo (trim repo), se_fingerprint = fingerprint\<rparr>
                             | None \<Rightarrow>
                                 (case strip_prefix scope_tok ''image:'' of
                                    Some img \<Rightarrow> Some \<lparr>se_scope = ScopeImage (trim img), se_fingerprint = fingerprint\<rparr>
                                  | None \<Rightarrow> None)))))"

definition parse_exceptions :: "string \<Rightarrow> signing_exception list" where
  "parse_exceptions spec = List.map_filter parse_exception (concat (map (split_on (CHR '';'')) (split_on (CHR 0x0A) spec)))"

definition exceptions_from_sources :: "string option \<Rightarrow> string \<Rightarrow> signing_exception list" where
  "exceptions_from_sources file_contents env_spec =
     parse_exceptions env_spec @ (case file_contents of Some c \<Rightarrow> parse_exceptions c | None \<Rightarrow> [])"

definition exception_accepts :: "signing_exception list \<Rightarrow> string \<Rightarrow> regression_kind \<Rightarrow> bool" where
  "exception_accepts es img k \<longleftrightarrow>
     list_ex (\<lambda>e. se_fingerprint e = drift_fingerprint k \<and>
                  (case se_scope e of ScopeImage i \<Rightarrow> i = img | ScopeRepo r \<Rightarrow> r = repo_key img)) es"

record signing_pin =
  pin_prefix :: string
  pin_identity :: "string \<Rightarrow> bool"

definition pin_applies :: "signing_pin \<Rightarrow> string \<Rightarrow> bool" where
  "pin_applies pin img \<longleftrightarrow> starts_with (normalize_registry_host img) (pin_prefix pin)"

fun pin_satisfied :: "signing_pin \<Rightarrow> signing_posture \<Rightarrow> bool" where
  "pin_satisfied pin (Signed s) = pin_identity pin (si_identity s)"
| "pin_satisfied pin _ = False"

fun pin_violation_kind :: "signing_posture \<Rightarrow> regression_kind" where
  "pin_violation_kind (Signed s) = IdentityChange (si_identity s) (si_issuer s)"
| "pin_violation_kind InvalidSignature = RegInvalid"
| "pin_violation_kind SignedKeyBased = Downgrade KeyBased"
| "pin_violation_kind UnverifiableHere = Downgrade Unverifiable"
| "pin_violation_kind _ = RegUnsigned"

record continuity_gate =
  cg_cache_ttl :: time
  cg_cache :: "signing_posture ttl_cache"
  cg_baseline :: signing_store
  cg_exceptions :: "signing_exception list"
  cg_pins :: "signing_pin list"
  cg_max_images :: nat

text \<open>The first pin in the list that governs the image and is violated decides; the loop returns there.\<close>

definition block_reason :: "continuity_gate \<Rightarrow> string \<Rightarrow> signing_posture \<Rightarrow> string option" where
  "block_reason g img posture =
     (case find (\<lambda>pin. pin_applies pin img \<and> \<not> pin_satisfied pin posture) (cg_pins g) of
        Some _ \<Rightarrow>
          if exception_accepts (cg_exceptions g) img (pin_violation_kind posture) then None
          else Some (''pinned repo requires a trusted signer but '' @ img @ '' is '' @ posture_status posture)
      | None \<Rightarrow>
          (let repo = repo_key img;
               drift = classify_signing (store_get (cg_baseline g) repo) posture
           in if \<not> would_block drift posture then None
              else
                (let k = (case drift of Regression k _ \<Rightarrow> k | _ \<Rightarrow> RegInvalid)
                 in if exception_accepts (cg_exceptions g) img k then None
                    else Some (''signing regression on '' @ repo @ '': '' @ posture_status posture @
                               '' ('' @ regression_word k @ '')''))))"

definition gate_evaluate ::
  "signing_posture registry_walk \<Rightarrow> string list \<Rightarrow> continuity_gate \<Rightarrow> string option \<times> continuity_gate" where
  "gate_evaluate w imgs g =
     (case lookup_all (observe_cached (cg_cache_ttl g) w) (take (cg_max_images g) (distinct_images [] imgs)) (cg_cache g) of
        (postures, cache) \<Rightarrow>
          (let reasons = List.map_filter (\<lambda>(img, posture). block_reason g img posture) postures
           in (if reasons = [] then None else Some (join ''; '' reasons), g\<lparr>cg_cache := cache\<rparr>)))"

section \<open>The signature policy\<close>

record signature_policy =
  gated_prefixes :: "string list"
  sp_enforce :: enforce_scope
  sp_max_images :: nat
  sp_cache_ttl :: time
  sp_cache :: "bool ttl_cache"
  sp_continuity :: "continuity_gate option"

definition gated :: "signature_policy \<Rightarrow> string \<Rightarrow> bool" where
  "gated p img \<longleftrightarrow> list_ex (\<lambda>prefix. starts_with (normalize_registry_host img) prefix) (gated_prefixes p)"

definition gated_images :: "signature_policy \<Rightarrow> admission_object \<Rightarrow> string list" where
  "gated_images p obj = distinct_images [] (filter (gated p) (pod_images obj))"

definition too_many_reason :: "signature_policy \<Rightarrow> string list \<Rightarrow> string" where
  "too_many_reason p imgs =
     ''Pod references '' @ show_nat (length imgs) @ '' gated images (max '' @ show_nat (sp_max_images p) @ '')''"

text \<open>The loop over the gated images: an error ends it at once where the request is enforced.\<close>

fun gated_loop ::
  "signature_policy \<Rightarrow> bool \<Rightarrow> (string + bool) registry_walk \<Rightarrow> string list \<Rightarrow> string list \<Rightarrow> bool ttl_cache \<Rightarrow>
     (string + string list) \<times> bool ttl_cache" where
  "gated_loop p enforced w [] refused cache = (Inr refused, cache)"
| "gated_loop p enforced w (img # imgs) refused cache =
     (case is_signed_cached (sp_cache_ttl p) w img cache of
        (Inr True, c) \<Rightarrow> gated_loop p enforced w imgs refused c
      | (Inr False, c) \<Rightarrow> gated_loop p enforced w imgs (refused @ [img]) c
      | (Inl err, c) \<Rightarrow>
          if enforced then (Inl (''could not verify signature for '' @ img @ '': '' @ err), c)
          else gated_loop p enforced w imgs refused c)"

definition gated_decision ::
  "(string + bool) registry_walk \<Rightarrow> admission_request \<Rightarrow> admission_object \<Rightarrow> signature_policy \<Rightarrow>
     admission_decision \<times> signature_policy" where
  "gated_decision w req obj p =
     (let imgs = gated_images p obj
      in if sp_max_images p < length imgs then (scope_decide (sp_enforce p) req (too_many_reason p imgs), p)
         else
           (case gated_loop p (enforces (sp_enforce p) req) w imgs [] (sp_cache p) of
              (Inl reason, c) \<Rightarrow> (DenyRequest reason, p\<lparr>sp_cache := c\<rparr>)
            | (Inr refused, c) \<Rightarrow>
                (if refused = [] then Admit
                 else scope_decide (sp_enforce p) req (''unsigned or untrusted image(s): '' @ join '', '' refused),
                 p\<lparr>sp_cache := c\<rparr>)))"

definition continuity_block ::
  "signing_posture registry_walk \<Rightarrow> admission_object \<Rightarrow> signature_policy \<Rightarrow> string option \<times> signature_policy" where
  "continuity_block w obj p =
     (case sp_continuity p of
        Some g \<Rightarrow> (case gate_evaluate w (pod_images obj) g of (r, g1) \<Rightarrow> (r, p\<lparr>sp_continuity := Some g1\<rparr>))
      | None \<Rightarrow> (None, p))"

definition signature_evaluate ::
  "(string + bool) registry_walk \<Rightarrow> signing_posture registry_walk \<Rightarrow> admission_request \<Rightarrow> signature_policy \<Rightarrow>
     admission_decision \<times> signature_policy" where
  "signature_evaluate w v req p =
     (case rq_object req of
        None \<Rightarrow> (Admit, p)
      | Some obj \<Rightarrow>
          (case gated_decision w req obj p of
             (DenyRequest r, p1) \<Rightarrow> (DenyRequest r, p1)
           | (d, p1) \<Rightarrow>
               (case continuity_block v obj p1 of
                  (Some r, p2) \<Rightarrow> (more_severe d (scope_decide (sp_enforce p) req r), p2)
                | (None, p2) \<Rightarrow> (more_severe d Admit, p2))))"

definition shadow_loop ::
  "(string + bool) registry_walk \<Rightarrow> string list \<Rightarrow> signature_policy \<Rightarrow> string list \<times> signature_policy" where
  "shadow_loop w imgs p =
     (case lookup_all (is_signed_cached (sp_cache_ttl p) w) imgs (sp_cache p) of
        (vs, c) \<Rightarrow> (map fst (filter (\<lambda>(_, v). v \<noteq> Inr True) vs), p\<lparr>sp_cache := c\<rparr>))"

definition signature_shadow ::
  "(string + bool) registry_walk \<Rightarrow> signing_posture registry_walk \<Rightarrow> admission_request \<Rightarrow> signature_policy \<Rightarrow>
     shadow_verdict \<times> signature_policy" where
  "signature_shadow w v req p =
     (case rq_object req of
        None \<Rightarrow> (ShadowNotApplicable, p)
      | Some obj \<Rightarrow>
          (let enforced = enforces (sp_enforce p) req;
               imgs = gated_images p obj
           in if imgs = [] then
                (case continuity_block v obj p of
                   (Some r, p1) \<Rightarrow> (ShadowEvaluated False enforced r, p1)
                 | (None, p1) \<Rightarrow> (ShadowNotApplicable, p1))
              else if sp_max_images p < length imgs then (ShadowEvaluated False enforced (too_many_reason p imgs), p)
              else
                (case shadow_loop w imgs p of
                   (failed, p1) \<Rightarrow>
                     if failed \<noteq> [] then
                       (ShadowEvaluated False enforced (''unsigned or untrusted image(s): '' @ join '', '' failed), p1)
                     else
                       (case continuity_block v obj p1 of
                          (Some r, p2) \<Rightarrow> (ShadowEvaluated False enforced r, p2)
                        | (None, p2) \<Rightarrow> (ShadowEvaluated True enforced [], p2)))))"

section \<open>The mesh policy\<close>

definition pod_is_long_running :: "admission_object \<Rightarrow> bool" where
  "pod_is_long_running obj \<longleftrightarrow>
     (case jstr (jget (pod_spec obj) ''restartPolicy'') of None \<Rightarrow> True | Some s \<Rightarrow> s = ''Always'')"

definition pod_is_meshed :: "admission_object \<Rightarrow> bool" where
  "pod_is_meshed obj \<longleftrightarrow>
     list_ex (\<lambda>f. case pod_containers obj f of
                    Some cs \<Rightarrow> list_ex (\<lambda>c. jstr (jget c ''name'') = Some ''linkerd-proxy'') cs
                  | None \<Rightarrow> False) [''containers'', ''initContainers''] \<or>
     (case Option.bind (ob_annotations obj) (\<lambda>a. bt_get a ''linkerd.io/inject'') of
        Some v \<Rightarrow> v = ''enabled'' \<or> v = ''ingress''
      | None \<Rightarrow> False)"

definition mesh_verdict :: "admission_request \<Rightarrow> string option" where
  "mesh_verdict req =
     (case rq_object req of
        None \<Rightarrow> None
      | Some obj \<Rightarrow>
          if \<not> pod_is_long_running obj \<or> pod_is_meshed obj then None
          else Some ''Pod is not Linkerd-meshed (no injected linkerd-proxy)'')"

definition mesh_evaluate :: "enforce_scope \<Rightarrow> admission_request \<Rightarrow> admission_decision" where
  "mesh_evaluate sc req = (case mesh_verdict req of None \<Rightarrow> Admit | Some r \<Rightarrow> scope_decide sc req r)"

definition mesh_shadow :: "enforce_scope \<Rightarrow> admission_request \<Rightarrow> shadow_verdict" where
  "mesh_shadow sc req =
     (case mesh_verdict req of
        None \<Rightarrow> ShadowEvaluated True (enforces sc req) []
      | Some r \<Rightarrow> ShadowEvaluated False (enforces sc req) r)"

section \<open>The ordered set of policies\<close>

datatype admission_policy = SignaturePolicy signature_policy | MeshInjectionPolicy enforce_scope

fun policy_name :: "admission_policy \<Rightarrow> string" where
  "policy_name (SignaturePolicy _) = ''image-signature''"
| "policy_name (MeshInjectionPolicy _) = ''mesh-injection''"

fun policy_scope :: "admission_policy \<Rightarrow> enforce_scope" where
  "policy_scope (SignaturePolicy p) = sp_enforce p"
| "policy_scope (MeshInjectionPolicy sc) = sc"

fun policy_applies :: "admission_policy \<Rightarrow> admission_request \<Rightarrow> bool" where
  "policy_applies (SignaturePolicy _) req = (rq_kind req = ''Pod'')"
| "policy_applies (MeshInjectionPolicy _) req = (rq_kind req = ''Pod'')"

record admission_env =
  ad_shadow_checks :: "(string + bool) registry_walk"
  ad_shadow_postures :: "signing_posture registry_walk"
  ad_checks :: "(string + bool) registry_walk"
  ad_postures :: "signing_posture registry_walk"
  ad_now_ms :: u64

fun policy_evaluate ::
  "admission_env \<Rightarrow> admission_request \<Rightarrow> admission_policy \<Rightarrow> admission_decision \<times> admission_policy" where
  "policy_evaluate env req (SignaturePolicy p) =
     (case signature_evaluate (ad_checks env) (ad_postures env) req p of (d, p1) \<Rightarrow> (d, SignaturePolicy p1))"
| "policy_evaluate env req (MeshInjectionPolicy sc) = (mesh_evaluate sc req, MeshInjectionPolicy sc)"

fun policy_shadow ::
  "admission_env \<Rightarrow> admission_request \<Rightarrow> admission_policy \<Rightarrow> shadow_verdict \<times> admission_policy" where
  "policy_shadow env req (SignaturePolicy p) =
     (case signature_shadow (ad_shadow_checks env) (ad_shadow_postures env) req p of (v, p1) \<Rightarrow> (v, SignaturePolicy p1))"
| "policy_shadow env req (MeshInjectionPolicy sc) = (mesh_shadow sc req, MeshInjectionPolicy sc)"

record admission_summary =
  su_decision :: string
  su_reason :: string
  su_signature :: string
  su_mesh :: string
  su_would_admit :: bool

fun shadow_what_if ::
  "admission_env \<Rightarrow> admission_request \<Rightarrow> admission_policy list \<Rightarrow> admission_summary \<Rightarrow>
     admission_summary \<times> admission_policy list" where
  "shadow_what_if env req [] su = (su, [])"
| "shadow_what_if env req (p # ps) su =
     (case policy_shadow env req p of
        (v, p1) \<Rightarrow>
          (let su1 = su\<lparr>su_would_admit := su_would_admit su \<and> shadow_admits v\<rparr>;
               su2 = (if policy_name p = ''image-signature'' then su1\<lparr>su_signature := shadow_status v\<rparr>
                      else if policy_name p = ''mesh-injection'' then su1\<lparr>su_mesh := shadow_status v\<rparr>
                      else su1)
           in case shadow_what_if env req ps su2 of (su3, ps1) \<Rightarrow> (su3, p1 # ps1)))"

fun run_policies ::
  "admission_env \<Rightarrow> admission_request \<Rightarrow> admission_policy list \<Rightarrow> admission_summary \<Rightarrow>
     admission_decision \<times> admission_summary \<times> admission_policy list" where
  "run_policies env req [] su = (Admit, su, [])"
| "run_policies env req (p # ps) su =
     (if \<not> policy_applies p req then
        (case run_policies env req ps su of (d, su1, ps1) \<Rightarrow> (d, su1, p # ps1))
      else
        (case policy_evaluate env req p of
           (Admit, p1) \<Rightarrow> (case run_policies env req ps su of (d, su1, ps1) \<Rightarrow> (d, su1, p1 # ps1))
         | (AuditRequest reason, p1) \<Rightarrow>
             (case run_policies env req ps
                     (if su_decision su = ''allow'' then su\<lparr>su_decision := ''audit'', su_reason := reason\<rparr> else su) of
                (d, su1, ps1) \<Rightarrow> (d, su1, p1 # ps1))
         | (DenyRequest reason, p1) \<Rightarrow>
             (DenyRequest (''['' @ policy_name p @ ''] '' @ reason),
              su\<lparr>su_decision := ''deny'', su_reason := reason\<rparr>, p1 # ps)))"

definition request_image :: "admission_request \<Rightarrow> string" where
  "request_image req =
     (case Option.bind (rq_object req) (\<lambda>obj. pod_containers obj ''containers'') of
        None \<Rightarrow> []
      | Some cs \<Rightarrow>
          (case List.map_filter (\<lambda>c. jstr (jget c ''image''))
                  (filter (\<lambda>c. jstr (jget c ''name'') \<noteq> Some ''linkerd-proxy'') cs) of
             [] \<Rightarrow> []
           | img # _ \<Rightarrow> img))"

record admission_engine =
  ad_policies :: "admission_policy list"
  ad_decisions :: "policy_decision_record list option"
  ad_journal :: "journal_decision list option"

definition record_admission ::
  "u64 \<Rightarrow> admission_request \<Rightarrow> admission_summary \<Rightarrow> admission_engine \<Rightarrow> admission_engine" where
  "record_admission now_ms req su e =
     (let r = with_would_admit (su_would_admit su)
                (policy_decision_now now_ms ''admission'' (su_decision su) (rq_kind req @ ''/'' @ rq_name req)
                   (request_image req) (su_signature su) (su_mesh su)
                   (case rq_namespace req of Some ns \<Rightarrow> ns | None \<Rightarrow> []) (su_reason su))
      in e\<lparr>ad_decisions := map_option (policy_record r) (ad_decisions e),
           ad_journal := map_option (\<lambda>ls. ls @ [Admission r]) (ad_journal e)\<rparr>)"

definition admission_evaluate ::
  "admission_env \<Rightarrow> admission_request \<Rightarrow> admission_engine \<Rightarrow> admission_decision \<times> admission_engine" where
  "admission_evaluate env req e =
     (let su = \<lparr>su_decision = ''allow'', su_reason = [], su_signature = [], su_mesh = [], su_would_admit = True\<rparr>
      in case shadow_what_if env req (ad_policies e) su of
           (su1, ps1) \<Rightarrow>
             (case run_policies env req ps1 su1 of
                (d, su2, ps2) \<Rightarrow> (d, record_admission (ad_now_ms env) req su2 (e\<lparr>ad_policies := ps2\<rparr>))))"

section \<open>Loops over images\<close>

lemma distinct_images_append: "distinct_images acc (xs @ ys) = distinct_images (distinct_images acc xs) ys"
  by (induction xs arbitrary: acc) simp_all

lemma distinct_images_set [simp]: "set (distinct_images acc xs) = set acc \<union> set xs"
  by (induction xs arbitrary: acc) auto

lemma distinct_images_distinct: "distinct acc \<Longrightarrow> distinct (distinct_images acc xs)"
  by (induction xs arbitrary: acc) simp_all

lemma distinct_images_extends: "\<exists>ys. distinct_images acc xs = acc @ ys"
proof (induction xs arbitrary: acc)
  case (Cons x xs)
  then show ?case using Cons.IH [of acc] Cons.IH [of "acc @ [x]"] by auto
qed simp

text \<open>The contract of a cached lookup: the answer for one image does not depend on a lookup of another.\<close>

locale image_lookup =
  fixes look :: "string \<Rightarrow> 'c \<Rightarrow> 'v \<times> 'c"
  assumes look_other: "img \<noteq> img' \<Longrightarrow> fst (look img (snd (look img' c))) = fst (look img c)"
begin

lemma lookup_all_answers:
  "distinct imgs \<Longrightarrow> fst (lookup_all look imgs c) = map (\<lambda>img. (img, fst (look img c))) imgs"
proof (induction imgs arbitrary: c)
  case (Cons img imgs)
  have "fst (look i (snd (look img c))) = fst (look i c)" if "i \<in> set imgs" for i
    using Cons.prems that by (intro look_other) auto
  then show ?case using Cons.IH [of "snd (look img c)"] Cons.prems
    by (simp add: case_prod_beta)
qed simp

end

lemma cache_hit_other: "img \<noteq> img' \<Longrightarrow> cache_hit ttl w img (AList.update img' e c) = cache_hit ttl w img c"
  by (simp add: cache_hit_def update_conv')

interpretation signed_lookup: image_lookup "is_signed_cached ttl w" for ttl w
  by unfold_locales (simp add: is_signed_cached_def cache_hit_other split: option.split sum.split)

interpretation posture_lookup: image_lookup "observe_cached ttl w" for ttl w
  by unfold_locales (simp add: observe_cached_def cache_hit_other Let_def split: option.split)

section \<open>What the continuity gate blocks\<close>

lemma blocked_drift_kind:
  assumes "would_block (classify_signing b posture) posture"
  shows "(case classify_signing b posture of Regression k _ \<Rightarrow> k | _ \<Rightarrow> RegInvalid) = pin_violation_kind posture"
  using assms
  by (cases posture; cases b) (auto simp: would_block_def classify_signing_def split: if_splits)

definition pin_violated :: "continuity_gate \<Rightarrow> string \<Rightarrow> signing_posture \<Rightarrow> bool" where
  "pin_violated g img posture \<longleftrightarrow> list_ex (\<lambda>pin. pin_applies pin img \<and> \<not> pin_satisfied pin posture) (cg_pins g)"

lemma find_None_list_ex: "find P xs = None \<longleftrightarrow> \<not> list_ex P xs"
  by (auto simp: find_None_iff list_ex_iff)

lemma block_reason_exact:
  "block_reason g img posture \<noteq> None \<longleftrightarrow>
     \<not> exception_accepts (cg_exceptions g) img (pin_violation_kind posture) \<and>
     (pin_violated g img posture \<or>
      would_block (classify_signing (store_get (cg_baseline g) (repo_key img)) posture) posture)"
proof (cases "find (\<lambda>pin. pin_applies pin img \<and> \<not> pin_satisfied pin posture) (cg_pins g)")
  case None
  then have "\<not> pin_violated g img posture" by (simp add: pin_violated_def find_None_list_ex)
  then show ?thesis using None blocked_drift_kind [of "store_get (cg_baseline g) (repo_key img)" posture]
    by (simp add: block_reason_def Let_def)
next
  case (Some pin)
  then have "pin_violated g img posture"
    unfolding pin_violated_def by (metis find_None_list_ex option.distinct(1))
  then show ?thesis using Some by (simp add: block_reason_def)
qed

definition seen_posture :: "signing_posture registry_walk \<Rightarrow> continuity_gate \<Rightarrow> string \<Rightarrow> signing_posture" where
  "seen_posture w g img = fst (observe_cached (cg_cache_ttl g) w img (cg_cache g))"

lemma map_filter_Nil: "List.map_filter f xs = [] \<longleftrightarrow> list_all (\<lambda>x. f x = None) xs"
  by (induction xs) (simp_all add: List.map_filter_simps split: option.split)

lemma gate_evaluate_None:
  "fst (gate_evaluate w imgs g) = None \<longleftrightarrow>
     list_all (\<lambda>img. block_reason g img (seen_posture w g img) = None)
       (take (cg_max_images g) (distinct_images [] imgs))"
proof -
  have "distinct (take (cg_max_images g) (distinct_images [] imgs))"
    by (simp add: distinct_images_distinct)
  from posture_lookup.lookup_all_answers [OF this] show ?thesis
    by (simp add: gate_evaluate_def case_prod_beta Let_def map_filter_Nil list.pred_map comp_def seen_posture_def)
qed

text \<open>
  C16. The continuity gate blocks a Pod exactly when one of the images it looks at violates a pin or would be blocked by
  drift (an established regression or an invalid signature) and no recorded exception accepts the change that the
  image's posture is. Pins and learned baselines name the same change, so one exception covers both.
\<close>

theorem gate_blocks_exactly:
  "fst (gate_evaluate w imgs g) \<noteq> None \<longleftrightarrow>
     list_ex (\<lambda>img.
       \<not> exception_accepts (cg_exceptions g) img (pin_violation_kind (seen_posture w g img)) \<and>
       (pin_violated g img (seen_posture w g img) \<or>
        would_block (classify_signing (store_get (cg_baseline g) (repo_key img)) (seen_posture w g img))
          (seen_posture w g img)))
     (take (cg_max_images g) (distinct_images [] imgs))"
  unfolding gate_evaluate_None block_reason_exact [symmetric] by (simp add: list_all_iff list_ex_iff)

text \<open>
  A cold start never denies: without pins, a Pod whose images come from repositories with no baseline or one that
  is not established yet passes the continuity gate whatever its signatures, as long as none is invalid.
\<close>

theorem cold_start_never_denies:
  assumes "cg_pins g = []"
    and "list_all (\<lambda>img. seen_posture w g img \<noteq> InvalidSignature \<and>
           (case store_get (cg_baseline g) (repo_key img) of Some b \<Rightarrow> \<not> established b | None \<Rightarrow> True)) imgs"
  shows "fst (gate_evaluate w imgs g) = None"
proof -
  have "block_reason g img (seen_posture w g img) = None" if "img \<in> set imgs" for img
  proof -
    have i: "seen_posture w g img \<noteq> InvalidSignature"
      and b: "case store_get (cg_baseline g) (repo_key img) of Some b \<Rightarrow> \<not> established b | None \<Rightarrow> True"
      using assms(2) that by (simp_all add: list_all_iff)
    have "\<not> would_block (classify_signing base p) p"
      if "p \<noteq> InvalidSignature" "case base of Some b \<Rightarrow> \<not> established b | None \<Rightarrow> True" for base p
      using that by (cases p; cases base) (auto simp: would_block_def classify_signing_def split: if_splits)
    from this [OF i b] show ?thesis
      using block_reason_exact [of g img "seen_posture w g img"] assms(1) by (simp add: pin_violated_def)
  qed
  then show ?thesis
    unfolding gate_evaluate_None list_all_iff using in_set_takeD by fastforce
qed

definition answers :: "(string \<Rightarrow> 'v) \<Rightarrow> 'v registry_walk" where
  "answers f = \<lparr>wk_answer = f, wk_read_at = (\<lambda>_. 0), wk_write_at = (\<lambda>_. 0)\<rparr>"

definition small_gate :: "signing_store \<Rightarrow> continuity_gate" where
  "small_gate st = \<lparr>cg_cache_ttl = 10, cg_cache = [], cg_baseline = st, cg_exceptions = [], cg_pins = [], cg_max_images = 1\<rparr>"

theorem cold_start_never_denies_witness:
  "fst (gate_evaluate (answers (\<lambda>_. NotSigned)) [''a:1'', ''b:1''] (small_gate sample_store)) = None"
  by (rule cold_start_never_denies) code_simp+

text \<open>
  C39. The gate does not look at every image: once a Pod has as many distinct images as the gate's bound, whatever
  images follow them, in whatever posture and against whatever baseline or pin, leave its answer unchanged.
\<close>

theorem images_past_the_cap_go_unchecked:
  assumes "cg_max_images g \<le> length (distinct_images [] imgs)"
  shows "gate_evaluate w (imgs @ others) g = gate_evaluate w imgs g"
proof -
  obtain ys where "distinct_images [] (imgs @ others) = distinct_images [] imgs @ ys"
    using distinct_images_extends [of "distinct_images [] imgs" others] by (auto simp: distinct_images_append)
  then have "take (cg_max_images g) (distinct_images [] (imgs @ others)) =
      take (cg_max_images g) (distinct_images [] imgs)"
    using assms by simp
  then show ?thesis unfolding gate_evaluate_def by (simp only:)
qed

definition tampered :: "string \<Rightarrow> signing_posture" where
  "tampered img = (if img = ''b:1'' then InvalidSignature else SignedKeyBased)"

theorem images_past_the_cap_go_unchecked_witness:
  "fst (gate_evaluate (answers tampered) ([''a:1''] @ [''b:1'']) (small_gate (store_with_capacity 2))) = None \<and>
   fst (gate_evaluate (answers tampered) [''b:1''] (small_gate (store_with_capacity 2))) \<noteq> None"
proof -
  have "cg_max_images (small_gate (store_with_capacity 2)) \<le> length (distinct_images [] [''a:1''])" by code_simp
  note cap = images_past_the_cap_go_unchecked [OF this, of "answers tampered" "[''b:1'']"]
  have "fst (gate_evaluate (answers tampered) [''a:1''] (small_gate (store_with_capacity 2))) = None"
    "fst (gate_evaluate (answers tampered) [''b:1''] (small_gate (store_with_capacity 2))) \<noteq> None"
    by code_simp+
  then show ?thesis unfolding cap by blast
qed

text \<open>
  C40. One sighting is enough to make a signer continuous. In a gate without pins, after the sweep has observed a single running image signed by
  an identity, the published baseline lets every image of that repository with that signature pass, however well
  established the earlier identities were.
\<close>

theorem one_sighting_admits_a_signer:
  assumes "cg_pins g = []" "cg_baseline g = snd (store_observe img (Signed s) now_ms st)"
    and "repo_key img' = repo_key img"
  shows "block_reason g img' (Signed s) = None"
proof -
  obtain b where b: "store_get (cg_baseline g) (repo_key img') = Some b" "signer_identity s \<in> set (bl_identities b)"
  proof (cases rule: store_observe_cases [of "Signed s" img now_ms st])
    case (refreshed s' b changed b')
    then show thesis using that [of b'] refresh_fields(1) [OF refreshed(3)] by (simp add: assms)
  next
    case (first s')
    then show thesis using that by (simp add: assms first_baseline_def)
  qed simp
  have "list_ex (\<lambda>k. canonical_identity k = signer_identity s) (bl_identities b)"
    using b(2) unfolding list_ex_iff signer_identity_def by (metis canonical_identity_idem)
  then have "\<not> would_block (classify_signing (Some b) (Signed s)) (Signed s)"
    by (simp add: would_block_def classify_signing_def)
  then show ?thesis
    using block_reason_exact [of g img' "Signed s"] assms(1) b(1) by (simp add: pin_violated_def)
qed

definition other_signer :: signer where
  "other_signer = \<lparr>si_identity = ''other'', si_issuer = None\<rparr>"

theorem one_sighting_admits_a_signer_witness:
  "block_reason (small_gate mature_store) ''a:3'' (Signed other_signer) \<noteq> None \<and>
   block_reason (small_gate (snd (store_observe ''a:2'' (Signed other_signer) 9 mature_store))) ''a:3''
     (Signed other_signer) = None"
proof
  show "block_reason (small_gate mature_store) ''a:3'' (Signed other_signer) \<noteq> None" by code_simp
  show "block_reason (small_gate (snd (store_observe ''a:2'' (Signed other_signer) 9 mature_store))) ''a:3''
     (Signed other_signer) = None"
    by (rule one_sighting_admits_a_signer [of _ "''a:2''" _ 9 mature_store]) code_simp+
qed

section \<open>What the signature policy denies\<close>

definition checked :: "(string + bool) registry_walk \<Rightarrow> signature_policy \<Rightarrow> string \<Rightarrow> string + bool" where
  "checked w p img = fst (is_signed_cached (sp_cache_ttl p) w img (sp_cache p))"

lemma gated_loop_enforced:
  assumes "distinct imgs"
  shows "fst (gated_loop p True w imgs refused c) =
       Inr (refused @ filter (\<lambda>i. fst (is_signed_cached (sp_cache_ttl p) w i c) = Inr False) imgs) \<and>
       list_all (\<lambda>i. \<exists>v. fst (is_signed_cached (sp_cache_ttl p) w i c) = Inr v) imgs \<or>
     (\<exists>r. fst (gated_loop p True w imgs refused c) = Inl r) \<and>
       list_ex (\<lambda>i. \<exists>e. fst (is_signed_cached (sp_cache_ttl p) w i c) = Inl e) imgs"
  using assms
proof (induction imgs arbitrary: refused c)
  case (Cons img imgs)
  obtain v c1 where v: "is_signed_cached (sp_cache_ttl p) w img c = (v, c1)" by fastforce
  have same: "fst (is_signed_cached (sp_cache_ttl p) w i c1) = fst (is_signed_cached (sp_cache_ttl p) w i c)"
    if "i \<in> set imgs" for i
    using signed_lookup.look_other [of i img "sp_cache_ttl p" w c] Cons.prems that v by auto
  have f: "filter (\<lambda>i. fst (is_signed_cached (sp_cache_ttl p) w i c1) = Inr False) imgs =
      filter (\<lambda>i. fst (is_signed_cached (sp_cache_ttl p) w i c) = Inr False) imgs"
    by (rule filter_cong) (simp_all add: same)
  have a: "list_all (\<lambda>i. \<exists>v. fst (is_signed_cached (sp_cache_ttl p) w i c1) = Inr v) imgs \<longleftrightarrow>
      list_all (\<lambda>i. \<exists>v. fst (is_signed_cached (sp_cache_ttl p) w i c) = Inr v) imgs"
    "list_ex (\<lambda>i. \<exists>e. fst (is_signed_cached (sp_cache_ttl p) w i c1) = Inl e) imgs \<longleftrightarrow>
      list_ex (\<lambda>i. \<exists>e. fst (is_signed_cached (sp_cache_ttl p) w i c) = Inl e) imgs"
    by (simp_all add: list_all_iff list_ex_iff same)
  show ?case
  proof (cases v)
    case (Inl e)
    then show ?thesis by (simp add: v)
  next
    case (Inr ok)
    then show ?thesis
      using Cons.IH [of refused c1] Cons.IH [of "refused @ [img]" c1] Cons.prems
      by (cases ok) (auto simp: v f a)
  qed
qed simp

lemma gated_decision_enforced:
  assumes "enforces (sp_enforce p) req"
  shows "(\<exists>r. fst (gated_decision w req obj p) = DenyRequest r) \<longleftrightarrow>
      sp_max_images p < length (gated_images p obj) \<or>
      list_ex (\<lambda>i. checked w p i \<noteq> Inr True) (gated_images p obj)"
proof (cases "sp_max_images p < length (gated_images p obj)")
  case True
  then show ?thesis using assms by (simp add: gated_decision_def scope_decide_def)
next
  case False
  have d: "distinct (gated_images p obj)" by (simp add: gated_images_def distinct_images_distinct)
  have bad: "list_ex (\<lambda>i. checked w p i \<noteq> Inr True) imgs \<longleftrightarrow>
      list_ex (\<lambda>i. \<exists>e. checked w p i = Inl e) imgs \<or> filter (\<lambda>i. checked w p i = Inr False) imgs \<noteq> []" for imgs
  proof -
    have "x \<noteq> Inr True \<longleftrightarrow> (\<exists>e. x = Inl e) \<or> x = Inr False" for x :: "string + bool" by (cases x) auto
    then show ?thesis by (auto simp: list_ex_iff filter_empty_conv)
  qed
  show ?thesis
    using gated_loop_enforced [OF d, of p w "[]" "sp_cache p"] False assms bad [of "gated_images p obj"]
    by (auto simp: gated_decision_def scope_decide_def checked_def Let_def list_all_iff list_ex_iff
        split: prod.splits sum.splits if_splits)
qed

lemma gated_decision_keeps:
  "sp_continuity (snd (gated_decision w req obj p)) = sp_continuity p"
  by (simp add: gated_decision_def Let_def split: prod.split sum.split)

lemma signature_denials:
  assumes "enforces (sp_enforce p) req" "rq_object req = Some obj"
  shows "(\<exists>r. fst (signature_evaluate w v req p) = DenyRequest r) \<longleftrightarrow>
      sp_max_images p < length (gated_images p obj) \<or>
      list_ex (\<lambda>i. checked w p i \<noteq> Inr True) (gated_images p obj) \<or>
      (case sp_continuity p of Some g \<Rightarrow> fst (gate_evaluate v (pod_images obj) g) \<noteq> None | None \<Rightarrow> False)"
proof -
  obtain d p1 where d: "gated_decision w req obj p = (d, p1)" by fastforce
  have c: "sp_continuity p1 = sp_continuity p" using gated_decision_keeps [of w req obj p] by (simp add: d)
  have g: "(\<exists>r. d = DenyRequest r) \<longleftrightarrow> sp_max_images p < length (gated_images p obj) \<or>
      list_ex (\<lambda>i. checked w p i \<noteq> Inr True) (gated_images p obj)"
    using gated_decision_enforced [OF assms(1), of w obj] by (simp add: d)
  have cb: "fst (continuity_block v obj p1) = (case sp_continuity p of
      Some g \<Rightarrow> fst (gate_evaluate v (pod_images obj) g) | None \<Rightarrow> None)"
    by (simp add: continuity_block_def c case_prod_beta split: option.split)
  show ?thesis
  proof (cases "\<exists>r. d = DenyRequest r")
    case True
    then show ?thesis using g by (auto simp: signature_evaluate_def assms(2) d)
  next
    case False
    then have "(\<exists>r. fst (signature_evaluate w v req p) = DenyRequest r) \<longleftrightarrow> fst (continuity_block v obj p1) \<noteq> None"
      using assms(1) by (cases d; cases "continuity_block v obj p1")
        (auto simp: signature_evaluate_def assms(2) d more_severe_def scope_decide_def split: option.splits)
    then show ?thesis using False g by (auto simp: cb split: option.splits)
  qed
qed

text \<open>
  C15. In the enforced scope the signature policy denies a Pod exactly when it has more gated images than the bound, or a
  gated image that is not known to be signed (refused by the checker, or not verifiable), or when the continuity
  gate is configured and blocks. Nothing else is denied and none of these is admitted.
\<close>

theorem enforced_signature_denials_exact:
  assumes "enforces (sp_enforce p) req" "rq_object req = Some obj"
  shows "(\<exists>r. fst (signature_evaluate w v req p) = DenyRequest r) \<longleftrightarrow>
      sp_max_images p < length (gated_images p obj) \<or>
      list_ex (\<lambda>i. checked w p i \<noteq> Inr True) (gated_images p obj) \<or>
      (case sp_continuity p of Some g \<Rightarrow> fst (gate_evaluate v (pod_images obj) g) \<noteq> None | None \<Rightarrow> False)"
  using signature_denials [OF assms] .

definition sample_pod :: admission_object where
  "sample_pod = \<lparr>ob_labels = None, ob_annotations = None,
     ob_data = JObj [(''spec'', JObj [(''containers'', JArr [JObj [(''image'', JStr ''ghcr.io/org/app:1'')]])])]\<rparr>"

definition sample_request :: admission_request where
  "sample_request = \<lparr>rq_kind = ''Pod'', rq_name = ''web'', rq_namespace = Some ''prod'', rq_object = Some sample_pod\<rparr>"

definition sample_policy :: signature_policy where
  "sample_policy = \<lparr>gated_prefixes = [''ghcr.io/org/''], sp_enforce = \<lparr>es_namespaces = {''prod''}, es_labels = []\<rparr>,
     sp_max_images = 5, sp_cache_ttl = 10, sp_cache = [], sp_continuity = None\<rparr>"

theorem enforced_signature_denials_exact_witness:
  "\<exists>r. fst (signature_evaluate (answers (\<lambda>_. Inl ''timeout'')) (answers tampered) sample_request sample_policy) =
     DenyRequest r"
proof -
  have "enforces (sp_enforce sample_policy) sample_request" "rq_object sample_request = Some sample_pod"
    by (simp_all add: enforces_def sample_policy_def sample_request_def)
  moreover have "list_ex (\<lambda>i. checked (answers (\<lambda>_. Inl ''timeout'')) sample_policy i \<noteq> Inr True)
      (gated_images sample_policy sample_pod)"
    by code_simp
  ultimately show ?thesis using enforced_signature_denials_exact by blast
qed

section \<open>The counterfactual\<close>

lemma shadow_loop_failed:
  assumes "distinct imgs" shows "fst (shadow_loop w imgs p) = filter (\<lambda>i. checked w p i \<noteq> Inr True) imgs"
  using signed_lookup.lookup_all_answers [OF assms, of "sp_cache_ttl p" w "sp_cache p"]
  by (simp add: shadow_loop_def case_prod_beta filter_map comp_def checked_def)

lemma shadow_loop_keeps: "sp_continuity (snd (shadow_loop w imgs p)) = sp_continuity p"
  by (simp add: shadow_loop_def case_prod_beta)

lemma continuity_block_reason:
  "fst (continuity_block v obj p) =
     (case sp_continuity p of Some g \<Rightarrow> fst (gate_evaluate v (pod_images obj) g) | None \<Rightarrow> None)"
  by (simp add: continuity_block_def case_prod_beta split: option.split)

lemma signature_shadow_exact:
  assumes "rq_object req = Some obj"
  shows "shadow_admits (fst (signature_shadow w v req p)) \<longleftrightarrow>
    \<not> (sp_max_images p < length (gated_images p obj) \<or>
       list_ex (\<lambda>i. checked w p i \<noteq> Inr True) (gated_images p obj) \<or>
       (case sp_continuity p of Some g \<Rightarrow> fst (gate_evaluate v (pod_images obj) g) \<noteq> None | None \<Rightarrow> False))"
proof -
  let ?imgs = "gated_images p obj"
  let ?fails = "case sp_continuity p of Some g \<Rightarrow> fst (gate_evaluate v (pod_images obj) g) \<noteq> None | None \<Rightarrow> False"
  have cont: "(fst (continuity_block v obj q) \<noteq> None) = ?fails" if "sp_continuity q = sp_continuity p" for q
    using that by (simp add: continuity_block_reason split: option.split)
  obtain failed p1 where l: "shadow_loop w ?imgs p = (failed, p1)" by fastforce
  have f: "failed = [] \<longleftrightarrow> \<not> list_ex (\<lambda>i. checked w p i \<noteq> Inr True) ?imgs"
    using shadow_loop_failed [of ?imgs w p] l
    by (auto simp: gated_images_def distinct_images_distinct filter_empty_conv list_ex_iff)
  have k: "sp_continuity p1 = sp_continuity p" using shadow_loop_keeps [of w ?imgs p] l by simp
  show ?thesis
    using cont [OF refl] cont [OF k] f
    by (cases "continuity_block v obj p"; cases "continuity_block v obj p1")
      (auto simp: signature_shadow_def assms Let_def l split: option.splits)
qed

text \<open>
  C17. The what-if that the decision log shows is the decision that enforcement would take: under any scope, enforced or
  not, the shadow verdict of the signature policy is a pass exactly when the same policy with a scope that
  enforces the request would not deny it, on the same answers of the registry.
\<close>

theorem shadow_predicts_enforcement:
  assumes "enforces (sp_enforce p) req" "rq_object req = Some obj"
  shows "shadow_admits (fst (signature_shadow w v req (p\<lparr>sp_enforce := sc\<rparr>))) \<longleftrightarrow>
    (\<forall>r. fst (signature_evaluate w v req p) \<noteq> DenyRequest r)"
proof -
  let ?q = "p\<lparr>sp_enforce := sc\<rparr>"
  have "gated_images ?q obj = gated_images p obj" "checked w ?q = checked w p"
    by (simp_all add: gated_images_def gated_def [abs_def] checked_def [abs_def])
  then show ?thesis
    using signature_shadow_exact [OF assms(2), of w v ?q] signature_denials [OF assms, of w v] by simp blast
qed

theorem shadow_predicts_enforcement_witness:
  "\<not> shadow_admits (fst (signature_shadow (answers (\<lambda>_. Inl ''timeout'')) (answers tampered) sample_request
      (sample_policy\<lparr>sp_enforce := \<lparr>es_namespaces = {}, es_labels = []\<rparr>\<rparr>)))"
proof -
  have "enforces (sp_enforce sample_policy) sample_request" "rq_object sample_request = Some sample_pod"
    by (simp_all add: enforces_def sample_policy_def sample_request_def)
  note exact = shadow_predicts_enforcement [OF this] and denied = signature_denials [OF this]
  have "list_ex (\<lambda>i. checked (answers (\<lambda>_. Inl ''timeout'')) sample_policy i \<noteq> Inr True)
      (gated_images sample_policy sample_pod)"
    by code_simp
  then show ?thesis using exact denied by blast
qed

section \<open>Enforcement is opt-in\<close>

lemma scope_decide_audit: "\<not> enforces sc req \<Longrightarrow> scope_decide sc req r = AuditRequest r"
  by (simp add: scope_decide_def)

lemma gated_loop_audit: "\<exists>bad c1. gated_loop p False w imgs refused c = (Inr bad, c1)"
  by (induction imgs arbitrary: refused c) (auto split: prod.split sum.split bool.split)

lemma signature_audit:
  assumes "\<not> enforces (sp_enforce p) req" shows "fst (signature_evaluate w v req p) \<noteq> DenyRequest r"
proof -
  have "fst (gated_decision w req obj p) \<noteq> DenyRequest r" for obj r
    using gated_loop_audit [of p w "gated_images p obj" "[]" "sp_cache p"] assms
    by (auto simp: gated_decision_def Let_def scope_decide_audit split: if_splits)
  then show ?thesis
    using assms by (auto simp: signature_evaluate_def scope_decide_audit more_severe_def
        split: option.split prod.split admission_decision.split) (metis fst_conv)+
qed

lemma policy_audit: "\<not> enforces (policy_scope p) req \<Longrightarrow> fst (policy_evaluate env req p) \<noteq> DenyRequest r"
  by (cases p) (simp_all add: signature_audit case_prod_beta mesh_evaluate_def scope_decide_audit split: option.split)

lemma run_policies_audit:
  "list_all (\<lambda>p. \<not> enforces (policy_scope p) req) ps \<Longrightarrow> fst (run_policies env req ps su) = Admit"
proof (induction ps arbitrary: su)
  case (Cons p ps)
  obtain d p1 where d: "policy_evaluate env req p = (d, p1)" by fastforce
  then have "d \<noteq> DenyRequest r" for r using policy_audit [of p req env r] Cons.prems by simp
  then show ?case using Cons by (cases d) (auto simp: d case_prod_beta)
qed simp

lemma shadow_keeps_scope:
  "map policy_scope (snd (shadow_what_if env req ps su)) = map policy_scope ps"
proof (induction ps arbitrary: su)
  case (Cons p ps)
  have "policy_scope (snd (policy_shadow env req p)) = policy_scope p"
    by (cases p) (auto simp: signature_shadow_def continuity_block_def shadow_loop_def Let_def case_prod_beta
        split: option.split)
  then show ?case using Cons.IH by (simp add: case_prod_beta Let_def)
qed simp

text \<open>
  C18. Enforcement is opt-in: a request that no policy's scope enforces is admitted, whatever the registry answers, errors
  included, and whatever the policies find; what they find is only recorded.
\<close>

theorem unenforced_requests_are_admitted:
  assumes "list_all (\<lambda>p. \<not> enforces (policy_scope p) req) (ad_policies e)"
  shows "fst (admission_evaluate env req e) = Admit"
proof -
  obtain su1 ps1 where sh: "shadow_what_if env req (ad_policies e)
      \<lparr>su_decision = ''allow'', su_reason = [], su_signature = [], su_mesh = [], su_would_admit = True\<rparr> = (su1, ps1)"
    by fastforce
  have "map policy_scope ps1 = map policy_scope (ad_policies e)"
    using shadow_keeps_scope [of env req "ad_policies e"] sh by (metis snd_conv)
  then have "list_all (\<lambda>sc. \<not> enforces sc req) (map policy_scope ps1)"
    using assms by (simp add: list.pred_map comp_def)
  then have "fst (run_policies env req ps1 su1) = Admit"
    by (intro run_policies_audit) (simp add: list.pred_map comp_def)
  then show ?thesis by (simp add: admission_evaluate_def Let_def sh case_prod_beta)
qed

definition sample_env :: admission_env where
  "sample_env = \<lparr>ad_shadow_checks = answers (\<lambda>_. Inr False), ad_shadow_postures = answers tampered,
     ad_checks = answers (\<lambda>_. Inl ''timeout''), ad_postures = answers tampered, ad_now_ms = 0\<rparr>"

theorem unenforced_requests_are_admitted_witness:
  "fst (admission_evaluate sample_env (sample_request\<lparr>rq_namespace := Some ''dev''\<rparr>)
     \<lparr>ad_policies = [SignaturePolicy sample_policy, MeshInjectionPolicy (sp_enforce sample_policy)],
      ad_decisions = None, ad_journal = None\<rparr>) = Admit"
  by (rule unenforced_requests_are_admitted) (simp add: enforces_def sample_policy_def sample_request_def)

end
