(* ===== verification/Spec2Isabelle.thy ===== *)
theory Spec2Isabelle
  imports Chains Respond Action_Log Cluster Node_Containment Scope_Preview Divergence Engine Admission_Policy
begin

text \<open>
  A verification library for protector, an engine that watches a Kubernetes cluster, proves attack paths
  through it, asks a language model to judge the live ones, and contains an attack with reversible cuts.
  File names below are relative to \<open>src/engine/src/engine/\<close> unless they start with \<open>src/\<close>.

  \<^bold>\<open>The program.\<close> Each pass turns an observed snapshot into a typed graph of workloads, images, identities,
  secrets, capabilities and hosts. The prover walks it from every workload and emits a chain for every
  objective it can reach by movement through compromised footholds. Chains whose entry is exposed are
  grouped by entry and judged: a gate decides from the verdict store whether the entry needs the model at
  all; if so a prompt with a closed menu of cuts is sent, the reply is parsed, guarded against fabrication
  and folded back. The ledger reconciles the mitigations the chains and decisions justify, an
  actuation gate decides which of them are applied without a human, and a revert loop lifts every applied
  cut that is no longer earned. Decisions are journaled, and the journal is replayed on boot.
  Beside the engine an admission webhook checks new Pods against signature and mesh policies, with the signing history
  that the engine has learned.

  \<^bold>\<open>How the code is represented.\<close> Strings are the byte lists of their UTF-8 encoding. A \<open>BTreeMap\<close> is a
  sorted association list (\<open>bt_get\<close>, \<open>bt_put\<close>), a \<open>BTreeSet\<close> or a sort with dedup is \<open>bs_of_list\<close>, a hash set is a
  set. Fixed-width integers are words; instants are integers counting nanoseconds. A function that can panic
  returns an option although the source's type has none; an operation with side effects takes and returns
  a record. Asynchronous calls are sequential except the judging of entries, whose order of completion is
  an argument (any permutation). Code outside the repository is a parameter: the graph container of petgraph
  (\<open>'g petgraph\<close>), the Kubernetes API (\<open>'c kube_api\<close>), the model (\<open>ae_chat\<close>), the JSON parser (\<open>from_str\<close>),
  SHA-256 and the standard hasher.

  \<^bold>\<open>Interfaces.\<close> \<open>ordered_map\<close> (Prelude) is the contract of sorted maps, interpreted as \<open>bt\<close>; \<open>stable_graph\<close>
  (Graph) the laws of the graph container, interpreted on adjacency lists as \<open>adj\<close>; \<open>bounded_ring\<close>
  (Divergence) the capped histories, interpreted on the reversion ring and on the divergence ring;
  \<open>kube_server\<close> (Cluster) server-side apply and delete, interpreted on an object store as \<open>store\<close>;
  \<open>image_lookup\<close> (Admission_Policy) the cached lookup of an image, interpreted on the two caches of the policies.

  \<^bold>\<open>Shared theories.\<close>
  \<^item> Prelude: words, trimming, splitting and joining, sorted maps and sets, \<open>those\<close>. Text: UTF-8 character
    boundaries, truncation, search and replacement. Json: JSON values.
  \<^item> Example and Adjacency: a concrete container and a small cluster; the witnesses are evaluated on them.

  \<^bold>\<open>The graph and the proof.\<close>
  \<^item> Attack (\<open>graph/attack.rs\<close>), Behavior (\<open>src/behavior/src/lib.rs\<close>), Classify (\<open>observe/exec_class.rs\<close>,
    \<open>alarm_class.rs\<close>, \<open>peer_class.rs\<close>): the ATT\&CK catalog, runtime behaviors and their classes.
  \<^item> Graph (\<open>graph/mod.rs\<close>): nodes, keys, edges, the key index and the store's operations; keys identify
    nodes and the index stays consistent with the container.
  \<^item> Walk, Paths, Prove, Chains (\<open>reason/proof/chain.rs\<close>, \<open>reason/proof/mod.rs\<close>, \<open>reason/objective.rs\<close>): the
    compromise-gated walk, path enumeration, single-edge cuts and quarantine targets. The walk terminates on
    every graph, reaches exactly the gated reachability relation, and its paths are shortest; the offered cuts
    are exactly the edges whose removal disconnects; the enumeration lists every simple path up to its caps.
  \<^item> Corroborate, Boundary (\<open>reason/proof/corroborate.rs\<close>, \<open>boundary_break.rs\<close>): which live behaviors
    corroborate which technique, and the evidence a node-level containment needs.

  \<^bold>\<open>The judge.\<close>
  \<^item> Redact (\<open>redact/\<close>), Guards, Evidence (\<open>reason/adjudicate/guards.rs\<close>, \<open>evidence.rs\<close>, \<open>downstream.rs\<close>), Asn
    (\<open>observe/asn.rs\<close>): fences, grounding guards, evidence lines under a free-text budget, provider lookup.
  \<^item> Menu, Judge (\<open>reason/adjudicate/incident/\<close>, \<open>model_call.rs\<close>): the cut menu, the reply parser, the
    guards and the call with one retry. An attack decision names offered cuts only and rests on evidence.
  \<^item> Prompt_Text, Prompt (\<open>reason/adjudicate/prompt.rs\<close>): the prompt and the cache key. Attacker-controlled
    text cannot add a line to the prompt.
  \<^item> Verdict, Backoff, Verdict_Store, Adj_Gate (\<open>reason/adjudicate/mod.rs\<close>, \<open>surface.rs\<close>, \<open>state/recency.rs\<close>,
    \<open>reason/backoff.rs\<close>, \<open>state/verdict_store.rs\<close>, \<open>adj_gate.rs\<close>): verdict memory, exponential backoff on
    64-bit words, the circuit breaker, the bounded verdict cache and the re-judge gate.
  \<^item> Adj_Pass (\<open>adj_pass.rs\<close>): the four phases of the adjudication pass. Its result is characterized per entry
    (\<open>pass_result\<close>); promotions are fresh, standing decisions have a source, and the order in which
    the answers arrive changes only the circuit breaker and the places of the cut-choice lines in the journal.

  \<^bold>\<open>The response.\<close>
  \<^item> Respond (\<open>respond/mod.rs\<close>): the mitigation ledger. Its reconcile is shown equal to collecting the
    contributions of the chains, from which every ledger property follows.
  \<^item> Health, Actuator, Action_Log, Scope_Preview (\<open>observe/health.rs\<close>, \<open>respond/actuator/\<close>): health, the arming
    ladder, scope, blast radius, the decision gate, the applied actions and their reverts.
  \<^item> Render, Node_Containment, Cluster (\<open>render.rs\<close>, \<open>node_containment.rs\<close>, \<open>node_containment/live.rs\<close>,
    \<open>kube.rs\<close>, \<open>observe/adapter/node_fact.rs\<close>): manifests, the rails of a node cordon, and
    the actuators over the API. Applying and reverting a quarantine is a round trip on every API server.
  \<^item> Divergence, Policy_Log, Journal (\<open>cut_divergence.rs\<close>, \<open>state/divergence.rs\<close>, \<open>state/reversion.rs\<close>,
    \<open>policy_log.rs\<close>, \<open>journal/mod.rs\<close>): bounded histories and the durable journal with rotation, refined to its
    last two generations of lines.
  \<^item> Engine (\<open>mod.rs\<close>, \<open>restore.rs\<close>, \<open>node_containment_revert.rs\<close>): the whole pass and the boot replay. A pass
    completes; cuts go live only through every gate; what is applied at the end of a pass is earned; the
    journal and the action log agree over every run; a replayed history applies nothing until the model has
    answered about the entry in the run itself; break-glass lifts what the log knows. Two
    theorems state where the code falls short: the log does not survive a restart, and the outcome of an apply
    is not looked at.

  \<^bold>\<open>The supply chain.\<close>
  \<^item> Signing (\<open>state/signing_baseline.rs\<close>, \<open>supply_chain/signing_drift.rs\<close>, \<open>provenance_drift.rs\<close>,
    \<open>src/engine/src/policies/signature/posture.rs\<close> and the repository key of its \<open>mod.rs\<close>): signing postures, the
    baseline learned per repository, its eviction and its journal lines, and the drift of a fresh posture.
    What counts as drift against a learned baseline is characterized exactly, the blindness to the issuer included;
    a flood of new repositories cannot evict a mature baseline, and a restart rebuilds the store of every named
    repository.
  \<^item> Admission_Policy (\<open>src/engine/src/policy.rs\<close>, \<open>src/engine/src/policies/mesh.rs\<close>, \<open>signature/mod.rs\<close>,
    \<open>signature/continuity.rs\<close>): the admission engine and its policies. What an enforced request is denied for is
    characterized exactly, a request outside every scope is admitted, and the recorded what-if is the decision
    enforcement would take. Two theorems state limits: images past the gate's bound are not checked, and one
    sighting of a signer by the sweep makes it continuous. The registry is a parameter (\<open>'v registry_walk\<close>).

  \<^bold>\<open>Bounds and termination.\<close> The queue of the walk and the walk back along its tree are \<open>partial_function\<close>s into
  option, and are proved to return on every graph; the path enumeration terminates by the step budget the
  code itself carries, then by the depth of its stack. No definition takes fuel of its own, so
  no theorem is conditional on it. All other recursions are structural or have a termination proof. The caps
  are those of the code: path and step budgets, ring sizes, cache slots, the journal's size bound and the free-text budget.

  \<^bold>\<open>Not modelled.\<close> The observation adapters, feeds and indexes that build the graph, because the theorems hold for
  every graph and their inputs are foreign object types; the model client, notifier, dashboard, MCP server,
  metrics and output state, because no decision of a pass reads them; the webhook's server and the
  supply-chain sweeps, which fetch through sigstore and HTTP what Signing and Admission_Policy are then given; start-up wiring; the node agent and its kernel programs.
  Of the modelled parts, serialized forms, log lines, mutexes and the retention of shared memory are left out.
\<close>

end
